(* ===== verification/Prelude.thy ===== *)
theory Prelude
  imports Main "HOL-Library.AList" "HOL-Library.Multiset" "HOL-Library.Sublist" "HOL-Library.List_Lexorder"
    "HOL-Library.Char_ord" "HOL-Library.Word"
begin

section \<open>Shared vocabulary\<close>

text \<open>
  What every component of the development uses: Go's maps as association lists, the few functions
  of Go's \<open>strings\<close> and \<open>strconv\<close> packages that the sources call, and the collections of
  rewrite rules the component proofs pass to the simplifier.

  A Go string is a sequence of bytes, and so is \<^typ>\<open>string\<close>; Go compares strings byte by
  byte, which is the order \<^theory_text>\<open>List_Lexorder\<close> and \<^theory_text>\<open>Char_ord\<close> put on them.
\<close>

named_theorems amap_simps \<open>lookups in updated association lists\<close>
named_theorems go_string \<open>definitions of the modelled Go string functions\<close>

subsection \<open>Go maps\<close>

text \<open>
  A Go map is an association list with distinct keys. \<open>map_of m k\<close> is the two-valued lookup
  \<open>v, ok := m[k]\<close>, \<open>AList.update k v m\<close> is \<open>m[k] = v\<close> and \<open>AList.delete k m\<close> is
  \<open>delete(m, k)\<close>. The order of the list is the order in which a \<open>range\<close> loop visits the map.
\<close>

type_synonym ('k, 'v) amap = "('k \<times> 'v) list"

definition keys :: "('k, 'v) amap \<Rightarrow> 'k list" where
  "keys m = map fst m"

definition amap_ok :: "('k, 'v) amap \<Rightarrow> bool" where
  "amap_ok m \<longleftrightarrow> distinct (map fst m)"

lemma map_of_update [amap_simps]:
  "map_of (AList.update k v m) q = (if q = k then Some v else map_of m q)"
  by (simp add: update_conv')

lemma map_of_delete [amap_simps]:
  "map_of (AList.delete k m) q = (if q = k then None else map_of m q)"
  by (simp add: delete_conv')

lemma amap_ok_Nil [simp, intro]: "amap_ok []"
  by (simp add: amap_ok_def)

lemma amap_ok_update [simp, intro]: "amap_ok m \<Longrightarrow> amap_ok (AList.update k v m)"
  by (simp add: amap_ok_def distinct_update)

lemma amap_ok_delete [simp, intro]: "amap_ok m \<Longrightarrow> amap_ok (AList.delete k m)"
  by (simp add: amap_ok_def distinct_delete)

lemma amap_ok_filter [simp, intro]: "amap_ok m \<Longrightarrow> amap_ok (filter P m)"
  by (induction m) (auto simp: amap_ok_def)

lemma map_of_filter_key [amap_simps]:
  "map_of (filter (\<lambda>(k, v). P k) m) q = (if P q then map_of m q else None)"
  by (induction m) auto

lemma set_keys: "q \<in> set (keys m) \<longleftrightarrow> map_of m q \<noteq> None"
  by (simp add: keys_def map_of_eq_None_iff)

lemma amap_ok_member: "amap_ok m \<Longrightarrow> (k, v) \<in> set m \<longleftrightarrow> map_of m k = Some v"
  by (simp add: amap_ok_def)

lemma map_of_mset_eq:
  assumes "mset m = mset m'" and "amap_ok m"
  shows "map_of m = map_of m'"
proof -
  have "mset (map fst m) = mset (map fst m')"
    using assms(1) by simp
  then have d: "distinct (map fst m')"
    using assms(2) unfolding amap_ok_def by (metis mset_eq_imp_distinct_iff)
  have "set m = set m'"
    using assms(1) by (rule mset_eq_setD)
  then show ?thesis
    using assms(2) d unfolding amap_ok_def by (metis map_of_inject_set)
qed

text \<open>
  Go leaves the order of a \<open>range\<close> over a map unspecified, and it may differ from one loop to the
  next. Where the order can matter, the model takes it from an argument \<open>rng\<close>: \<open>rng n m\<close> is
  the sequence in which the \<open>n\<close>-th such loop visits \<open>m\<close>, and \<open>range_order rng\<close> says that
  every loop visits every entry exactly once.
\<close>

definition range_order :: "(nat \<Rightarrow> ('k, 'v) amap \<Rightarrow> ('k, 'v) amap) \<Rightarrow> bool" where
  "range_order rng \<longleftrightarrow> (\<forall>n m. mset (rng n m) = mset m)"

lemma range_order_id [simp]: "range_order (\<lambda>n m. m)"
  by (simp add: range_order_def)

lemma range_order_rev [simp]: "range_order (\<lambda>n m. rev m)"
  by (simp add: range_order_def)

lemma range_order_set: "range_order rng \<Longrightarrow> set (rng n m) = set m"
  by (metis mset_eq_setD range_order_def)

lemma range_order_map_of: "range_order rng \<Longrightarrow> amap_ok m \<Longrightarrow> map_of (rng n m) = map_of m"
  by (metis map_of_mset_eq range_order_def)

end
