(* ===== verification/GoStrings.thy ===== *)
theory GoStrings
  imports Prelude
begin

section \<open>The Go string functions the sources call\<close>

text \<open>
  \<open>strings.HasPrefix\<close>, \<open>TrimPrefix\<close>, \<open>Index\<close> and \<open>LastIndex\<close> of a single byte, \<open>Split\<close>
  on a single byte, \<open>Fields\<close>, \<open>TrimSpace\<close> (ASCII white space), \<open>strconv.Atoi\<close>, and
  \<open>%d\<close> of \<open>fmt.Sprintf\<close>. The lemmas give their round trips and the cut points they return.
\<close>

subsection \<open>Prefixes\<close>

definition has_prefix :: "string \<Rightarrow> string \<Rightarrow> bool" where
  "has_prefix s p \<longleftrightarrow> prefix p s"

definition trim_prefix :: "string \<Rightarrow> string \<Rightarrow> string" where
  "trim_prefix s p = (if has_prefix s p then drop (length p) s else s)"

lemma has_prefix_append [simp]: "has_prefix (p @ s) p"
  by (simp add: has_prefix_def)

lemma has_prefixE:
  assumes "has_prefix s p"
  obtains r where "s = p @ r"
  using assms by (auto simp: has_prefix_def prefix_def)

lemma trim_prefix_append [simp]: "trim_prefix (p @ s) p = s"
  by (simp add: trim_prefix_def)

lemma has_prefix_trans: "has_prefix s p \<Longrightarrow> has_prefix p q \<Longrightarrow> has_prefix s q"
  by (auto simp: has_prefix_def dest: prefix_order.trans)

subsection \<open>Positions of a byte\<close>

primrec str_index :: "char \<Rightarrow> string \<Rightarrow> nat option" where
  "str_index c [] = None"
| "str_index c (x # xs) = (if x = c then Some 0 else map_option Suc (str_index c xs))"

definition last_index :: "char \<Rightarrow> string \<Rightarrow> nat option" where
  "last_index c s = map_option (\<lambda>i. length s - 1 - i) (str_index c (rev s))"

lemma str_index_None [simp]: "str_index c s = None \<longleftrightarrow> c \<notin> set s"
  by (induction s) auto

lemma str_index_cut: "c \<notin> set a \<Longrightarrow> str_index c (a @ c # b) = Some (length a)"
  by (induction a) auto

lemma str_index_SomeE:
  assumes "str_index c s = Some i"
  obtains a b where "s = a @ c # b" and "length a = i" and "c \<notin> set a"
proof -
  have "c \<in> set s" using assms str_index_None [of c s] by (metis option.distinct(1))
  then obtain a b where s: "s = a @ c # b" and n: "c \<notin> set a"
    by (metis split_list_first)
  with assms have "length a = i" using str_index_cut by auto
  with s n show thesis using that by blast
qed

lemma last_index_None [simp]: "last_index c s = None \<longleftrightarrow> c \<notin> set s"
  by (simp add: last_index_def)

lemma last_index_cut: "c \<notin> set b \<Longrightarrow> last_index c (a @ c # b) = Some (length a)"
  by (simp add: last_index_def str_index_cut [of c "rev b" "rev a"])

lemma last_index_SomeE:
  assumes "last_index c s = Some i"
  obtains a b where "s = a @ c # b" and "length a = i" and "c \<notin> set b"
proof -
  have "c \<in> set s" using assms last_index_None [of c s] by (metis option.distinct(1))
  then obtain a b where s: "s = a @ c # b" and n: "c \<notin> set b"
    by (metis split_list_last)
  with assms have "length a = i" using last_index_cut by auto
  with s n show thesis using that by blast
qed

subsection \<open>Splitting and joining\<close>

fun split_by :: "(char \<Rightarrow> bool) \<Rightarrow> string \<Rightarrow> string list" where
  "split_by P [] = [[]]"
| "split_by P (x # xs) =
     (if P x then [] # split_by P xs
      else (case split_by P xs of [] \<Rightarrow> [[x]] | y # ys \<Rightarrow> (x # y) # ys))"

definition split_on :: "char \<Rightarrow> string \<Rightarrow> string list" where
  "split_on c s = split_by (\<lambda>x. x = c) s"

fun join_with :: "char \<Rightarrow> string list \<Rightarrow> string" where
  "join_with c [] = []"
| "join_with c [s] = s"
| "join_with c (s # t # ss) = s @ c # join_with c (t # ss)"

lemma split_by_nonempty [simp]: "split_by P s \<noteq> []"
  by (induction s) (auto split: list.splits)

lemma split_by_no_sep: "w \<in> set (split_by P s) \<Longrightarrow> x \<in> set w \<Longrightarrow> \<not> P x"
proof (induction s arbitrary: w)
  case Nil
  then show ?case by simp
next
  case (Cons a s)
  obtain y ys where "split_by P s = y # ys"
    by (metis neq_Nil_conv split_by_nonempty)
  with Cons show ?case by (fastforce split: if_splits)
qed

lemma split_by_word: "\<forall>x \<in> set w. \<not> P x \<Longrightarrow> split_by P w = [w]"
  by (induction w) auto

lemma split_by_append:
  "\<forall>x \<in> set w. \<not> P x \<Longrightarrow> P c \<Longrightarrow> split_by P (w @ c # s) = w # split_by P s"
  by (induction w) auto

lemma split_on_nonempty [simp]: "split_on c s \<noteq> []"
  by (simp add: split_on_def)

lemma split_on_word: "c \<notin> set w \<Longrightarrow> split_on c w = [w]"
  by (auto simp: split_on_def intro!: split_by_word)

lemma split_on_append: "c \<notin> set w \<Longrightarrow> split_on c (w @ c # s) = w # split_on c s"
  by (auto simp: split_on_def intro!: split_by_append)

lemma split_on_no_sep: "w \<in> set (split_on c s) \<Longrightarrow> c \<notin> set w"
  using split_by_no_sep unfolding split_on_def by fastforce

lemma join_with_Cons: "ss \<noteq> [] \<Longrightarrow> join_with c (s # ss) = s @ c # join_with c ss"
  by (cases ss) auto

lemma join_split: "join_with c (split_on c s) = s"
proof (induction s)
  case Nil
  then show ?case by (simp add: split_on_def)
next
  case (Cons x xs)
  obtain y ys where y: "split_by (\<lambda>x. x = c) xs = y # ys"
    by (metis neq_Nil_conv split_by_nonempty)
  with Cons.IH show ?case
    by (cases ys) (auto simp: split_on_def)
qed

lemma split_join:
  "ss \<noteq> [] \<Longrightarrow> \<forall>w \<in> set ss. c \<notin> set w \<Longrightarrow> split_on c (join_with c ss) = ss"
  by (induction c ss rule: join_with.induct) (auto simp: split_on_word split_on_append)

subsection \<open>White space\<close>

definition is_space :: "char \<Rightarrow> bool" where
  "is_space c \<longleftrightarrow> c \<in> {CHR '' '', CHR 0x09, CHR 0x0A, CHR 0x0B, CHR 0x0C, CHR 0x0D}"

definition trim_space :: "string \<Rightarrow> string" where
  "trim_space s = rev (dropWhile is_space (rev (dropWhile is_space s)))"

definition str_fields :: "string \<Rightarrow> string list" where
  "str_fields s = filter (\<lambda>w. w \<noteq> []) (split_by is_space s)"

lemma trim_space_id:
  assumes "\<forall>c \<in> set s. \<not> is_space c"
  shows "trim_space s = s"
proof -
  have 1: "dropWhile is_space t = t" if "\<forall>c \<in> set t. \<not> is_space c" for t
    using that by (cases t) auto
  show ?thesis using 1 [of s] 1 [of "rev s"] assms by (simp add: trim_space_def)
qed

subsection \<open>Decimal numbers\<close>

definition is_digit :: "char \<Rightarrow> bool" where
  "is_digit c \<longleftrightarrow> CHR ''0'' \<le> c \<and> c \<le> CHR ''9''"

definition digit_char :: "nat \<Rightarrow> char" where
  "digit_char n = char_of (48 + n)"

definition digit_val :: "char \<Rightarrow> nat" where
  "digit_val c = of_char c - 48"

definition digits_val :: "string \<Rightarrow> nat" where
  "digits_val s = foldl (\<lambda>n c. 10 * n + digit_val c) 0 s"

fun nat_str :: "nat \<Rightarrow> string" where
  "nat_str n = (if n < 10 then [digit_char n] else nat_str (n div 10) @ [digit_char (n mod 10)])"

declare nat_str.simps [simp del]

definition int_str :: "int \<Rightarrow> string" where
  "int_str i = (if i < 0 then ''-'' @ nat_str (nat (- i)) else nat_str (nat i))"

definition int_min :: int where "int_min = - (2 ^ 63)"
definition int_max :: int where "int_max = 2 ^ 63 - 1"

text \<open>\<open>strconv.Atoi\<close>: one optional sign, at least one digit, and a value that fits 64 bits.\<close>

definition atoi :: "string \<Rightarrow> int option" where
  "atoi s =
     (let neg = (s \<noteq> [] \<and> hd s = CHR ''-'');
          ds = (if s \<noteq> [] \<and> (hd s = CHR ''-'' \<or> hd s = CHR ''+'') then tl s else s);
          v = (if neg then - int (digits_val ds) else int (digits_val ds))
      in if ds = [] \<or> \<not> list_all is_digit ds then None
         else if v < int_min \<or> int_max < v then None else Some v)"

lemma digit_char_props:
  assumes "n < 10"
  shows "is_digit (digit_char n)" and "digit_val (digit_char n) = n"
proof -
  have "n \<in> {0, 1, 2, 3, 4, 5, 6, 7, 8, 9}" using assms by auto
  then show "is_digit (digit_char n)" and "digit_val (digit_char n) = n"
    by (auto simp: is_digit_def digit_char_def digit_val_def less_eq_char_def)
qed

lemma nat_str_digits: "list_all is_digit (nat_str n)"
proof (induction n rule: nat_str.induct)
  case (1 n)
  then show ?case
    by (cases "n < 10") (simp_all add: nat_str.simps [of n] digit_char_props)
qed

lemma nat_str_nonempty [simp]: "nat_str n \<noteq> []"
  by (subst nat_str.simps) simp

lemma digits_val_nat_str [simp]: "digits_val (nat_str n) = n"
proof (induction n rule: nat_str.induct)
  case (1 n)
  then show ?case
    by (cases "n < 10") (simp_all add: nat_str.simps [of n] digits_val_def digit_char_props)
qed

lemma is_digit_cases: "is_digit c \<Longrightarrow> c \<noteq> CHR ''-'' \<and> c \<noteq> CHR ''+'' \<and> c \<noteq> CHR '':'' \<and> c \<noteq> CHR ''/''"
  by (auto simp: is_digit_def less_eq_char_def)

lemma nat_str_no: "c \<in> set (nat_str n) \<Longrightarrow> is_digit c"
  using nat_str_digits [of n] by (simp add: list_all_iff)

lemma atoi_nat_str:
  assumes "int n \<le> int_max"
  shows "atoi (nat_str n) = Some (int n)"
proof -
  have "is_digit (hd (nat_str n))"
    using nat_str_no [of "hd (nat_str n)" n] by simp
  then have "hd (nat_str n) \<noteq> CHR ''-''" and "hd (nat_str n) \<noteq> CHR ''+''"
    using is_digit_cases by auto
  then show ?thesis
    using assms nat_str_digits [of n] by (simp add: atoi_def Let_def int_min_def int_max_def)
qed

lemma int_str_nonneg: "0 \<le> i \<Longrightarrow> int_str i = nat_str (nat i)"
  by (simp add: int_str_def)

lemma atoi_int_str: "0 \<le> i \<Longrightarrow> i \<le> int_max \<Longrightarrow> atoi (int_str i) = Some i"
  by (simp add: int_str_nonneg atoi_nat_str)

end
