(* ===== verification/Entries.thy ===== *)
theory Entries
  imports GoStrings
begin

section \<open>Package model: entries and trees\<close>

text \<open>
  The metadata cs-sync tracks per path (\<open>internal/model/entry.go\<close>). The three type constants are
  constructors; \<open>TypeUnset\<close> is the empty string a zero \<open>Entry\<close> carries, which the sender reads
  when it looks up a path that is not in its tree. Sizes and times are only compared, never
  computed with, so they are \<^typ>\<open>int\<close>; device, inode and mode keep their width.
\<close>

type_synonym u64 = "64 word"
type_synonym u32 = "32 word"

datatype entry_type = TypeFile | TypeDir | TypeSymlink | TypeUnset

record entry =
  e_path :: string
  e_type :: entry_type
  e_size :: int
  e_mtime :: int
  e_mode :: u32
  e_dev :: u64
  e_ino :: u64
  e_link :: string
  e_acl :: string
  e_hash :: string

definition zero_entry :: entry where
  "zero_entry = \<lparr>e_path = [], e_type = TypeUnset, e_size = 0, e_mtime = 0, e_mode = 0, e_dev = 0,
     e_ino = 0, e_link = [], e_acl = [], e_hash = []\<rparr>"

type_synonym tree = "(string, entry) amap"

record baseline_state =
  st_baseline :: tree
  st_acltype :: string

definition same_identity :: "entry \<Rightarrow> entry \<Rightarrow> bool" where
  "same_identity a b =
     (if e_type a \<noteq> e_type b then False
      else case e_type a of
        TypeDir \<Rightarrow> True
      | TypeSymlink \<Rightarrow> e_link a = e_link b
      | _ \<Rightarrow> e_size a = e_size b \<and> e_mtime a = e_mtime b)"

text \<open>
  Identity as used for change detection is an equivalence. On optional entries it also relates a
  missing entry to a missing entry only.
\<close>

lemma same_identity_refl [simp, intro]: "same_identity a a"
  by (cases "e_type a") (auto simp: same_identity_def)

lemma same_identity_sym: "same_identity a b \<Longrightarrow> same_identity b a"
  by (cases "e_type a"; cases "e_type b") (auto simp: same_identity_def)

lemma same_identity_commute: "same_identity a b = same_identity b a"
  by (blast intro: same_identity_sym)

lemma same_identity_trans: "same_identity a b \<Longrightarrow> same_identity b c \<Longrightarrow> same_identity a c"
  by (cases "e_type a"; cases "e_type b"; cases "e_type c") (auto simp: same_identity_def)

lemma same_identity_via: "same_identity c a \<Longrightarrow> same_identity c b \<Longrightarrow> same_identity a b"
  by (blast intro: same_identity_trans same_identity_sym)

lemma same_identity_type: "same_identity a b \<Longrightarrow> e_type a = e_type b"
  by (auto simp: same_identity_def split: if_splits)

definition same_opt :: "entry option \<Rightarrow> entry option \<Rightarrow> bool" where
  "same_opt x y =
     (case (x, y) of
        (None, None) \<Rightarrow> True
      | (Some a, Some b) \<Rightarrow> same_identity a b
      | _ \<Rightarrow> False)"

lemma same_opt_simps [simp]:
  "same_opt None None"
  "\<not> same_opt None (Some b)"
  "\<not> same_opt (Some a) None"
  "same_opt (Some a) (Some b) = same_identity a b"
  by (simp_all add: same_opt_def)

lemma same_opt_None [simp]:
  "same_opt None y \<longleftrightarrow> y = None"
  "same_opt x None \<longleftrightarrow> x = None"
  by (cases y; simp) (cases x; simp)

lemma same_opt_refl [simp, intro]: "same_opt x x"
  by (cases x) auto

lemma same_opt_sym: "same_opt x y \<Longrightarrow> same_opt y x"
  by (cases x; cases y) (auto intro: same_identity_sym)

lemma same_opt_commute: "same_opt x y = same_opt y x"
  by (blast intro: same_opt_sym)

lemma same_opt_trans: "same_opt x y \<Longrightarrow> same_opt y z \<Longrightarrow> same_opt x z"
  by (cases x; cases y; cases z) (auto intro: same_identity_trans)

text \<open>Two trees agree when they have the same paths with the same identities.\<close>

definition same_tree :: "(string \<Rightarrow> entry option) \<Rightarrow> (string \<Rightarrow> entry option) \<Rightarrow> bool" where
  "same_tree t u \<longleftrightarrow> (\<forall>q. same_opt (t q) (u q))"

lemma same_tree_refl [simp]: "same_tree t t"
  by (simp add: same_tree_def)

lemma same_tree_sym: "same_tree t u \<Longrightarrow> same_tree u t"
  by (simp add: same_tree_def same_opt_commute)

lemma same_tree_trans: "same_tree t u \<Longrightarrow> same_tree u v \<Longrightarrow> same_tree t v"
  unfolding same_tree_def by (blast intro: same_opt_trans)

end
