(* ===== verification/Reconcile.thy ===== *)
theory Reconcile
  imports Entries
begin

section \<open>Package reconcile: the three-way merge and rename detection\<close>

text \<open>
  \<open>internal/reconcile/reconcile.go\<close>, \<open>rename.go\<close> and \<open>timestamp.go\<close>. \<open>reconcile rng now b p s\<close>
  is \<open>Reconcile(baseline, primary, secondary)\<close>: \<open>rng\<close> is the order in which the four \<open>range\<close>
  loops of the rename detection visit their maps, \<open>now n\<close> the reading of the clock at the
  \<open>n\<close>-th conflict of the pass.
\<close>

datatype op_kind = OpMkdir | OpCopy | OpDelete | OpRmdir | OpRename | OpConflictRename

datatype side = SidePrimary | SideSecondary | SideNone

record op =
  o_kind :: op_kind
  o_dst :: side
  o_src :: side
  o_path :: string
  o_old :: string
  o_type :: entry_type

record result =
  r_ops :: "op list"
  r_base :: tree
  r_conflicts :: nat

definition empty_result :: result where
  "empty_result = \<lparr>r_ops = [], r_base = [], r_conflicts = 0\<rparr>"

definition add_op :: "op \<Rightarrow> result \<Rightarrow> result" where
  "add_op x r = r\<lparr>r_ops := r_ops r @ [x]\<rparr>"

definition set_base :: "string \<Rightarrow> entry \<Rightarrow> result \<Rightarrow> result" where
  "set_base q e r = r\<lparr>r_base := AList.update q e (r_base r)\<rparr>"

definition del_kind :: "entry_type \<Rightarrow> op_kind" where
  "del_kind t = (if t = TypeDir then OpRmdir else OpDelete)"

definition mk_op :: "op_kind \<Rightarrow> side \<Rightarrow> side \<Rightarrow> string \<Rightarrow> string \<Rightarrow> entry_type \<Rightarrow> op" where
  "mk_op k d s q old t = \<lparr>o_kind = k, o_dst = d, o_src = s, o_path = q, o_old = old, o_type = t\<rparr>"

lemma mk_op_sel [simp]:
  "o_kind (mk_op k d s q old t) = k" "o_dst (mk_op k d s q old t) = d"
  "o_src (mk_op k d s q old t) = s" "o_path (mk_op k d s q old t) = q"
  "o_old (mk_op k d s q old t) = old" "o_type (mk_op k d s q old t) = t"
  by (simp_all add: mk_op_def)

definition add_create :: "side \<Rightarrow> side \<Rightarrow> string \<Rightarrow> entry \<Rightarrow> result \<Rightarrow> result" where
  "add_create d s q e r =
     set_base q e
       (add_op (if e_type e = TypeDir then mk_op OpMkdir d s q [] TypeDir
                else mk_op OpCopy d s q [] (e_type e)) r)"

definition conflict_path :: "string \<Rightarrow> string \<Rightarrow> string" where
  "conflict_path q stamp = q @ ''_conflict_'' @ stamp"

definition conflict :: "(nat \<Rightarrow> string) \<Rightarrow> string \<Rightarrow> entry \<Rightarrow> entry \<Rightarrow> result \<Rightarrow> result" where
  "conflict now q pe se r =
     (let cn = conflict_path q (now (r_conflicts r));
          r1 = r\<lparr>r_conflicts := Suc (r_conflicts r)\<rparr>;
          r2 = add_op (mk_op OpConflictRename SideSecondary SideNone cn q (e_type se)) r1;
          r3 = add_op (mk_op OpCopy SidePrimary SideSecondary cn [] (e_type se)) r2;
          r4 = add_op (mk_op OpCopy SideSecondary SidePrimary q [] (e_type pe)) r3
      in set_base cn se (set_base q pe r4))"

definition conflict_delete :: "(nat \<Rightarrow> string) \<Rightarrow> side \<Rightarrow> string \<Rightarrow> entry \<Rightarrow> result \<Rightarrow> result" where
  "conflict_delete now loser q e r =
     (let cn = conflict_path q (now (r_conflicts r));
          r1 = r\<lparr>r_conflicts := Suc (r_conflicts r)\<rparr>;
          other = (if loser = SidePrimary then SideSecondary else SidePrimary);
          r2 = add_op (mk_op OpConflictRename loser SideNone cn q (e_type e)) r1;
          r3 = add_op (mk_op OpCopy other loser cn [] (e_type e)) r2
      in set_base cn e r3)"

subsection \<open>Rename detection\<close>

definition deleted_by_key ::
  "tree \<Rightarrow> tree \<Rightarrow> (u64 \<times> u64, string) amap" where
  "deleted_by_key bs nt =
     fold (\<lambda>(q, e) m.
        if e_type e \<noteq> TypeFile then m
        else if map_of nt q \<noteq> None then m
        else if e_dev e = 0 \<and> e_ino e = 0 then m
        else AList.update (e_dev e, e_ino e) q m) bs []"

definition rename_step ::
  "tree \<Rightarrow> (u64 \<times> u64, string) amap \<Rightarrow> side \<Rightarrow> tree \<Rightarrow> string \<times> entry \<Rightarrow>
   result \<times> string list \<Rightarrow> result \<times> string list" where
  "rename_step base dk d other ne st =
     (case (ne, st) of ((np, e), (r, consumed)) \<Rightarrow>
        if e_type e \<noteq> TypeFile then st
        else if map_of base np \<noteq> None then st
        else if e_dev e = 0 \<and> e_ino e = 0 then st
        else case map_of dk (e_dev e, e_ino e) of
          None \<Rightarrow> st
        | Some old \<Rightarrow>
            (case map_of base old of
               None \<Rightarrow> st
             | Some oe \<Rightarrow>
                 if e_size oe \<noteq> e_size e then st
                 else case map_of other old of
                   None \<Rightarrow> st
                 | Some oo \<Rightarrow>
                     if map_of other np \<noteq> None \<or> \<not> same_identity oe oo then st
                     else (set_base np e (add_op (mk_op OpRename d SideNone np old TypeFile) r),
                           np # old # consumed)))"

definition apply_side_rename ::
  "tree \<Rightarrow> tree \<Rightarrow> tree \<Rightarrow> tree \<Rightarrow> side \<Rightarrow> tree \<Rightarrow> result \<times> string list \<Rightarrow> result \<times> string list" where
  "apply_side_rename base base_it nt nt_it d other st =
     (let dk = deleted_by_key base_it nt
      in if dk = [] then st else fold (rename_step base dk d other) nt_it st)"

definition detect_renames ::
  "(nat \<Rightarrow> tree \<Rightarrow> tree) \<Rightarrow> tree \<Rightarrow> tree \<Rightarrow> tree \<Rightarrow> result \<Rightarrow> result \<times> string list" where
  "detect_renames rng b p s r =
     apply_side_rename b (rng 2 b) s (rng 3 s) SidePrimary p
       (apply_side_rename b (rng 0 b) p (rng 1 p) SideSecondary s (r, []))"

subsection \<open>The three-way merge\<close>

definition reconcile_path ::
  "(nat \<Rightarrow> string) \<Rightarrow> tree \<Rightarrow> tree \<Rightarrow> tree \<Rightarrow> string \<Rightarrow> result \<Rightarrow> result" where
  "reconcile_path now base prim sec q r =
     (case (map_of base q, map_of prim q, map_of sec q) of
        (None, Some pr, None) \<Rightarrow> add_create SideSecondary SidePrimary q pr r
      | (None, None, Some se) \<Rightarrow> add_create SidePrimary SideSecondary q se r
      | (None, Some pr, Some se) \<Rightarrow>
          (if same_identity pr se then set_base q pr r else conflict now q pr se r)
      | (Some b, None, None) \<Rightarrow> r
      | (Some b, None, Some se) \<Rightarrow>
          (if same_identity b se
           then add_op (mk_op (del_kind (e_type se)) SideSecondary SideNone q [] (e_type se)) r
           else conflict_delete now SideSecondary q se r)
      | (Some b, Some pr, None) \<Rightarrow>
          (if same_identity b pr
           then add_op (mk_op (del_kind (e_type pr)) SidePrimary SideNone q [] (e_type pr)) r
           else conflict_delete now SidePrimary q pr r)
      | (Some b, Some pr, Some se) \<Rightarrow>
          (let bp = same_identity b pr; bs = same_identity b se
           in if bp \<and> bs then set_base q b r
              else if bp \<and> \<not> bs then add_create SidePrimary SideSecondary q se r
              else if \<not> bp \<and> bs then add_create SideSecondary SidePrimary q pr r
              else if same_identity pr se then set_base q pr r
              else conflict now q pr se r)
      | (None, None, None) \<Rightarrow> r)"

definition all_paths :: "tree \<Rightarrow> tree \<Rightarrow> tree \<Rightarrow> string list" where
  "all_paths b p s = remdups (keys b @ keys p @ keys s)"

definition merge_paths :: "tree \<Rightarrow> tree \<Rightarrow> tree \<Rightarrow> string list \<Rightarrow> string list" where
  "merge_paths b p s renamed = sort (filter (\<lambda>q. q \<notin> set renamed) (all_paths b p s))"

definition reconcile ::
  "(nat \<Rightarrow> tree \<Rightarrow> tree) \<Rightarrow> (nat \<Rightarrow> string) \<Rightarrow> tree \<Rightarrow> tree \<Rightarrow> tree \<Rightarrow> result" where
  "reconcile rng now b p s =
     (case detect_renames rng b p s empty_result of
        (r, renamed) \<Rightarrow> fold (reconcile_path now b p s) (merge_paths b p s renamed) r)"

end
