(* ===== verification/Merge.thy ===== *)
theory Merge
  imports Reconcile
begin

section \<open>The merge, path by path\<close>

text \<open>
  The contract of package \<open>reconcile\<close>, stated on whole passes. First the pass is taken apart into
  blocks: one block per detected rename and one per remaining path, each with the operations and
  the baseline entries that path contributes. Then the operations are given their meaning on two
  flat trees, and blocks that touch different paths are shown not to interfere.
\<close>

subsection \<open>What one path contributes\<close>

definition path_clash :: "tree \<Rightarrow> tree \<Rightarrow> tree \<Rightarrow> string \<Rightarrow> bool" where
  "path_clash base prim sec q =
     (case (map_of base q, map_of prim q, map_of sec q) of
        (None, Some pr, Some se) \<Rightarrow> \<not> same_identity pr se
      | (Some b, None, Some se) \<Rightarrow> \<not> same_identity b se
      | (Some b, Some pr, None) \<Rightarrow> \<not> same_identity b pr
      | (Some b, Some pr, Some se) \<Rightarrow>
          \<not> same_identity b pr \<and> \<not> same_identity b se \<and> \<not> same_identity pr se
      | _ \<Rightarrow> False)"

definition path_result :: "string \<Rightarrow> tree \<Rightarrow> tree \<Rightarrow> tree \<Rightarrow> string \<Rightarrow> result" where
  "path_result t base prim sec q = reconcile_path (\<lambda>_. t) base prim sec q empty_result"

lemma update_Nil: "AList.update k v [] = [(k, v)]"
  by simp

lemma conflict_path_neq [simp]:
  "conflict_path q t \<noteq> q" "q \<noteq> conflict_path q t"
  by (simp_all add: conflict_path_def)

definition upd_all :: "tree \<Rightarrow> tree \<Rightarrow> tree" where
  "upd_all us m = fold (\<lambda>(k, e). AList.update k e) us m"

lemma upd_all_simps [simp]:
  "upd_all [] m = m" "upd_all ((k, e) # us) m = upd_all us (AList.update k e m)"
  "upd_all (us @ vs) m = upd_all vs (upd_all us m)"
  by (simp_all add: upd_all_def)

lemmas result_defs = add_create_def set_base_def add_op_def conflict_def conflict_delete_def
  Let_def empty_result_def

lemma reconcile_path_split:
  "reconcile_path now b p s q r =
     \<lparr>r_ops = r_ops r @ r_ops (path_result (now (r_conflicts r)) b p s q),
      r_base = upd_all (r_base (path_result (now (r_conflicts r)) b p s q)) (r_base r),
      r_conflicts = r_conflicts r + (if path_clash b p s q then 1 else 0)\<rparr>"
  by (cases "map_of b q"; cases "map_of p q"; cases "map_of s q")
    (simp_all add: reconcile_path_def path_result_def path_clash_def result_defs)

fun stamped ::
  "(nat \<Rightarrow> string) \<Rightarrow> tree \<Rightarrow> tree \<Rightarrow> tree \<Rightarrow> nat \<Rightarrow> string list \<Rightarrow> (string \<times> string) list" where
  "stamped now b p s n [] = []"
| "stamped now b p s n (q # qs) =
     (q, now n) # stamped now b p s (n + (if path_clash b p s q then 1 else 0)) qs"

lemma stamped_fst [simp]: "map fst (stamped now b p s n qs) = qs"
  by (induction qs arbitrary: n) auto

lemma stamped_range: "(q, t) \<in> set (stamped now b p s n qs) \<Longrightarrow> \<exists>k. t = now k"
  by (induction qs arbitrary: n) auto

definition path_res :: "tree \<Rightarrow> tree \<Rightarrow> tree \<Rightarrow> string \<times> string \<Rightarrow> result" where
  "path_res b p s = (\<lambda>(q, t). path_result t b p s q)"

lemma fold_reconcile_path:
  "fold (reconcile_path now b p s) qs r =
     \<lparr>r_ops = r_ops r @ concat (map (r_ops \<circ> path_res b p s) (stamped now b p s (r_conflicts r) qs)),
      r_base = upd_all (concat (map (r_base \<circ> path_res b p s)
                  (stamped now b p s (r_conflicts r) qs))) (r_base r),
      r_conflicts = r_conflicts r + length (filter (path_clash b p s) qs)\<rparr>"
proof (induction qs arbitrary: r)
  case Nil
  then show ?case by simp
next
  case (Cons q qs)
  show ?case
    by (simp add: Cons.IH reconcile_path_split [of now b p s q r] path_res_def)
qed

subsection \<open>What the rename detection contributes\<close>

text \<open>Whether a path counts as renamed does not depend on what was found before it.\<close>

definition rename_hit ::
  "tree \<Rightarrow> (u64 \<times> u64, string) amap \<Rightarrow> tree \<Rightarrow> string \<times> entry \<Rightarrow> string option" where
  "rename_hit base dk other ne =
     (case ne of (np, e) \<Rightarrow>
        if e_type e \<noteq> TypeFile \<or> map_of base np \<noteq> None \<or> (e_dev e = 0 \<and> e_ino e = 0) then None
        else case map_of dk (e_dev e, e_ino e) of
          None \<Rightarrow> None
        | Some old \<Rightarrow>
            (case (map_of base old, map_of other old) of
               (Some oe, Some oo) \<Rightarrow>
                 if e_size oe = e_size e \<and> map_of other np = None \<and> same_identity oe oo
                 then Some old else None
             | _ \<Rightarrow> None))"

type_synonym rename_rec = "side \<times> string \<times> string \<times> entry"

definition rename_recs ::
  "tree \<Rightarrow> (u64 \<times> u64, string) amap \<Rightarrow> side \<Rightarrow> tree \<Rightarrow> tree \<Rightarrow> rename_rec list" where
  "rename_recs base dk d other nt_it =
     concat (map (\<lambda>ne. case rename_hit base dk other ne of
                    None \<Rightarrow> [] | Some old \<Rightarrow> [(d, old, fst ne, snd ne)]) nt_it)"

definition rec_op :: "rename_rec \<Rightarrow> op" where
  "rec_op = (\<lambda>(d, old, np, e). mk_op OpRename d SideNone np old TypeFile)"

definition rec_base :: "rename_rec \<Rightarrow> string \<times> entry" where
  "rec_base = (\<lambda>(d, old, np, e). (np, e))"

definition rec_keys :: "rename_rec \<Rightarrow> string list" where
  "rec_keys = (\<lambda>(d, old, np, e). [np, old])"

definition add_recs :: "rename_rec list \<Rightarrow> result \<times> string list \<Rightarrow> result \<times> string list" where
  "add_recs rs st =
     (case st of (r, c) \<Rightarrow>
        (r\<lparr>r_ops := r_ops r @ map rec_op rs, r_base := upd_all (map rec_base rs) (r_base r)\<rparr>,
         concat (map rec_keys (rev rs)) @ c))"

lemma add_recs_Nil [simp]: "add_recs [] st = st"
  by (simp add: add_recs_def split: prod.splits)

lemma add_recs_append: "add_recs (xs @ ys) st = add_recs ys (add_recs xs st)"
  by (simp add: add_recs_def split: prod.splits)

lemma rename_step_rec:
  "rename_step base dk d other ne st =
     (case rename_hit base dk other ne of
        None \<Rightarrow> st | Some old \<Rightarrow> add_recs [(d, old, fst ne, snd ne)] st)"
proof -
  obtain np e where ne: "ne = (np, e)" by (cases ne)
  obtain r c where st: "st = (r, c)" by (cases st)
  show ?thesis
    unfolding ne st
    by (simp add: rename_step_def rename_hit_def add_recs_def rec_op_def rec_base_def rec_keys_def
        set_base_def add_op_def split: option.split)
qed

lemma fold_rename_step:
  "fold (rename_step base dk d other) nt_it st = add_recs (rename_recs base dk d other nt_it) st"
proof (induction nt_it arbitrary: st)
  case Nil
  then show ?case by (simp add: rename_recs_def)
next
  case (Cons ne nt_it)
  have "rename_recs base dk d other (ne # nt_it) =
      (case rename_hit base dk other ne of None \<Rightarrow> [] | Some old \<Rightarrow> [(d, old, fst ne, snd ne)]) @
      rename_recs base dk d other nt_it"
    by (simp add: rename_recs_def)
  then show ?case
    by (cases "rename_hit base dk other ne")
      (simp_all only: fold_Cons comp_apply Cons.IH rename_step_rec [of base dk d other ne] option.case
        add_recs_append append_Nil)
qed

definition side_recs ::
  "tree \<Rightarrow> tree \<Rightarrow> tree \<Rightarrow> tree \<Rightarrow> side \<Rightarrow> tree \<Rightarrow> rename_rec list" where
  "side_recs base base_it nt nt_it d other =
     (let dk = deleted_by_key base_it nt
      in if dk = [] then [] else rename_recs base dk d other nt_it)"

lemma apply_side_rename_recs:
  "apply_side_rename base base_it nt nt_it d other st =
     add_recs (side_recs base base_it nt nt_it d other) st"
  by (simp add: apply_side_rename_def side_recs_def Let_def fold_rename_step)

definition all_recs :: "(nat \<Rightarrow> tree \<Rightarrow> tree) \<Rightarrow> tree \<Rightarrow> tree \<Rightarrow> tree \<Rightarrow> rename_rec list" where
  "all_recs rng b p s =
     side_recs b (rng 0 b) p (rng 1 p) SideSecondary s @
     side_recs b (rng 2 b) s (rng 3 s) SidePrimary p"

lemma detect_renames_recs:
  "detect_renames rng b p s r = add_recs (all_recs rng b p s) (r, [])"
  by (simp add: detect_renames_def apply_side_rename_recs all_recs_def add_recs_append)

definition renamed_paths :: "(nat \<Rightarrow> tree \<Rightarrow> tree) \<Rightarrow> tree \<Rightarrow> tree \<Rightarrow> tree \<Rightarrow> string list" where
  "renamed_paths rng b p s = snd (detect_renames rng b p s empty_result)"

lemma set_rec_keys:
  "set (concat (map rec_keys rs)) = {x. \<exists>(d, old, np, e) \<in> set rs. x = np \<or> x = old}"
  by (induction rs) (auto simp: rec_keys_def split: prod.splits)

lemma renamed_paths_recs:
  "set (renamed_paths rng b p s) =
     {x. \<exists>(d, old, np, e) \<in> set (all_recs rng b p s). x = np \<or> x = old}"
  using set_rec_keys [of "rev (all_recs rng b p s)"]
  by (simp add: renamed_paths_def detect_renames_recs add_recs_def)

text \<open>The whole pass, as one list of operations and one list of baseline entries.\<close>

definition pass_paths :: "(nat \<Rightarrow> tree \<Rightarrow> tree) \<Rightarrow> (nat \<Rightarrow> string) \<Rightarrow> tree \<Rightarrow> tree \<Rightarrow> tree \<Rightarrow>
    (string \<times> string) list" where
  "pass_paths rng now b p s =
     stamped now b p s 0 (merge_paths b p s (renamed_paths rng b p s))"

lemma reconcile_blocks:
  "r_ops (reconcile rng now b p s) =
     map rec_op (all_recs rng b p s) @
     concat (map (r_ops \<circ> path_res b p s) (pass_paths rng now b p s))"
  "r_base (reconcile rng now b p s) =
     upd_all (map rec_base (all_recs rng b p s) @
       concat (map (r_base \<circ> path_res b p s) (pass_paths rng now b p s))) []"
  "r_conflicts (reconcile rng now b p s) =
     length (filter (path_clash b p s) (merge_paths b p s (renamed_paths rng b p s)))"
  by (simp_all add: reconcile_def detect_renames_recs renamed_paths_def pass_paths_def
      fold_reconcile_path add_recs_def empty_result_def)

subsection \<open>Which paths a block touches\<close>

definition op_keys :: "op \<Rightarrow> string set" where
  "op_keys x = (if o_kind x = OpRename \<or> o_kind x = OpConflictRename then {o_path x, o_old x}
                else {o_path x})"

definition touched :: "tree \<Rightarrow> tree \<Rightarrow> tree \<Rightarrow> string \<times> string \<Rightarrow> string set" where
  "touched b p s = (\<lambda>(q, t). if path_clash b p s q then {q, conflict_path q t} else {q})"

lemma path_res_keys:
  "fst ` set (r_base (path_res b p s (q, t))) \<subseteq> touched b p s (q, t)"
  "x \<in> set (r_ops (path_res b p s (q, t))) \<Longrightarrow> op_keys x \<subseteq> touched b p s (q, t)"
  by (cases "map_of b q"; cases "map_of p q"; cases "map_of s q";
      auto simp: path_res_def path_result_def reconcile_path_def result_defs touched_def
        path_clash_def op_keys_def del_kind_def update_Nil split: if_splits)+

lemma conflict_path_inj:
  assumes "length t = length t'" and "conflict_path q t = conflict_path q' t'"
  shows "q = q'"
  using assms by (simp add: conflict_path_def)

text \<open>
  The names of conflict copies must not be taken. Go's layout \<open>2006.01.02_15.04.05\<close> always gives
  19 bytes, so two different paths never get the same name; that the name is not already a path of
  one of the trees is an assumption on the clock.
\<close>

definition stamps_fresh :: "(nat \<Rightarrow> string) \<Rightarrow> tree \<Rightarrow> tree \<Rightarrow> tree \<Rightarrow> bool" where
  "stamps_fresh now b p s \<longleftrightarrow>
     (\<forall>n. length (now n) = 19) \<and>
     (\<forall>q \<in> set (all_paths b p s). \<forall>n. conflict_path q (now n) \<notin> set (all_paths b p s))"

lemma set_merge_paths: "set (merge_paths b p s ren) = set (all_paths b p s) - set ren"
  by (auto simp: merge_paths_def)

lemma distinct_merge_paths: "distinct (merge_paths b p s ren)"
  by (simp add: merge_paths_def all_paths_def)

lemma pass_paths_member:
  assumes "(q, t) \<in> set (pass_paths rng now b p s)"
  shows "q \<in> set (all_paths b p s)" "q \<notin> set (renamed_paths rng b p s)" "\<exists>k. t = now k"
proof -
  have "q \<in> set (map fst (pass_paths rng now b p s))"
    using assms by (metis fst_conv image_eqI list.set_map)
  then show "q \<in> set (all_paths b p s)" "q \<notin> set (renamed_paths rng b p s)"
    by (simp_all add: pass_paths_def set_merge_paths)
  show "\<exists>k. t = now k" using assms stamped_range unfolding pass_paths_def by metis
qed

lemma pass_paths_unique:
  assumes "(q, t) \<in> set (pass_paths rng now b p s)" "(q, t') \<in> set (pass_paths rng now b p s)"
  shows "t = t'"
proof -
  have "distinct (map fst (pass_paths rng now b p s))"
    by (simp add: pass_paths_def distinct_merge_paths)
  then show ?thesis using assms by (meson eq_key_imp_eq_value)
qed

lemma pass_paths_exist:
  assumes "q \<in> set (all_paths b p s)" "q \<notin> set (renamed_paths rng b p s)"
  shows "\<exists>t. (q, t) \<in> set (pass_paths rng now b p s)"
proof -
  have "q \<in> set (map fst (pass_paths rng now b p s))"
    using assms by (simp add: pass_paths_def set_merge_paths)
  then show ?thesis by force
qed

lemma touched_fresh:
  assumes "stamps_fresh now b p s" and "(q, t) \<in> set (pass_paths rng now b p s)"
    and "k \<in> touched b p s (q, t)" and "k \<in> set (all_paths b p s)"
  shows "k = q"
  using assms pass_paths_member [OF assms(2)]
  by (auto simp: touched_def stamps_fresh_def split: if_splits)

lemma touched_disjoint:
  assumes fr: "stamps_fresh now b p s"
    and x: "(q, t) \<in> set (pass_paths rng now b p s)"
    and y: "(q', t') \<in> set (pass_paths rng now b p s)"
    and k: "k \<in> touched b p s (q, t)" "k \<in> touched b p s (q', t')"
  shows "(q, t) = (q', t')"
proof -
  have "q = q'"
  proof (cases "k \<in> set (all_paths b p s)")
    case True
    then show ?thesis using touched_fresh [OF fr x k(1)] touched_fresh [OF fr y k(2)] by simp
  next
    case False
    then have "k = conflict_path q t" "k = conflict_path q' t'"
      using k pass_paths_member(1) [OF x] pass_paths_member(1) [OF y]
      by (auto simp: touched_def split: if_splits)
    moreover have "length t = length t'"
      using pass_paths_member(3) [OF x] pass_paths_member(3) [OF y] fr
      by (auto simp: stamps_fresh_def)
    ultimately show ?thesis using conflict_path_inj by metis
  qed
  then show ?thesis using x y pass_paths_unique by fastforce
qed

subsection \<open>Looking up the new baseline\<close>

lemma map_of_upd_all:
  "map_of (upd_all us m) k = (case map_of (rev us) k of None \<Rightarrow> map_of m k | Some e \<Rightarrow> Some e)"
proof (induction us arbitrary: m)
  case Nil
  then show ?case by simp
next
  case (Cons u us)
  then show ?case
    by (cases u) (auto simp: map_of_update map_add_def split: option.splits)
qed

lemma map_of_rev_concat:
  assumes "x \<in> set xs" and "\<And>y. y \<in> set xs \<Longrightarrow> y \<noteq> x \<Longrightarrow> k \<notin> fst ` set (f y)"
  shows "map_of (rev (concat (map f xs))) k = map_of (rev (f x)) k"
  using assms
proof (induction xs)
  case Nil
  then show ?case by simp
next
  case (Cons a xs)
  have no: "map_of (rev (f a)) k = None" if "a \<noteq> x"
    using Cons.prems(2) [of a] that by (simp add: map_of_eq_None_iff)
  show ?case
  proof (cases "x \<in> set xs")
    case True
    then have "map_of (rev (concat (map f xs))) k = map_of (rev (f x)) k"
      using Cons by simp
    with no show ?thesis
      by (cases "a = x") (auto simp: map_add_def split: option.splits)
  next
    case False
    then have "map_of (rev (concat (map f xs))) k = None"
      using Cons.prems(2) by (fastforce simp: map_of_eq_None_iff)
    with False Cons.prems(1) show ?thesis
      by (auto simp: map_add_def split: option.splits)
  qed
qed

lemma recs_paths:
  assumes "(d, old, np, e) \<in> set (all_recs rng b p s)"
  shows "np \<in> set (renamed_paths rng b p s)" "old \<in> set (renamed_paths rng b p s)"
  unfolding renamed_paths_recs by (auto intro!: bexI [OF _ assms])

end
