(* ===== verification/Converge.thy ===== *)
theory Converge
  imports Merge
begin

section \<open>What a reconcile pass achieves\<close>

text \<open>
  The specification of the three-way merge (\<open>merge3\<close>), the meaning of the operations on two flat
  trees (\<open>flat_op\<close>), and the proofs that a pass computes the one and that running its operations
  leaves both sides with the new baseline.
\<close>

subsection \<open>Specification: merging one path\<close>

datatype verdict = Settle "entry option" | Clash

definition merge3 :: "entry option \<Rightarrow> entry option \<Rightarrow> entry option \<Rightarrow> verdict" where
  "merge3 b p s =
     (if same_opt p b then Settle s
      else if same_opt s b then Settle p
      else if same_opt p s then Settle p
      else Clash)"

text \<open>At a clash the primary's version stays where it is if both sides have one; the other is kept aside.\<close>

definition clash_winner :: "entry option \<Rightarrow> entry option \<Rightarrow> entry option" where
  "clash_winner p s = (if p \<noteq> None \<and> s \<noteq> None then p else None)"

definition clash_loser :: "entry option \<Rightarrow> entry option \<Rightarrow> entry option" where
  "clash_loser p s = (if s \<noteq> None then s else p)"

lemma path_clash_merge3:
  "path_clash b p s q \<longleftrightarrow> merge3 (map_of b q) (map_of p q) (map_of s q) = Clash"
  by (cases "map_of b q"; cases "map_of p q"; cases "map_of s q")
    (auto simp: path_clash_def merge3_def same_identity_commute)

lemma path_res_settle:
  assumes "merge3 (map_of b q) (map_of p q) (map_of s q) = Settle v"
  shows "same_opt (map_of (rev (r_base (path_res b p s (q, t)))) q) v"
proof -
  have "same_opt (map_of (rev (r_base (path_res b p s (q, t)))) q) v"
    if "map_of b q = bo" "map_of p q = po" "map_of s q = so" "merge3 bo po so = Settle v"
    for bo po so
    using that
    by (cases bo; cases po; cases so)
      (auto simp: path_res_def path_result_def reconcile_path_def merge3_def result_defs
        same_identity_commute eq_commute [of "Some _" "map_of _ _"] split: if_splits)
  then show ?thesis using assms by blast
qed

lemma path_res_clash:
  assumes "merge3 (map_of b q) (map_of p q) (map_of s q) = Clash"
  shows "map_of (rev (r_base (path_res b p s (q, t)))) q = clash_winner (map_of p q) (map_of s q)"
    and "map_of (rev (r_base (path_res b p s (q, t)))) (conflict_path q t) =
           clash_loser (map_of p q) (map_of s q)"
  using assms
  by (cases "map_of b q"; cases "map_of p q"; cases "map_of s q";
      auto simp: path_res_def path_result_def reconcile_path_def merge3_def result_defs
        clash_winner_def clash_loser_def same_identity_commute split: if_splits)+

subsection \<open>Lookups in the new baseline\<close>

lemma rec_base_keys: "fst (rec_base x) = fst (snd (snd x))"
  by (cases x) (simp add: rec_base_def)

lemma rec_base_in_renamed:
  assumes "x \<in> set (all_recs rng b p s)"
  shows "fst (rec_base x) \<in> set (renamed_paths rng b p s)"
proof -
  obtain d old np e where x: "x = (d, old, np, e)" by (cases x)
  show ?thesis using recs_paths(1) [OF assms [unfolded x]] by (simp add: x rec_base_def)
qed

lemma map_of_concat_None: "(\<And>x. x \<in> set xs \<Longrightarrow> k \<notin> fst ` set (f x)) \<Longrightarrow>
    map_of (rev (concat (map f xs))) k = None"
  by (fastforce simp: map_of_eq_None_iff)

lemma renamed_in_all:
  assumes ro: "range_order rng" and k: "k \<in> set (renamed_paths rng b p s)"
  shows "k \<in> set (all_paths b p s)"
proof -
  have hit: "np \<in> fst ` set nt \<and> old \<in> fst ` set b"
    if "(d, old, np, e) \<in> set (side_recs b b' nt nt' d' other)" "set nt' = set nt"
    for d old np e b' nt nt' d' other
  proof -
    from that obtain ne where "ne \<in> set nt" "rename_hit b (deleted_by_key b' nt) other ne = Some old"
      "np = fst ne"
      by (auto simp: side_recs_def rename_recs_def Let_def split: if_splits option.splits)
    then show ?thesis
      by (auto simp: rename_hit_def split: prod.splits if_splits option.splits
          dest!: map_of_SomeD intro: rev_image_eqI)
  qed
  from k obtain d old np e where r: "(d, old, np, e) \<in> set (all_recs rng b p s)"
    and "k = np \<or> k = old"
    by (auto simp: renamed_paths_recs)
  moreover have "np \<in> set (all_paths b p s) \<and> old \<in> set (all_paths b p s)"
    using r hit range_order_set [OF ro] unfolding all_recs_def all_paths_def keys_def
    by (fastforce simp del: set_append simp: set_append)
  ultimately show ?thesis by auto
qed

lemma base_lookup_path:
  assumes ro: "range_order rng" and fr: "stamps_fresh now b p s"
    and m: "(q, t) \<in> set (pass_paths rng now b p s)" and k: "k \<in> touched b p s (q, t)"
  shows "map_of (r_base (reconcile rng now b p s)) k = map_of (rev (r_base (path_res b p s (q, t)))) k"
proof -
  let ?f = "r_base \<circ> path_res b p s"
  have "map_of (rev (concat (map ?f (pass_paths rng now b p s)))) k = map_of (rev (?f (q, t))) k"
  proof (rule map_of_rev_concat [OF m])
    fix y assume y: "y \<in> set (pass_paths rng now b p s)" "y \<noteq> (q, t)"
    obtain q' t' where [simp]: "y = (q', t')" by (cases y)
    have "k \<notin> touched b p s (q', t')"
      using touched_disjoint [OF fr m _ k, of q' t'] y by auto
    then show "k \<notin> fst ` set (?f y)" using path_res_keys(1) [of b p s q' t'] by auto
  qed
  moreover have "map_of (rev (map rec_base (all_recs rng b p s))) k = None"
  proof -
    have "k \<notin> set (renamed_paths rng b p s)"
      using touched_fresh [OF fr m k] renamed_in_all [OF ro] pass_paths_member(2) [OF m] by blast
    then have "k \<notin> fst ` set (map rec_base (all_recs rng b p s))"
      using rec_base_in_renamed [of _ rng b p s] by auto
    then show ?thesis by (simp add: map_of_eq_None_iff)
  qed
  ultimately show ?thesis
    by (auto simp: reconcile_blocks(2) map_of_upd_all map_add_def split: option.splits)
qed

subsection \<open>What a detected rename means\<close>

lemma deleted_by_key_fold:
  assumes "map_of (fold (\<lambda>(q, e) m.
        if e_type e \<noteq> TypeFile then m
        else if map_of nt q \<noteq> None then m
        else if e_dev e = 0 \<and> e_ino e = 0 then m
        else AList.update (e_dev e, e_ino e) q m) bs m) k = Some old"
  shows "map_of m k = Some old \<or>
     (\<exists>e. (old, e) \<in> set bs \<and> e_type e = TypeFile \<and> map_of nt old = None \<and> (e_dev e, e_ino e) = k)"
  using assms
proof (induction bs arbitrary: m)
  case Nil
  then show ?case by simp
next
  case (Cons x bs)
  obtain q e where x: "x = (q, e)" by (cases x)
  let ?m = "if e_type e \<noteq> TypeFile then m
        else if map_of nt q \<noteq> None then m
        else if e_dev e = 0 \<and> e_ino e = 0 then m
        else AList.update (e_dev e, e_ino e) q m"
  have "map_of ?m k = Some old \<or>
     (\<exists>e. (old, e) \<in> set bs \<and> e_type e = TypeFile \<and> map_of nt old = None \<and> (e_dev e, e_ino e) = k)"
    using Cons.prems by (intro Cons.IH) (simp add: x)
  then show ?case
    by (auto simp: x map_of_update split: if_splits)
qed

lemma deleted_by_key_sound:
  assumes "map_of (deleted_by_key bs nt) k = Some old"
  shows "\<exists>e. (old, e) \<in> set bs \<and> e_type e = TypeFile \<and> map_of nt old = None \<and> (e_dev e, e_ino e) = k"
  using deleted_by_key_fold [of nt bs "[]" k old] assms by (simp add: deleted_by_key_def)

definition rename_ok :: "tree \<Rightarrow> tree \<Rightarrow> tree \<Rightarrow> string \<Rightarrow> string \<Rightarrow> entry \<Rightarrow> bool" where
  "rename_ok b nt other old np e \<longleftrightarrow>
     map_of nt np = Some e \<and> e_type e = TypeFile \<and> map_of b np = None \<and> map_of other np = None \<and>
     map_of nt old = None \<and> \<not> (e_dev e = 0 \<and> e_ino e = 0) \<and>
     (\<exists>oe oo. map_of b old = Some oe \<and> e_type oe = TypeFile \<and> map_of other old = Some oo \<and>
        same_identity oe oo \<and> e_size oe = e_size e \<and> e_dev oe = e_dev e \<and> e_ino oe = e_ino e)"

lemma side_recs_sound:
  assumes b: "set b' = set b" "amap_ok b" and n: "set nt' = set nt" "amap_ok nt"
    and r: "(d, old, np, e) \<in> set (side_recs b b' nt nt' d' other)"
  shows "d = d' \<and> rename_ok b nt other old np e"
proof -
  let ?dk = "deleted_by_key b' nt"
  from r obtain ne where ne: "ne \<in> set nt'" "rename_hit b ?dk other ne = Some old"
    "np = fst ne" "e = snd ne" "d = d'"
    by (auto simp: side_recs_def rename_recs_def Let_def split: if_splits option.splits)
  have np: "map_of nt np = Some e"
    using ne n amap_ok_member [OF n(2), of np e] by simp
  from ne(2-4) have h: "e_type e = TypeFile" "map_of b np = None" "\<not> (e_dev e = 0 \<and> e_ino e = 0)"
    "map_of ?dk (e_dev e, e_ino e) = Some old"
    and oo: "\<exists>oe oo. map_of b old = Some oe \<and> map_of other old = Some oo \<and>
        e_size oe = e_size e \<and> map_of other np = None \<and> same_identity oe oo"
    by (auto simp: rename_hit_def split: prod.splits if_splits option.splits)
  from deleted_by_key_sound [OF h(4)] obtain oe where
    "(old, oe) \<in> set b'" "e_type oe = TypeFile" "map_of nt old = None"
    "(e_dev oe, e_ino oe) = (e_dev e, e_ino e)" by blast
  moreover have "map_of b old = Some oe"
    using calculation(1) b amap_ok_member by metis
  ultimately show ?thesis using ne(5) np h oo by (auto simp: rename_ok_def)
qed

lemma all_recs_sound:
  assumes "range_order rng" "amap_ok b" "amap_ok p" "amap_ok s"
    and "(d, old, np, e) \<in> set (all_recs rng b p s)"
  shows "(d = SideSecondary \<and> rename_ok b p s old np e) \<or> (d = SidePrimary \<and> rename_ok b s p old np e)"
  using assms side_recs_sound range_order_set [OF assms(1)]
  unfolding all_recs_def by (metis Un_iff set_append)

lemma distinct_side_recs:
  assumes "distinct (map fst nt')"
  shows "distinct (map (\<lambda>(d, old, np, e). np) (side_recs b b' nt nt' d' other))"
proof -
  have "map (\<lambda>(d, old, np, e). np) (rename_recs b dk d' other xs) =
      map fst (filter (\<lambda>ne. rename_hit b dk other ne \<noteq> None) xs)" for xs dk
    by (induction xs) (auto simp: rename_recs_def split: option.splits)
  then show ?thesis using assms by (simp add: side_recs_def Let_def distinct_map_filter)
qed

text \<open>
  What the rename detection takes for granted: a file that shows up under a new path with the inode
  of a vanished one has not been written since, and no two new paths share an inode.
\<close>

definition inode_sound :: "tree \<Rightarrow> tree \<Rightarrow> bool" where
  "inode_sound b nt \<longleftrightarrow>
     (\<forall>(q, e) \<in> set b. \<forall>(q', e') \<in> set nt.
        map_of nt q = None \<and> map_of b q' = None \<and> e_type e = TypeFile \<and> e_type e' = TypeFile \<and>
        e_dev e = e_dev e' \<and> e_ino e = e_ino e' \<and> \<not> (e_dev e = 0 \<and> e_ino e = 0) \<longrightarrow>
        e_mtime e = e_mtime e') \<and>
     (\<forall>(q, e) \<in> set nt. \<forall>(q', e') \<in> set nt.
        map_of b q = None \<and> map_of b q' = None \<and> e_type e = TypeFile \<and> e_type e' = TypeFile \<and>
        e_dev e = e_dev e' \<and> e_ino e = e_ino e' \<and> \<not> (e_dev e = 0 \<and> e_ino e = 0) \<longrightarrow> q = q')"

lemma inode_sound_mtime:
  assumes "inode_sound b nt" and b: "map_of b q = Some e" and n: "map_of nt q' = Some e'"
    and h: "map_of nt q = None \<and> map_of b q' = None \<and> e_type e = TypeFile \<and> e_type e' = TypeFile \<and>
        e_dev e = e_dev e' \<and> e_ino e = e_ino e' \<and> \<not> (e_dev e = 0 \<and> e_ino e = 0)"
  shows "e_mtime e = e_mtime e'"
proof -
  note i = assms(1) [unfolded inode_sound_def, THEN conjunct1]
  show ?thesis
    using bspec [OF bspec [OF i map_of_SomeD [OF b], unfolded prod.case] map_of_SomeD [OF n]] h
    unfolding prod.case by (rule mp)
qed

lemma inode_sound_inj:
  assumes "inode_sound b nt" and b: "map_of nt q = Some e" and n: "map_of nt q' = Some e'"
    and h: "map_of b q = None \<and> map_of b q' = None \<and> e_type e = TypeFile \<and> e_type e' = TypeFile \<and>
        e_dev e = e_dev e' \<and> e_ino e = e_ino e' \<and> \<not> (e_dev e = 0 \<and> e_ino e = 0)"
  shows "q = q'"
proof -
  note i = assms(1) [unfolded inode_sound_def, THEN conjunct2]
  show ?thesis
    using bspec [OF bspec [OF i map_of_SomeD [OF b], unfolded prod.case] map_of_SomeD [OF n]] h
    unfolding prod.case by (rule mp)
qed

lemma rename_ok_mtime:
  assumes "rename_ok b nt other old np e" "inode_sound b nt"
  shows "\<exists>oo. map_of other old = Some oo \<and> same_identity oo e"
proof -
  from assms(1) obtain oe oo where r: "map_of nt np = Some e" "e_type e = TypeFile"
    "map_of b np = None" "map_of nt old = None" "\<not> (e_dev e = 0 \<and> e_ino e = 0)"
    "map_of b old = Some oe" "e_type oe = TypeFile" "map_of other old = Some oo"
    "same_identity oe oo" "e_size oe = e_size e" "e_dev oe = e_dev e" "e_ino oe = e_ino e"
    by (auto simp: rename_ok_def)
  have "e_mtime oe = e_mtime e"
    using r by (intro inode_sound_mtime [OF assms(2) r(6) r(1)]) simp
  then have "same_identity oe e" using r by (simp add: same_identity_def)
  then show ?thesis using r same_identity_sym same_identity_trans by blast
qed

lemma rename_ok_inj:
  assumes "rename_ok b nt other old np e" "rename_ok b nt other old np' e'" "inode_sound b nt"
  shows "np = np'"
proof -
  from assms(1) obtain oe where r: "map_of nt np = Some e" "e_type e = TypeFile"
    "map_of b np = None" "\<not> (e_dev e = 0 \<and> e_ino e = 0)"
    "map_of b old = Some oe" "e_dev oe = e_dev e" "e_ino oe = e_ino e"
    by (auto simp: rename_ok_def)
  from assms(2) r(5) have r': "map_of nt np' = Some e'" "e_type e' = TypeFile"
    "map_of b np' = None" "e_dev oe = e_dev e'" "e_ino oe = e_ino e'"
    by (auto simp: rename_ok_def)
  show ?thesis
    using r r' by (intro inode_sound_inj [OF assms(3) r(1) r'(1)]) simp
qed

end
