(* ===== verification/Flat.thy ===== *)
theory Flat
  imports Converge
begin

section \<open>Running the operations of a pass on two flat trees\<close>

text \<open>
  \<open>flat_op\<close> is what one operation is meant to do to the pair of trees, directories counting as
  plain entries. \<open>ordered_ops\<close> is the order in which \<open>applyOrdered\<close> of \<open>main.go\<close> runs a pass:
  everything that creates, then the deletes backwards. Operations on disjoint paths do not
  interfere, so the outcome can be read off block by block.
\<close>

type_synonym flat = "side \<Rightarrow> string \<Rightarrow> entry option"

definition flat_sides :: "tree \<Rightarrow> tree \<Rightarrow> flat" where
  "flat_sides p s =
     (\<lambda>d. case d of SidePrimary \<Rightarrow> map_of p | SideSecondary \<Rightarrow> map_of s | SideNone \<Rightarrow> (\<lambda>_. None))"

definition dir_entry :: "string \<Rightarrow> entry" where
  "dir_entry q = zero_entry\<lparr>e_path := q, e_type := TypeDir\<rparr>"

lemma dir_entry_same: "e_type a = TypeDir \<Longrightarrow> same_identity a (dir_entry q)"
  by (simp add: same_identity_def dir_entry_def)

definition flat_op :: "op \<Rightarrow> flat \<Rightarrow> flat" where
  "flat_op x f =
     (let d = o_dst x; q = o_path x; old = o_old x
      in case o_kind x of
        OpMkdir \<Rightarrow> f(d := (f d)(q := Some (dir_entry q)))
      | OpCopy \<Rightarrow> f(d := (f d)(q := f (o_src x) q))
      | OpDelete \<Rightarrow> f(d := (f d)(q := None))
      | OpRmdir \<Rightarrow> f(d := (f d)(q := None))
      | OpRename \<Rightarrow> f(d := (f d)(old := None, q := f d old))
      | OpConflictRename \<Rightarrow> f(d := (f d)(old := None, q := f d old)))"

definition is_del :: "op \<Rightarrow> bool" where
  "is_del x \<longleftrightarrow> o_kind x = OpDelete \<or> o_kind x = OpRmdir"

definition ordered_ops :: "op list \<Rightarrow> op list" where
  "ordered_ops xs = filter (\<lambda>x. \<not> is_del x) xs @ rev (filter is_del xs)"

definition flat_run :: "op list \<Rightarrow> flat \<Rightarrow> flat" where
  "flat_run xs f = fold flat_op xs f"

lemma set_ordered_ops [simp]: "set (ordered_ops xs) = set xs"
  by (auto simp: ordered_ops_def)

lemma filter_ordered_ops: "filter P (ordered_ops xs) = ordered_ops (filter P xs)"
  by (simp add: ordered_ops_def rev_filter filter_filter conj_commute flip: rev_filter)

subsection \<open>Locality\<close>

definition agree :: "string set \<Rightarrow> flat \<Rightarrow> flat \<Rightarrow> bool" where
  "agree K f g \<longleftrightarrow> (\<forall>d. \<forall>k \<in> K. f d k = g d k)"

lemma op_keys_path [simp]: "o_path x \<in> op_keys x" "op_keys x \<noteq> {}"
  by (auto simp: op_keys_def)

lemma flat_op_cong: "op_keys x \<subseteq> K \<Longrightarrow> agree K f g \<Longrightarrow> agree K (flat_op x f) (flat_op x g)"
  by (cases "o_kind x") (auto simp: flat_op_def agree_def op_keys_def Let_def)

lemma flat_op_frame: "op_keys x \<inter> K = {} \<Longrightarrow> agree K (flat_op x f) f"
  by (cases "o_kind x") (auto simp: flat_op_def agree_def op_keys_def Let_def)

lemma agree_refl [simp]: "agree K f f"
  by (simp add: agree_def)

lemma agree_trans: "agree K f g \<Longrightarrow> agree K g h \<Longrightarrow> agree K f h"
  by (simp add: agree_def)

lemma flat_run_local:
  assumes "\<forall>x \<in> set xs. op_keys x \<subseteq> K \<or> op_keys x \<inter> K = {}" and "agree K f g"
  shows "agree K (flat_run xs f) (flat_run (filter (\<lambda>x. op_keys x \<subseteq> K) xs) g)"
  using assms
proof (induction xs arbitrary: f g)
  case Nil
  then show ?case by (simp add: flat_run_def)
next
  case (Cons x xs)
  show ?case
  proof (cases "op_keys x \<subseteq> K")
    case True
    then show ?thesis
      using Cons.IH [of "flat_op x f" "flat_op x g"] Cons.prems flat_op_cong
      by (simp add: flat_run_def)
  next
    case False
    then have "agree K (flat_op x f) g"
      using Cons.prems flat_op_frame agree_trans by (metis list.set_intros(1))
    with False show ?thesis
      using Cons.IH [of "flat_op x f" g] Cons.prems by (simp add: flat_run_def)
  qed
qed

lemma filter_concat_block:
  assumes "distinct xs" "x \<in> set xs" "\<forall>y \<in> set (f x). P y"
    and "\<And>z y. z \<in> set xs \<Longrightarrow> z \<noteq> x \<Longrightarrow> y \<in> set (f z) \<Longrightarrow> \<not> P y"
  shows "filter P (concat (map f xs)) = f x"
  using assms
proof (induction xs)
  case Nil
  then show ?case by simp
next
  case (Cons a xs)
  show ?case
  proof (cases "a = x")
    case True
    then have "filter P (concat (map f xs)) = []"
      using Cons.prems(1,4) by (fastforce simp: filter_empty_conv)
    with True Cons.prems(3) show ?thesis by simp
  next
    case False
    then have "filter P (f a) = []"
      using Cons.prems(4) [of a] by (auto simp: filter_empty_conv)
    moreover have "filter P (concat (map f xs)) = f x"
      using Cons.prems False by (intro Cons.IH) auto
    ultimately show ?thesis by simp
  qed
qed

subsection \<open>The outcome of one block\<close>

lemma path_run_settle:
  assumes "merge3 (map_of b q) (map_of p q) (map_of s q) = Settle v"
  shows "same_opt (flat_run (ordered_ops (r_ops (path_res b p s (q, t)))) (flat_sides p s) SidePrimary q) v"
    and "same_opt (flat_run (ordered_ops (r_ops (path_res b p s (q, t)))) (flat_sides p s) SideSecondary q) v"
proof -
  let ?F = "flat_run (ordered_ops (r_ops (path_res b p s (q, t)))) (flat_sides p s)"
  have "same_opt (?F SidePrimary q) v \<and> same_opt (?F SideSecondary q) v"
    if "map_of b q = bo" "map_of p q = po" "map_of s q = so" "merge3 bo po so = Settle v"
    for bo po so
    using that
    by (cases bo; cases po; cases so)
      (auto simp: path_res_def path_result_def reconcile_path_def merge3_def result_defs
        flat_run_def ordered_ops_def is_del_def flat_op_def flat_sides_def del_kind_def
        same_identity_commute eq_commute [of "Some _" "map_of _ _"] split: if_splits
        intro: same_identity_via dir_entry_same)
  then show "same_opt (?F SidePrimary q) v" "same_opt (?F SideSecondary q) v"
    using assms by blast+
qed

lemma path_run_clash:
  assumes "merge3 (map_of b q) (map_of p q) (map_of s q) = Clash"
  shows "flat_run (ordered_ops (r_ops (path_res b p s (q, t)))) (flat_sides p s) d q =
      (if d = SideNone then None else clash_winner (map_of p q) (map_of s q))"
    and "d \<noteq> SideNone \<Longrightarrow>
      flat_run (ordered_ops (r_ops (path_res b p s (q, t)))) (flat_sides p s) d (conflict_path q t) =
        clash_loser (map_of p q) (map_of s q)"
  using assms
  by (cases "map_of b q"; cases "map_of p q"; cases "map_of s q"; cases d;
      auto simp: path_res_def path_result_def reconcile_path_def merge3_def result_defs
        flat_run_def ordered_ops_def is_del_def flat_op_def flat_sides_def
        clash_winner_def clash_loser_def same_identity_commute split: if_splits)+

lemma rename_run:
  assumes "rename_ok b nt other old np e" "inode_sound b nt"
  shows "same_opt (flat_run [rec_op (d, old, np, e)] f d np) (map_of nt np) \<longleftrightarrow>
      same_opt (f d old) (map_of nt np)"
    and "flat_run [rec_op (d, old, np, e)] f d old = None"
  using assms by (auto simp: flat_run_def rec_op_def flat_op_def rename_ok_def)

subsection \<open>The outcome of the whole pass\<close>

definition pass_ok :: "(nat \<Rightarrow> tree \<Rightarrow> tree) \<Rightarrow> (nat \<Rightarrow> string) \<Rightarrow> tree \<Rightarrow> tree \<Rightarrow> tree \<Rightarrow> bool" where
  "pass_ok rng now b p s \<longleftrightarrow>
     range_order rng \<and> amap_ok b \<and> amap_ok p \<and> amap_ok s \<and> inode_sound b p \<and> inode_sound b s \<and>
     stamps_fresh now b p s"

definition after_pass :: "(nat \<Rightarrow> tree \<Rightarrow> tree) \<Rightarrow> (nat \<Rightarrow> string) \<Rightarrow> tree \<Rightarrow> tree \<Rightarrow> tree \<Rightarrow> flat" where
  "after_pass rng now b p s =
     flat_run (ordered_ops (r_ops (reconcile rng now b p s))) (flat_sides p s)"

lemma op_keys_rec: "op_keys (rec_op (d, old, np, e)) = {np, old}"
  by (simp add: op_keys_def rec_op_def)

lemma rec_keys_in_all:
  assumes "range_order rng" "x \<in> set (all_recs rng b p s)"
  shows "op_keys (rec_op x) \<subseteq> set (renamed_paths rng b p s)"
    and "op_keys (rec_op x) \<subseteq> set (all_paths b p s)"
proof -
  obtain d old np e where x: "x = (d, old, np, e)" by (cases x)
  show "op_keys (rec_op x) \<subseteq> set (renamed_paths rng b p s)"
    using recs_paths [OF assms(2) [unfolded x]] by (simp add: x op_keys_rec)
  then show "op_keys (rec_op x) \<subseteq> set (all_paths b p s)"
    using renamed_in_all [OF assms(1)] by blast
qed

lemma touched_renamed:
  assumes "range_order rng" "stamps_fresh now b p s" "(q, t) \<in> set (pass_paths rng now b p s)"
    and "x \<in> set (all_recs rng b p s)"
  shows "op_keys (rec_op x) \<inter> touched b p s (q, t) = {}"
  using touched_fresh [OF assms(2,3)] rec_keys_in_all [OF assms(1,4)] pass_paths_member(2) [OF assms(3)]
  by blast

lemma path_ops_in_touched:
  "x \<in> set (r_ops (path_res b p s y)) \<Longrightarrow> op_keys x \<subseteq> touched b p s y"
  using path_res_keys(2) by (cases y) metis

lemma touched_disj:
  assumes "stamps_fresh now b p s" "y \<in> set (pass_paths rng now b p s)"
    "z \<in> set (pass_paths rng now b p s)" "y \<noteq> z"
  shows "touched b p s y \<inter> touched b p s z = {}"
proof -
  obtain q t q' t' where [simp]: "y = (q, t)" "z = (q', t')" by (cases y; cases z)
  show ?thesis using touched_disjoint [OF assms(1), of q t rng q' t'] assms by auto
qed

lemma distinct_pass_paths: "distinct (pass_paths rng now b p s)"
  using distinct_merge_paths by (metis distinct_map pass_paths_def stamped_fst)

lemma after_pass_path:
  assumes ro: "range_order rng" and fr: "stamps_fresh now b p s"
    and m: "(q, t) \<in> set (pass_paths rng now b p s)" and k: "k \<in> touched b p s (q, t)"
  shows "after_pass rng now b p s d k =
    flat_run (ordered_ops (r_ops (path_res b p s (q, t)))) (flat_sides p s) d k"
proof -
  let ?K = "touched b p s (q, t)" and ?recs = "map rec_op (all_recs rng b p s)"
  let ?f = "r_ops \<circ> path_res b p s" and ?P = "\<lambda>x. op_keys x \<subseteq> touched b p s (q, t)"
  let ?ops = "r_ops (reconcile rng now b p s)"
  have block: "op_keys x \<inter> ?K = {}"
    if "y \<in> set (pass_paths rng now b p s)" "y \<noteq> (q, t)" "x \<in> set (?f y)" for y x
    using touched_disj [OF fr that(1) m that(2)] path_ops_in_touched [of x b p s y] that(3) by auto
  have own: "\<forall>x \<in> set (?f (q, t)). ?P x"
    using path_ops_in_touched [of _ b p s "(q, t)"] by simp
  have cases: "op_keys x \<subseteq> ?K \<or> op_keys x \<inter> ?K = {}" if "x \<in> set ?ops" for x
    using that touched_renamed [OF ro fr m] block own unfolding reconcile_blocks(1) by fastforce
  have "\<not> ?P (rec_op x)" if "x \<in> set (all_recs rng b p s)" for x
    using touched_renamed [OF ro fr m that] op_keys_path(2) by blast
  then have "filter ?P ?recs = []"
    by (auto simp: filter_empty_conv)
  moreover have "filter ?P (concat (map ?f (pass_paths rng now b p s))) = ?f (q, t)"
  proof (rule filter_concat_block [where f = ?f and P = ?P, OF distinct_pass_paths m own])
    fix z y assume "z \<in> set (pass_paths rng now b p s)" "z \<noteq> (q, t)" "y \<in> set (?f z)"
    then show "\<not> ?P y" using block op_keys_path(2) by blast
  qed
  ultimately have "filter ?P ?ops = ?f (q, t)"
    by (simp add: reconcile_blocks(1))
  moreover have "agree ?K (flat_run (ordered_ops ?ops) (flat_sides p s))
      (flat_run (filter ?P (ordered_ops ?ops)) (flat_sides p s))"
    using cases by (intro flat_run_local) auto
  ultimately show ?thesis
    using k by (simp add: agree_def after_pass_def filter_ordered_ops)
qed

lemma distinct_range: "range_order rng \<Longrightarrow> amap_ok m \<Longrightarrow> distinct (map fst (rng n m))"
  unfolding range_order_def amap_ok_def by (metis mset_eq_imp_distinct_iff mset_map)

lemma side_recs_side: "(d, old, np, e) \<in> set (side_recs b b' nt nt' d' other) \<Longrightarrow> d = d'"
  by (auto simp: side_recs_def rename_recs_def Let_def split: if_splits option.splits)

lemma side_recs_same_np:
  assumes "range_order rng" "amap_ok nt"
    and "(d, old, np, e) \<in> set (side_recs b b' nt (rng n nt) d' other)"
    and "(d, old', np, e') \<in> set (side_recs b b' nt (rng n nt) d' other)"
  shows "(d, old, np, e) = (d, old', np, e')"
  using distinct_side_recs [OF distinct_range [OF assms(1,2), of n], of b b' nt d' other] assms(3,4)
  unfolding distinct_map inj_on_def by (fast dest: bspec)

lemma all_recs_same_np:
  assumes "pass_ok rng now b p s"
    and "(d, old, np, e) \<in> set (all_recs rng b p s)" "(d, old', np, e') \<in> set (all_recs rng b p s)"
  shows "old = old' \<and> e = e'"
proof -
  have r: "range_order rng" "amap_ok p" "amap_ok s" using assms(1) by (simp_all add: pass_ok_def)
  let ?A = "side_recs b (rng 0 b) p (rng 1 p) SideSecondary s"
  let ?B = "side_recs b (rng 2 b) s (rng 3 s) SidePrimary p"
  have A: "d = SideSecondary" if "(d, o', np, x) \<in> set ?A" for o' x using that by (rule side_recs_side)
  have B: "d = SidePrimary" if "(d, o', np, x) \<in> set ?B" for o' x using that by (rule side_recs_side)
  have "((d, old, np, e) \<in> set ?A \<and> (d, old', np, e') \<in> set ?A) \<or>
      ((d, old, np, e) \<in> set ?B \<and> (d, old', np, e') \<in> set ?B)"
    using assms(2,3) A B unfolding all_recs_def set_append Un_iff by (metis side.distinct(1))
  then show ?thesis
    using side_recs_same_np [OF r(1,2), of d old np e b "rng 0 b" 1 SideSecondary s old' e']
      side_recs_same_np [OF r(1,3), of d old np e b "rng 2 b" 3 SidePrimary p old' e'] by auto
qed

lemma all_recs_disjoint:
  assumes ok: "pass_ok rng now b p s"
    and x: "(d, old, np, e) \<in> set (all_recs rng b p s)"
    and y: "(d', old', np', e') \<in> set (all_recs rng b p s)"
    and meet: "{np, old} \<inter> {np', old'} \<noteq> {}"
  shows "(d, old, np, e) = (d', old', np', e')"
proof -
  have sx: "(d = SideSecondary \<and> rename_ok b p s old np e) \<or> (d = SidePrimary \<and> rename_ok b s p old np e)"
    and sy: "(d' = SideSecondary \<and> rename_ok b p s old' np' e') \<or>
      (d' = SidePrimary \<and> rename_ok b s p old' np' e')"
    using all_recs_sound x y ok unfolding pass_ok_def by blast+
  have cross: "\<not> (np = old' \<or> old = np')"
    using sx sy by (auto simp: rename_ok_def)
  have "d = d'"
    using sx sy meet cross by (auto simp: rename_ok_def)
  moreover have "np = np'"
    using sx sy meet cross calculation ok rename_ok_inj unfolding pass_ok_def
    by (metis Int_emptyI empty_iff insert_iff side.distinct(1))
  ultimately show ?thesis using all_recs_same_np [OF ok x] y by blast
qed

end
