(* ===== verification/Pass_Correct.thy ===== *)
theory Pass_Correct
  imports Flat
begin

section \<open>Correctness of a reconcile pass\<close>

text \<open>
  The properties of package \<open>reconcile\<close>: the new baseline is the three-way merge, running the
  operations brings both sides to it, a clash loses neither version, a settled pair of trees needs
  no operations, and a rename is only ever announced where it is safe.
\<close>

lemma after_pass_rec:
  assumes ok: "pass_ok rng now b p s" and x: "x \<in> set (all_recs rng b p s)"
    and k: "k \<in> op_keys (rec_op x)"
  shows "after_pass rng now b p s d k = flat_run [rec_op x] (flat_sides p s) d k"
proof -
  have ro: "range_order rng" and fr: "stamps_fresh now b p s" using ok by (simp_all add: pass_ok_def)
  let ?K = "op_keys (rec_op x)" and ?P = "\<lambda>y. op_keys y \<subseteq> op_keys (rec_op x)"
  let ?recs = "all_recs rng b p s" and ?pp = "pass_paths rng now b p s"
  let ?ops = "r_ops (reconcile rng now b p s)"
  have rec: "op_keys (rec_op y) \<inter> ?K = {}" if "y \<in> set ?recs" "y \<noteq> x" for y
  proof -
    obtain d old np e d' old' np' e' where [simp]: "x = (d, old, np, e)" "y = (d', old', np', e')"
      by (cases x; cases y)
    show ?thesis
      using all_recs_disjoint [OF ok, of d' old' np' e' d old np e] that x by (auto simp: op_keys_rec)
  qed
  have path: "op_keys z \<inter> ?K = {}" if "y \<in> set ?pp" "z \<in> set ((r_ops \<circ> path_res b p s) y)" for y z
    using touched_renamed [OF ro fr _ x] path_ops_in_touched [of z b p s y] that by (cases y) fastforce
  have cases: "op_keys z \<subseteq> ?K \<or> op_keys z \<inter> ?K = {}" if "z \<in> set ?ops" for z
    using that rec path unfolding reconcile_blocks(1) by fastforce
  have "distinct ?recs"
  proof -
    have "distinct (side_recs b b' nt (rng n nt) d' other)" if "amap_ok nt" for b' nt n d' other
      using distinct_side_recs [OF distinct_range [OF ro that]] by (rule distinct_map [THEN iffD1, THEN conjunct1])
    moreover have "set (side_recs b (rng 0 b) p (rng 1 p) SideSecondary s) \<inter>
        set (side_recs b (rng 2 b) s (rng 3 s) SidePrimary p) = {}"
      by (auto dest!: side_recs_side)
    ultimately show ?thesis using ok by (simp add: all_recs_def pass_ok_def)
  qed
  then have "filter ?P (concat (map (\<lambda>y. [rec_op y]) ?recs)) = [rec_op x]"
    using rec op_keys_path(2)
    by (intro filter_concat_block [where f = "\<lambda>y. [rec_op y]" and P = ?P, OF _ x]) fastforce+
  moreover have "filter ?P (concat (map (r_ops \<circ> path_res b p s) ?pp)) = []"
  proof -
    have "\<not> ?P z" if "z \<in> set (concat (map (r_ops \<circ> path_res b p s) ?pp))" for z
      using path that op_keys_path(2) by fastforce
    then show ?thesis by (auto simp: filter_empty_conv)
  qed
  moreover have "concat (map (\<lambda>y. [rec_op y]) ?recs) = map rec_op ?recs"
    by (induction ?recs) auto
  ultimately have f: "filter ?P ?ops = [rec_op x]"
    by (simp add: reconcile_blocks(1))
  have "ordered_ops [rec_op x] = [rec_op x]"
    by (cases x) (simp add: ordered_ops_def is_del_def rec_op_def)
  moreover have "agree ?K (flat_run (ordered_ops ?ops) (flat_sides p s))
      (flat_run (filter ?P (ordered_ops ?ops)) (flat_sides p s))"
    using cases by (intro flat_run_local) auto
  ultimately show ?thesis
    using k f by (simp add: agree_def after_pass_def filter_ordered_ops)
qed

lemma base_lookup_rec:
  assumes ok: "pass_ok rng now b p s" and x: "(d, old, np, e) \<in> set (all_recs rng b p s)"
  shows "map_of (r_base (reconcile rng now b p s)) np = Some e"
    and "map_of (r_base (reconcile rng now b p s)) old = None"
proof -
  have ro: "range_order rng" and fr: "stamps_fresh now b p s" using ok by (simp_all add: pass_ok_def)
  let ?recs = "all_recs rng b p s" and ?f = "\<lambda>y. [rec_base y]"
  have path: "map_of (rev (concat (map (r_base \<circ> path_res b p s) (pass_paths rng now b p s)))) k = None"
    if "k \<in> {np, old}" for k
  proof (rule map_of_concat_None)
    fix y assume y: "y \<in> set (pass_paths rng now b p s)"
    obtain q t where [simp]: "y = (q, t)" by (cases y)
    show "k \<notin> fst ` set ((r_base \<circ> path_res b p s) y)"
      using touched_renamed [OF ro fr _ x, of q t] y that path_res_keys(1) [of b p s q t]
      by (auto simp: op_keys_rec)
  qed
  have "map_of (rev (concat (map ?f ?recs))) np = map_of (rev (?f (d, old, np, e))) np"
  proof (rule map_of_rev_concat [where f = ?f, OF x])
    fix y assume y: "y \<in> set ?recs" "y \<noteq> (d, old, np, e)"
    obtain d' old' np' e' where [simp]: "y = (d', old', np', e')" by (cases y)
    show "np \<notin> fst ` set (?f y)"
      using all_recs_disjoint [OF ok, of d' old' np' e' d old np e] y x by (auto simp: rec_base_def)
  qed
  moreover have c: "concat (map ?f ?recs) = map rec_base ?recs"
    by (induction ?recs) auto
  ultimately show "map_of (r_base (reconcile rng now b p s)) np = Some e"
    using path [of np] by (simp add: reconcile_blocks(2) map_of_upd_all map_add_def rec_base_def)
  have "old \<notin> fst ` set (map rec_base ?recs)"
  proof
    assume "old \<in> fst ` set (map rec_base ?recs)"
    then obtain d' old' e' where y: "(d', old', old, e') \<in> set ?recs"
      by (force simp: rec_base_def)
    have "(d, old, np, e) = (d', old', old, e')"
      using all_recs_disjoint [OF ok x y] by simp
    then show False
      using all_recs_sound [OF ro _ _ _ x] ok by (auto simp: pass_ok_def rename_ok_def)
  qed
  then have "map_of (rev (map rec_base ?recs)) old = None"
    by (simp add: map_of_eq_None_iff)
  then show "map_of (r_base (reconcile rng now b p s)) old = None"
    using path [of old] by (simp add: reconcile_blocks(2) map_of_upd_all map_add_def)
qed

lemma untouched_path:
  assumes ok: "pass_ok rng now b p s"
    and k: "k \<notin> set (all_paths b p s)" "\<forall>y \<in> set (pass_paths rng now b p s). k \<notin> touched b p s y"
  shows "after_pass rng now b p s d k = None" "map_of (r_base (reconcile rng now b p s)) k = None"
proof -
  have ro: "range_order rng" using ok by (simp add: pass_ok_def)
  have keys: "op_keys z \<inter> {k} = {}" if z: "z \<in> set (r_ops (reconcile rng now b p s))" for z
  proof -
    from z consider x where "x \<in> set (all_recs rng b p s)" "z = rec_op x"
      | y where "y \<in> set (pass_paths rng now b p s)" "z \<in> set (r_ops (path_res b p s y))"
      unfolding reconcile_blocks(1) by auto
    then show ?thesis
      using rec_keys_in_all(2) [OF ro] k path_ops_in_touched by cases blast+
  qed
  have "agree {k} (after_pass rng now b p s)
      (flat_run (filter (\<lambda>x. op_keys x \<subseteq> {k}) (ordered_ops (r_ops (reconcile rng now b p s))))
        (flat_sides p s))"
    unfolding after_pass_def by (rule flat_run_local) (use keys in simp_all)
  moreover have "\<not> op_keys z \<subseteq> {k}" if "z \<in> set (r_ops (reconcile rng now b p s))" for z
    using keys [OF that] op_keys_path(2) [of z] by blast
  then have "filter (\<lambda>x. op_keys x \<subseteq> {k}) (ordered_ops (r_ops (reconcile rng now b p s))) = []"
    by (auto simp: filter_empty_conv)
  ultimately have "after_pass rng now b p s d k = flat_sides p s d k"
    by (simp add: agree_def flat_run_def)
  also have "\<dots> = None"
    using k(1) by (cases d) (auto simp: flat_sides_def all_paths_def keys_def map_of_eq_None_iff)
  finally show "after_pass rng now b p s d k = None" .
  have "map_of (rev (map rec_base (all_recs rng b p s))) k = None"
    using rec_base_in_renamed [of _ rng b p s] renamed_in_all [OF ro] k(1)
    by (auto simp: map_of_eq_None_iff)
  moreover have "map_of (rev (concat (map (r_base \<circ> path_res b p s) (pass_paths rng now b p s)))) k = None"
  proof (rule map_of_concat_None)
    fix y assume y: "y \<in> set (pass_paths rng now b p s)"
    obtain q t where [simp]: "y = (q, t)" by (cases y)
    show "k \<notin> fst ` set ((r_base \<circ> path_res b p s) y)"
      using bspec [OF k(2) y] path_res_keys(1) [of b p s q t] by auto
  qed
  ultimately show "map_of (r_base (reconcile rng now b p s)) k = None"
    by (simp add: reconcile_blocks(2) map_of_upd_all map_add_def)
qed

lemma merged_path:
  assumes ro: "range_order rng" and fr: "stamps_fresh now b p s"
    and m: "(q, t) \<in> set (pass_paths rng now b p s)"
    and v: "merge3 (map_of b q) (map_of p q) (map_of s q) = Settle v"
  shows "same_opt (map_of (r_base (reconcile rng now b p s)) q) v"
    and "same_opt (after_pass rng now b p s SidePrimary q) v"
    and "same_opt (after_pass rng now b p s SideSecondary q) v"
  using base_lookup_path [OF ro fr m, of q] after_pass_path [OF ro fr m, of q]
    path_res_settle [OF v, of t] path_run_settle [OF v, of t]
  by (simp_all add: touched_def)

lemma clashed_path:
  assumes ro: "range_order rng" and fr: "stamps_fresh now b p s"
    and m: "(q, t) \<in> set (pass_paths rng now b p s)"
    and c: "merge3 (map_of b q) (map_of p q) (map_of s q) = Clash"
  shows "map_of (r_base (reconcile rng now b p s)) q = clash_winner (map_of p q) (map_of s q)"
    and "map_of (r_base (reconcile rng now b p s)) (conflict_path q t) =
      clash_loser (map_of p q) (map_of s q)"
    and "d \<noteq> SideNone \<Longrightarrow>
      after_pass rng now b p s d q = clash_winner (map_of p q) (map_of s q)"
    and "d \<noteq> SideNone \<Longrightarrow>
      after_pass rng now b p s d (conflict_path q t) = clash_loser (map_of p q) (map_of s q)"
proof -
  have k: "q \<in> touched b p s (q, t)" "conflict_path q t \<in> touched b p s (q, t)"
    using c by (simp_all add: touched_def path_clash_merge3)
  show "map_of (r_base (reconcile rng now b p s)) q = clash_winner (map_of p q) (map_of s q)"
    "map_of (r_base (reconcile rng now b p s)) (conflict_path q t) =
      clash_loser (map_of p q) (map_of s q)"
    using base_lookup_path [OF ro fr m k(1)] base_lookup_path [OF ro fr m k(2)]
      path_res_clash [OF c, of t] by simp_all
  show "d \<noteq> SideNone \<Longrightarrow>
      after_pass rng now b p s d q = clash_winner (map_of p q) (map_of s q)"
    "d \<noteq> SideNone \<Longrightarrow>
      after_pass rng now b p s d (conflict_path q t) = clash_loser (map_of p q) (map_of s q)"
    using after_pass_path [OF ro fr m k(1)] after_pass_path [OF ro fr m k(2)]
      path_run_clash [OF c, where t = t and d = d] by simp_all
qed

lemma renamed_path:
  assumes ok: "pass_ok rng now b p s" and x: "(d, old, np, e) \<in> set (all_recs rng b p s)"
    and side: "d' \<noteq> SideNone"
  shows "same_opt (after_pass rng now b p s d' np) (Some e)"
    and "after_pass rng now b p s d' old = None"
proof -
  have s: "(d = SideSecondary \<and> rename_ok b p s old np e) \<or> (d = SidePrimary \<and> rename_ok b s p old np e)"
    using all_recs_sound [OF _ _ _ _ x] ok by (simp add: pass_ok_def)
  have i: "inode_sound b p" "inode_sound b s" using ok by (simp_all add: pass_ok_def)
  have run: "after_pass rng now b p s d' k = flat_op (rec_op (d, old, np, e)) (flat_sides p s) d' k"
    if "k \<in> {np, old}" for k
    using after_pass_rec [OF ok x, of k d'] that by (simp add: op_keys_rec flat_run_def)
  have "\<exists>oo. flat_sides p s d old = Some oo \<and> same_identity oo e"
    using s i rename_ok_mtime by (auto simp: flat_sides_def)
  then show "same_opt (after_pass rng now b p s d' np) (Some e)"
    using s side run [of np]
    by (cases d') (auto simp: rec_op_def flat_op_def flat_sides_def rename_ok_def split: if_splits)
  show "after_pass rng now b p s d' old = None"
    using s side run [of old]
    by (cases d') (auto simp: rec_op_def flat_op_def flat_sides_def rename_ok_def split: if_splits)
qed

lemma after_pass_side:
  assumes ok: "pass_ok rng now b p s" and d: "d \<noteq> SideNone"
  shows "same_opt (after_pass rng now b p s d k) (map_of (r_base (reconcile rng now b p s)) k)"
proof -
  have ro: "range_order rng" and fr: "stamps_fresh now b p s" using ok by (simp_all add: pass_ok_def)
  consider (renamed) d' old np e where "(d', old, np, e) \<in> set (all_recs rng b p s)" "k \<in> {np, old}"
    | (path) q t where "(q, t) \<in> set (pass_paths rng now b p s)" "k \<in> touched b p s (q, t)"
    | (none) "k \<notin> set (all_paths b p s)" "\<forall>y \<in> set (pass_paths rng now b p s). k \<notin> touched b p s y"
  proof (cases "k \<in> set (renamed_paths rng b p s)")
    case True
    then show thesis using that(1) unfolding renamed_paths_recs by blast
  next
    case False
    then obtain t where "(k, t) \<in> set (pass_paths rng now b p s) \<or> k \<notin> set (all_paths b p s)"
      using pass_paths_exist by blast
    then consider "(k, t) \<in> set (pass_paths rng now b p s)" "k \<in> touched b p s (k, t)"
      | "k \<notin> set (all_paths b p s)"
      by (auto simp: touched_def)
    then show thesis
    proof cases
      case 1
      then show thesis by (rule that(2))
    next
      case 2
      then show thesis using that(2,3) by (metis surj_pair)
    qed
  qed
  then show ?thesis
  proof cases
    case renamed
    then show ?thesis
      using renamed_path [OF ok renamed(1) d] base_lookup_rec [OF ok renamed(1)] by auto
  next
    case path
    show ?thesis
    proof (cases "merge3 (map_of b q) (map_of p q) (map_of s q)")
      case (Settle v)
      then have "k = q" using path(2) by (auto simp: touched_def path_clash_merge3 split: if_splits)
      then show ?thesis
        using merged_path [OF ro fr path(1) Settle] d same_opt_trans same_opt_sym
        by (cases d) blast+
    next
      case Clash
      then show ?thesis
        using path(2) clashed_path [OF ro fr path(1) Clash] d
        by (auto simp: touched_def split: if_splits)
    qed
  next
    case none
    then show ?thesis using untouched_path [OF ok none] by simp
  qed
qed

lemma path_ops_kind: "x \<in> set (r_ops (path_res b p s y)) \<Longrightarrow> o_kind x \<noteq> OpRename"
proof -
  obtain q t where [simp]: "y = (q, t)" by (cases y)
  show "x \<in> set (r_ops (path_res b p s y)) \<Longrightarrow> o_kind x \<noteq> OpRename"
    by (cases "map_of b q"; cases "map_of p q"; cases "map_of s q")
      (auto simp: path_res_def path_result_def reconcile_path_def result_defs del_kind_def
        split: if_splits)
qed

lemma reconcile_opE:
  assumes "x \<in> set (r_ops (reconcile rng now b p s))"
  obtains (renamed) y where "y \<in> set (all_recs rng b p s)" "x = rec_op y"
  | (path) q t where "(q, t) \<in> set (pass_paths rng now b p s)" "x \<in> set (r_ops (path_res b p s (q, t)))"
  using assms unfolding reconcile_blocks(1) by auto

lemma side_recs_none:
  assumes "set b' = set b" "\<forall>q. map_of b q \<noteq> None \<longrightarrow> map_of nt q \<noteq> None"
  shows "side_recs b b' nt nt' d other = []"
proof -
  have keep: "fold (\<lambda>(q, e) m.
        if e_type e \<noteq> TypeFile then m
        else if map_of nt q \<noteq> None then m
        else if e_dev e = 0 \<and> e_ino e = 0 then m
        else AList.update (e_dev e, e_ino e) q m) xs [] = []"
    if "\<forall>(q, e) \<in> set xs. map_of nt q \<noteq> None" for xs
    using that by (induction xs) auto
  have "map_of nt q \<noteq> None" if "(q, e) \<in> set b'" for q e
    using that assms weak_map_of_SomeI by fastforce
  then have "deleted_by_key b' nt = []"
    unfolding deleted_by_key_def by (intro keep) auto
  then show ?thesis by (simp add: side_recs_def)
qed

lemma path_ops_push:
  assumes "x \<in> set (r_ops (path_res b p b (q, t)))"
  shows "o_dst x = SideSecondary \<and> o_kind x \<noteq> OpConflictRename"
  using assms
  by (cases "map_of b q"; cases "map_of p q")
    (auto simp: path_res_def path_result_def reconcile_path_def result_defs del_kind_def
      split: if_splits)

lemma path_ops_pull:
  assumes "x \<in> set (r_ops (path_res b b s (q, t)))"
  shows "o_dst x = SidePrimary \<and> o_kind x \<noteq> OpConflictRename"
  using assms
  by (cases "map_of b q"; cases "map_of s q")
    (auto simp: path_res_def path_result_def reconcile_path_def result_defs del_kind_def
      split: if_splits)

lemma no_clash_oneway [simp]: "\<not> path_clash b p b q" "\<not> path_clash b b s q"
  by (simp_all add: path_clash_merge3 merge3_def)

lemma flat_run_other:
  assumes "\<forall>x \<in> set xs. o_dst x = d" "d' \<noteq> d"
  shows "flat_run xs f d' = f d'"
proof -
  have step: "flat_op x g d' = g d'" if "o_dst x = d" for x g
    using that assms(2) by (cases "o_kind x") (auto simp: flat_op_def Let_def)
  show ?thesis
    using assms(1) unfolding flat_run_def by (induction xs arbitrary: f) (auto simp: step)
qed

lemma reconcile_push_side:
  assumes "range_order rng" "x \<in> set (r_ops (reconcile rng now b p b))"
  shows "o_dst x = SideSecondary \<and> o_kind x \<noteq> OpConflictRename"
  using assms(2)
proof (cases rule: reconcile_opE)
  case (renamed y)
  have "side_recs b (rng 2 b) b (rng 3 b) SidePrimary p = []"
    by (rule side_recs_none) (use range_order_set [OF assms(1)] in auto)
  then show ?thesis
    using renamed side_recs_side by (cases y) (fastforce simp: all_recs_def rec_op_def)
next
  case (path q t)
  then show ?thesis using path_ops_push by blast
qed

lemma reconcile_pull_side:
  assumes "range_order rng" "x \<in> set (r_ops (reconcile rng now b b s))"
  shows "o_dst x = SidePrimary \<and> o_kind x \<noteq> OpConflictRename"
  using assms(2)
proof (cases rule: reconcile_opE)
  case (renamed y)
  have "side_recs b (rng 0 b) b (rng 1 b) SideSecondary s = []"
    by (rule side_recs_none) (use range_order_set [OF assms(1)] in auto)
  then show ?thesis
    using renamed side_recs_side by (cases y) (fastforce simp: all_recs_def rec_op_def)
next
  case (path q t)
  then show ?thesis using path_ops_pull by blast
qed

subsection \<open>A concrete pass\<close>

text \<open>
  A small pass with one of everything, for the witnesses: \<open>a\<close> was renamed to \<open>z\<close> on the primary,
  \<open>b\<close> was edited on both sides, \<open>c\<close> deleted on the primary, \<open>d\<close> and \<open>d/n\<close> created on the
  secondary, \<open>e\<close> untouched.
\<close>

definition mk_file :: "string \<Rightarrow> int \<Rightarrow> int \<Rightarrow> u64 \<Rightarrow> entry" where
  "mk_file q n t i = zero_entry\<lparr>e_path := q, e_type := TypeFile, e_size := n, e_mtime := t,
     e_dev := 1, e_ino := i\<rparr>"

definition ex_b :: tree where
  "ex_b = [(''a'', mk_file ''a'' 5 10 1), (''b'', mk_file ''b'' 5 10 2), (''c'', mk_file ''c'' 5 10 3),
           (''e'', mk_file ''e'' 5 10 4)]"

definition ex_p :: tree where
  "ex_p = [(''z'', mk_file ''z'' 5 10 1), (''b'', mk_file ''b'' 6 20 2), (''e'', mk_file ''e'' 5 10 4)]"

definition ex_s :: tree where
  "ex_s = [(''a'', mk_file ''a'' 5 10 1), (''b'', mk_file ''b'' 7 30 2), (''c'', mk_file ''c'' 5 10 3),
           (''e'', mk_file ''e'' 5 10 4), (''d'', dir_entry ''d''), (''d/n'', mk_file ''d/n'' 1 40 9)]"

definition ex_now :: "nat \<Rightarrow> string" where
  "ex_now n = ''2026.01.02_03.04.05''"

lemmas ex_defs = ex_b_def ex_p_def ex_s_def ex_now_def mk_file_def dir_entry_def zero_entry_def

lemma ex_pass_ok: "pass_ok (\<lambda>n m. m) ex_now ex_b ex_p ex_s"
  by (simp add: pass_ok_def amap_ok_def inode_sound_def stamps_fresh_def all_paths_def keys_def
      conflict_path_def ex_defs)

lemma ex_push_ok: "pass_ok (\<lambda>n m. m) ex_now ex_b ex_p ex_b"
  by (simp add: pass_ok_def amap_ok_def inode_sound_def stamps_fresh_def all_paths_def keys_def
      conflict_path_def ex_defs)

lemma ex_pull_ok: "pass_ok (\<lambda>n m. m) ex_now ex_b ex_b ex_s"
  by (simp add: pass_ok_def amap_ok_def inode_sound_def stamps_fresh_def all_paths_def keys_def
      conflict_path_def ex_defs)

subsection \<open>Properties\<close>




lemma ex_not_renamed:
  "''c'' \<in> set (all_paths ex_b ex_p ex_s)" "''b'' \<in> set (all_paths ex_b ex_p ex_s)"
  "''c'' \<notin> set (renamed_paths (\<lambda>n m. m) ex_b ex_p ex_s)"
  "''b'' \<notin> set (renamed_paths (\<lambda>n m. m) ex_b ex_p ex_s)"
  by (simp_all add: all_paths_def keys_def renamed_paths_def detect_renames_def apply_side_rename_def
      deleted_by_key_def rename_step_def set_base_def add_op_def same_identity_def ex_defs)




text \<open>
  C4. A pass over trees that agree with the baseline asks for nothing: a converged pair stays
  quiet, so the pass after a successful pass is empty.
\<close>

theorem reconcile_settled:
  assumes "range_order rng" and "same_tree (map_of b) (map_of p)" and "same_tree (map_of b) (map_of s)"
  shows "r_ops (reconcile rng now b p s) = [] \<and> r_conflicts (reconcile rng now b p s) = 0"
proof -
  have eq: "same_opt (map_of b q) (map_of p q)" "same_opt (map_of b q) (map_of s q)" for q
    using assms(2,3) by (simp_all add: same_tree_def)
  have "all_recs rng b p s = []"
    unfolding all_recs_def
    using side_recs_none range_order_set [OF assms(1)] eq
    by (metis (no_types, lifting) append_Nil same_opt_None(2))
  moreover have "r_ops (path_res b p s (q, t)) = []" for q t
    using eq [of q]
    by (cases "map_of b q"; cases "map_of p q"; cases "map_of s q")
      (auto simp: path_res_def path_result_def reconcile_path_def result_defs)
  then have "concat (map (r_ops \<circ> path_res b p s) xs) = []" for xs
    by (induction xs) auto
  moreover have "\<not> path_clash b p s q" for q
    using eq [of q] by (auto simp: path_clash_merge3 merge3_def same_opt_commute)
  ultimately show ?thesis by (simp add: reconcile_blocks)
qed

theorem reconcile_settled_witness:
  "r_ops (reconcile (\<lambda>n m. rev m) ex_now ex_b ex_b (rev ex_b)) = []"
proof -
  have "map_of (rev ex_b) = map_of ex_b"
    by (rule map_of_mset_eq [symmetric]) (simp_all add: amap_ok_def ex_defs)
  then show ?thesis
    using reconcile_settled [of "\<lambda>n m. rev m" ex_b ex_b "rev ex_b" ex_now] by simp
qed



text \<open>
  Pushing (baseline pinned to the secondary, as \<open>forceOneway\<close> and the backup sender do) only
  ever writes to the secondary, reports no conflict, and makes the secondary a mirror of the
  primary.
\<close>

lemma push_mirrors:
  assumes "pass_ok rng now b p b"
  shows "(\<forall>x \<in> set (r_ops (reconcile rng now b p b)). o_dst x = SideSecondary) \<and>
    r_conflicts (reconcile rng now b p b) = 0 \<and>
    same_tree (after_pass rng now b p b SideSecondary) (map_of p)"
proof -
  have ro: "range_order rng" using assms by (simp add: pass_ok_def)
  have dst: "\<forall>x \<in> set (r_ops (reconcile rng now b p b)). o_dst x = SideSecondary"
    using reconcile_push_side [OF ro] by blast
  then have "after_pass rng now b p b SidePrimary = map_of p"
    using flat_run_other [of "ordered_ops (r_ops (reconcile rng now b p b))" SideSecondary SidePrimary]
    by (simp add: after_pass_def flat_sides_def)
  then have "same_tree (after_pass rng now b p b SideSecondary) (map_of p)"
    using after_pass_side [OF assms] same_tree_trans same_tree_sym
    unfolding same_tree_def by (metis same_opt_commute same_opt_trans side.distinct(3,5))
  then show ?thesis using dst by (simp add: reconcile_blocks(3))
qed

lemma push_mirrors_witness:
  "same_tree (after_pass (\<lambda>n m. m) ex_now ex_b ex_p ex_b SideSecondary) (map_of ex_p)"
  using push_mirrors [OF ex_push_ok] by blast

text \<open>
  Pulling (baseline pinned to the primary) only ever writes to the primary, reports no conflict,
  and makes the primary a mirror of the secondary.
\<close>

lemma pull_mirrors:
  assumes "pass_ok rng now b b s"
  shows "(\<forall>x \<in> set (r_ops (reconcile rng now b b s)). o_dst x = SidePrimary) \<and>
    r_conflicts (reconcile rng now b b s) = 0 \<and>
    same_tree (after_pass rng now b b s SidePrimary) (map_of s)"
proof -
  have ro: "range_order rng" using assms by (simp add: pass_ok_def)
  have dst: "\<forall>x \<in> set (r_ops (reconcile rng now b b s)). o_dst x = SidePrimary"
    using reconcile_pull_side [OF ro] by blast
  then have "after_pass rng now b b s SideSecondary = map_of s"
    using flat_run_other [of "ordered_ops (r_ops (reconcile rng now b b s))" SidePrimary SideSecondary]
    by (simp add: after_pass_def flat_sides_def)
  then have "same_tree (after_pass rng now b b s SidePrimary) (map_of s)"
    using after_pass_side [OF assms] unfolding same_tree_def
    by (metis same_opt_commute same_opt_trans side.distinct(3,5))
  then show ?thesis using dst by (simp add: reconcile_blocks(3))
qed

lemma pull_mirrors_witness:
  "same_tree (after_pass (\<lambda>n m. m) ex_now ex_b ex_b ex_s SidePrimary) (map_of ex_s)"
  using pull_mirrors [OF ex_pull_ok] by blast

end
