(* ===== verification/Persist.thy ===== *)
theory Persist
  imports Entries
begin

section \<open>Files that survive a restart\<close>

text \<open>
  Everything cs-sync remembers between passes is written the same way: encode into a temporary
  file next to the final one, then rename. \<open>state.Save\<close> (\<open>internal/state/store.go\<close>),
  \<open>guard.SaveRetry\<close> (\<open>internal/guard/guard.go\<close>), \<open>saveRemoteBaseline\<close> and \<open>saveSourceID\<close>
  (\<open>internal/remote/state.go\<close>) differ in which steps they check and in whether they sync. A slot
  is the pair of files; an outcome says which step fails, or after which step the process dies.
  Reading decodes the final file and treats a missing or undecodable one as empty.
\<close>

datatype 'a stored_file = Missing | Garbage | Stored 'a

record 'a slot =
  sl_final :: "'a stored_file"
  sl_tmp :: "'a stored_file"

datatype step = StCreate | StEncode | StSync | StClose | StRename

datatype outcome = AllOk | Fails step | Dies step

text \<open>The file system's half: what the slot looks like after the steps up to a point.\<close>

definition after_create :: "'a slot \<Rightarrow> 'a slot" where
  "after_create s = s\<lparr>sl_tmp := Garbage\<rparr>"

definition after_encode :: "'a \<Rightarrow> 'a slot \<Rightarrow> 'a slot" where
  "after_encode v s = s\<lparr>sl_tmp := Stored v\<rparr>"

definition after_rename :: "'a slot \<Rightarrow> 'a slot" where
  "after_rename s = s\<lparr>sl_final := sl_tmp s, sl_tmp := Missing\<rparr>"

definition remove_tmp :: "'a slot \<Rightarrow> 'a slot" where
  "remove_tmp s = s\<lparr>sl_tmp := Missing\<rparr>"

text \<open>
  \<open>state.Save\<close>: every step is checked, and a failing one removes the temporary file, except that a
  failing rename leaves it. \<open>Dies st\<close> is a crash right after step \<open>st\<close>.
\<close>

fun save_state :: "outcome \<Rightarrow> 'a \<Rightarrow> 'a slot \<Rightarrow> 'a slot \<times> bool" where
  "save_state AllOk v s = (after_rename (after_encode v (after_create s)), True)"
| "save_state (Fails StCreate) v s = (s, False)"
| "save_state (Fails StEncode) v s = (remove_tmp (after_create s), False)"
| "save_state (Fails StSync) v s = (remove_tmp (after_encode v (after_create s)), False)"
| "save_state (Fails StClose) v s = (remove_tmp (after_encode v (after_create s)), False)"
| "save_state (Fails StRename) v s = (after_encode v (after_create s), False)"
| "save_state (Dies StCreate) v s = (after_create s, False)"
| "save_state (Dies StEncode) v s = (after_encode v (after_create s), False)"
| "save_state (Dies StSync) v s = (after_encode v (after_create s), False)"
| "save_state (Dies StClose) v s = (after_encode v (after_create s), False)"
| "save_state (Dies StRename) v s = (after_rename (after_encode v (after_create s)), False)"

text \<open>
  \<open>guard.SaveRetry\<close> neither syncs nor checks the close: those two steps cannot stop it. The sync
  outcome is then the same as success.
\<close>

fun save_retry_file :: "outcome \<Rightarrow> 'a \<Rightarrow> 'a slot \<Rightarrow> 'a slot \<times> bool" where
  "save_retry_file (Fails StCreate) v s = (s, False)"
| "save_retry_file (Fails StEncode) v s = (remove_tmp (after_create s), False)"
| "save_retry_file (Fails StRename) v s = (after_encode v (after_create s), False)"
| "save_retry_file (Dies StCreate) v s = (after_create s, False)"
| "save_retry_file (Dies StEncode) v s = (after_encode v (after_create s), False)"
| "save_retry_file (Dies StClose) v s = (after_encode v (after_create s), False)"
| "save_retry_file (Dies StRename) v s = (after_rename (after_encode v (after_create s)), False)"
| "save_retry_file _ v s = (after_rename (after_encode v (after_create s)), True)"

text \<open>\<open>saveRemoteBaseline\<close> and \<open>saveSourceID\<close> take the same steps and return nothing.\<close>

definition save_remote_baseline :: "outcome \<Rightarrow> 'a \<Rightarrow> 'a slot \<Rightarrow> 'a slot" where
  "save_remote_baseline oc v s = fst (save_retry_file oc v s)"

definition save_source_id :: "outcome \<Rightarrow> 'a \<Rightarrow> 'a slot \<Rightarrow> 'a slot" where
  "save_source_id oc v s = fst (save_retry_file oc v s)"

definition load_file :: "'a \<Rightarrow> 'a slot \<Rightarrow> 'a" where
  "load_file dflt s = (case sl_final s of Stored v \<Rightarrow> v | _ \<Rightarrow> dflt)"

definition load_state :: "baseline_state slot \<Rightarrow> baseline_state" where
  "load_state s = load_file \<lparr>st_baseline = [], st_acltype = []\<rparr> s"

definition load_remote_baseline :: "tree slot \<Rightarrow> tree" where
  "load_remote_baseline s = load_file [] s"

definition load_source_id :: "u64 slot \<Rightarrow> u64" where
  "load_source_id s = load_file 0 s"

subsection \<open>The contract\<close>

text \<open>
  A store is atomic when a reader never sees anything but a value that was saved: after a save it
  reads the new value or still the old one, and the new one for certain if the save succeeded.
\<close>

locale atomic_store =
  fixes save :: "outcome \<Rightarrow> 'v \<Rightarrow> 's \<Rightarrow> 's" and load :: "'s \<Rightarrow> 'v"
  assumes load_saved: "load (save AllOk v s) = v"
    and load_any: "load (save oc v s) = v \<or> load (save oc v s) = load s"
begin

lemma load_saves: "load (fold (\<lambda>(oc, v). save oc v) xs s) \<in> insert (load s) (snd ` set xs)"
proof (induction xs arbitrary: s)
  case Nil
  then show ?case by simp
next
  case (Cons x xs)
  obtain oc v where x: "x = (oc, v)" by (cases x)
  show ?case
    using Cons.IH [of "save oc v s"] load_any [of oc v s] by (auto simp: x)
qed

lemma load_saves_last: "load (fold (\<lambda>(oc, v). save oc v) (xs @ [(AllOk, v)]) s) = v"
  by (simp add: load_saved)

end

lemmas slot_defs = after_create_def after_encode_def after_rename_def remove_tmp_def load_file_def

lemma save_state_atomic:
  "load_file e (fst (save_state AllOk v s)) = v"
  "load_file e (fst (save_state oc v s)) = v \<or> load_file e (fst (save_state oc v s)) = load_file e s"
  by (simp add: slot_defs) (cases "(oc, v, s)" rule: save_state.cases; simp add: slot_defs)

lemma save_retry_atomic:
  "load_file e (fst (save_retry_file AllOk v s)) = v"
  "load_file e (fst (save_retry_file oc v s)) = v \<or>
     load_file e (fst (save_retry_file oc v s)) = load_file e s"
  by (simp add: slot_defs) (cases "(oc, v, s)" rule: save_retry_file.cases; simp add: slot_defs)

interpretation pass_state: atomic_store "\<lambda>oc v s. fst (save_state oc v s)" load_state
  by unfold_locales (auto simp: load_state_def save_state_atomic simp del: save_state.simps)

interpretation remote_base: atomic_store save_remote_baseline load_remote_baseline
  by unfold_locales
    (auto simp: save_remote_baseline_def load_remote_baseline_def save_retry_atomic
      simp del: save_retry_file.simps)

interpretation source_id: atomic_store save_source_id load_source_id
  by unfold_locales (auto simp: save_source_id_def load_source_id_def save_retry_atomic
      simp del: save_retry_file.simps)

text \<open>
  C6. Whatever happens to any number of saves of the pass state, failed steps and crashes included,
  the next start reads a state that was saved whole (or the one that was there before): never a
  partial one.
\<close>

theorem saved_state_is_whole:
  "load_state (fold (\<lambda>(oc, v) s. fst (save_state oc v s)) xs s) \<in> insert (load_state s) (snd ` set xs)"
  by (rule pass_state.load_saves)

text \<open>The same for the remote baseline, the sender's list of what the receiver has acknowledged.\<close>

lemma saved_baseline_is_whole:
  "load_remote_baseline (fold (\<lambda>(oc, v). save_remote_baseline oc v) xs s)
     \<in> insert (load_remote_baseline s) (snd ` set xs)"
  by (rule remote_base.load_saves)

end
