(* ===== verification/Guard.thy ===== *)
theory Guard
  imports Persist
begin

section \<open>Package guard: liveness check, delete budget, retry quarantine\<close>

text \<open>
  \<open>internal/guard/guard.go\<close>. Times are nanoseconds since the epoch; the clock reading is an
  argument. The messages of the errors are left out, their cases are kept.
\<close>

subsection \<open>Source liveness\<close>

datatype source_error = CannotStat | WrongDevice u64 u64

text \<open>\<open>CheckSource\<close>: \<open>d\<close> is what \<open>stat\<close> says (\<open>None\<close> is an error), \<open>rec\<close> the recorded device.\<close>

definition check_source :: "u64 option \<Rightarrow> u64 \<Rightarrow> source_error + u64" where
  "check_source d rec =
     (case d of
        None \<Rightarrow> Inl CannotStat
      | Some dv \<Rightarrow>
          if dv = 0 then Inr rec
          else if rec = 0 then Inr dv
          else if rec \<noteq> dv then Inl (WrongDevice dv rec)
          else Inr rec)"

subsection \<open>Delete budget\<close>

record budget =
  max_count :: int
  max_percent :: int

datatype budget_error = TooMany int int | TooLargeShare int int int int

definition budget_check :: "budget \<Rightarrow> int \<Rightarrow> int \<Rightarrow> budget_error option" where
  "budget_check bd n_del tree_size =
     (if n_del = 0 then None
      else if max_count bd > 0 \<and> n_del > max_count bd then Some (TooMany n_del (max_count bd))
      else if max_percent bd > 0 \<and> tree_size > 0 \<and> n_del * 100 div tree_size > max_percent bd
        then Some (TooLargeShare n_del tree_size (n_del * 100 div tree_size) (max_percent bd))
      else None)"

subsection \<open>Freeze and approval\<close>

text \<open>The two marker files of a pair's state directory.\<close>

record markers =
  mk_freeze :: "budget_error option"
  mk_approve :: bool

definition freeze :: "budget_error \<Rightarrow> markers \<Rightarrow> markers" where
  "freeze reason m = m\<lparr>mk_freeze := Some reason\<rparr>"

definition frozen :: "markers \<Rightarrow> bool" where
  "frozen m \<longleftrightarrow> mk_freeze m \<noteq> None"

definition consume_approval :: "markers \<Rightarrow> bool \<times> markers" where
  "consume_approval m =
     (if \<not> mk_approve m then (False, m) else (True, m\<lparr>mk_approve := False, mk_freeze := None\<rparr>))"

subsection \<open>Retry and quarantine\<close>

definition max_attempts :: int where
  "max_attempts = 10"

record retry_item =
  it_attempts :: int
  it_next :: int
  it_quarantined :: bool
  it_err :: string

type_synonym retry_state = "(string, retry_item) amap"

definition zero_item :: retry_item where
  "zero_item = \<lparr>it_attempts = 0, it_next = 0, it_quarantined = False, it_err = []\<rparr>"

definition second_ns :: int where
  "second_ns = 1000000000"

text \<open>
  \<open>Backoff\<close>: \<open>time.Second << uint(attempts)\<close> on a signed 64-bit duration, so bits shifted out are
  lost and the result may be negative or zero.
\<close>

definition backoff :: "nat \<Rightarrow> int" where
  "backoff attempts =
     (let d = sint (push_bit attempts (1000000000 :: 64 word))
      in if d > 5 * 60 * second_ns \<or> d \<le> 0 then 5 * 60 * second_ns else d)"

definition unix_of :: "int \<Rightarrow> int" where
  "unix_of t = t div second_ns"

definition fail :: "int \<Rightarrow> string \<Rightarrow> string \<Rightarrow> retry_state \<Rightarrow> retry_state \<times> bool" where
  "fail now q err r =
     (let it = (case map_of r q of None \<Rightarrow> zero_item | Some it \<Rightarrow> it);
          n = it_attempts it + 1;
          it1 = it\<lparr>it_attempts := n, it_err := err, it_next := unix_of (now + backoff (nat n))\<rparr>
      in if n \<ge> max_attempts \<and> \<not> it_quarantined it1
         then (AList.update q (it1\<lparr>it_quarantined := True\<rparr>) r, True)
         else (AList.update q it1 r, False))"

definition skip :: "int \<Rightarrow> string \<Rightarrow> retry_state \<Rightarrow> bool" where
  "skip now q r =
     (case map_of r q of
        None \<Rightarrow> False
      | Some it \<Rightarrow> if it_quarantined it then True else unix_of now < it_next it)"

definition clear :: "string \<Rightarrow> retry_state \<Rightarrow> retry_state" where
  "clear q r = AList.delete q r"

definition quarantined_count :: "retry_state \<Rightarrow> nat" where
  "quarantined_count r = length (filter (\<lambda>(q, it). it_quarantined it) r)"

definition load_retry :: "retry_state slot \<Rightarrow> retry_state" where
  "load_retry s = load_file [] s"

interpretation retry_store: atomic_store "\<lambda>oc v s. fst (save_retry_file oc v s)" load_retry
  by unfold_locales (auto simp: load_retry_def save_retry_atomic simp del: save_retry_file.simps)

subsection \<open>Lemmas\<close>

lemma check_source_keeps: "rec \<noteq> 0 \<Longrightarrow> check_source d rec = Inr rec' \<Longrightarrow> rec' = rec"
  by (auto simp: check_source_def split: option.splits if_splits)

lemma check_source_refuses:
  "rec \<noteq> 0 \<Longrightarrow> dv \<noteq> 0 \<Longrightarrow> dv \<noteq> rec \<Longrightarrow> check_source (Some dv) rec = Inl (WrongDevice dv rec)"
  by (simp add: check_source_def)

lemma zdiv_ge_iff:
  fixes a t k :: int
  assumes "0 < t"
  shows "k \<le> a div t \<longleftrightarrow> k * t \<le> a"
proof
  assume "k \<le> a div t"
  then have "k * t \<le> a div t * t" using assms by (intro mult_right_mono) auto
  also have "\<dots> \<le> a" using assms by (simp add: minus_mod_eq_div_mult [symmetric])
  finally show "k * t \<le> a" .
next
  assume "k * t \<le> a"
  then have "k * t div t \<le> a div t" using assms by (intro zdiv_mono1)
  then show "k \<le> a div t" using assms by simp
qed

lemma div_gt_iff:
  fixes a t m :: int
  assumes "0 < t"
  shows "m < a div t \<longleftrightarrow> (m + 1) * t \<le> a"
proof -
  have "m < a div t \<longleftrightarrow> m + 1 \<le> a div t" by linarith
  also have "\<dots> \<longleftrightarrow> (m + 1) * t \<le> a" using assms by (rule zdiv_ge_iff)
  finally show ?thesis .
qed

lemma signed_take_bit_dvd:
  fixes x :: int
  assumes "2 ^ k dvd x" "k \<le> n"
  shows "2 ^ k dvd signed_take_bit n x"
proof -
  have "(2 :: int) ^ k dvd 2 ^ Suc n" "(2 :: int) ^ k dvd 2 ^ n"
    using assms(2) by (simp_all add: le_imp_power_dvd)
  then show ?thesis
    using assms(1)
    by (simp only: signed_take_bit_eq_take_bit_shift take_bit_eq_mod dvd_diff dvd_mod dvd_add)
qed

lemma backoff_large:
  assumes "34 \<le> a"
  shows "sint (push_bit a (1000000000 :: 64 word)) \<le> 0 \<or>
    300000000000 < sint (push_bit a (1000000000 :: 64 word))"
proof -
  let ?x = "1000000000 * 2 ^ a :: int"
  have "sint (push_bit a (1000000000 :: 64 word)) = signed_take_bit 63 ?x"
  proof -
    have "push_bit a (1000000000 :: 64 word) = word_of_int ?x"
      by (simp add: push_bit_eq_mult)
    then show ?thesis by (simp only: sint_sbintrunc') simp
  qed
  moreover have "(2 :: int) ^ 43 dvd ?x"
  proof -
    have "(2 :: int) ^ 43 dvd 2 ^ (a + 9)" using assms by (intro le_imp_power_dvd) simp
    moreover have "?x = 2 ^ (a + 9) * 1953125" by (simp add: power_add)
    ultimately show ?thesis by (metis dvd_mult2)
  qed
  then have "(2 :: int) ^ 43 dvd signed_take_bit 63 ?x"
    by (rule signed_take_bit_dvd) simp
  then obtain k where "signed_take_bit 63 ?x = 2 ^ 43 * k" ..
  ultimately show ?thesis by (cases "k \<le> 0") (simp_all add: mult_le_0_iff)
qed

lemma fail_lookup:
  "map_of (fst (fail now q err r)) q' =
     (if q' = q then
        (let it = (case map_of r q of None \<Rightarrow> zero_item | Some it \<Rightarrow> it); n = it_attempts it + 1
         in Some (it\<lparr>it_attempts := n, it_err := err, it_next := unix_of (now + backoff (nat n)),
                    it_quarantined := (it_quarantined it \<or> n \<ge> max_attempts)\<rparr>))
      else map_of r q')"
  by (auto simp: fail_def Let_def map_of_update split: option.splits)

lemma backoff_steps:
  assumes "a < 34"
  shows "backoff a = min (2 ^ a * second_ns) (300 * second_ns)"
proof -
  have "a = 0 \<or> a = 1 \<or> a = 2 \<or> a = 3 \<or> a = 4 \<or> a = 5 \<or> a = 6 \<or> a = 7 \<or> a = 8 \<or> a = 9 \<or> a = 10 \<or> a = 11 \<or>
    a = 12 \<or> a = 13 \<or> a = 14 \<or> a = 15 \<or> a = 16 \<or> a = 17 \<or> a = 18 \<or> a = 19 \<or> a = 20 \<or> a = 21 \<or> a = 22 \<or>
    a = 23 \<or> a = 24 \<or> a = 25 \<or> a = 26 \<or> a = 27 \<or> a = 28 \<or> a = 29 \<or> a = 30 \<or> a = 31 \<or> a = 32 \<or> a = 33"
    using assms by arith
  then show ?thesis
    by (elim disjE) (simp_all add: backoff_def second_ns_def push_bit_eq_mult)
qed

lemma backoff_eq: "backoff a = min (2 ^ a * second_ns) (300 * second_ns)"
proof (cases "a < 34")
  case True
  then show ?thesis by (rule backoff_steps)
next
  case False
  then have big: "(2 :: int) ^ 34 \<le> 2 ^ a" by (intro power_increasing) auto
  have "backoff a = 300 * second_ns"
    using backoff_large [of a] False by (auto simp: backoff_def second_ns_def Let_def)
  then show ?thesis using big by (simp add: second_ns_def min_def)
qed

text \<open>
  The delete budget lets a pass through exactly when it deletes nothing, or stays within the
  count limit (if one is set) and within the percentage limit (if one is set and the tree is not
  empty), the percentage being rounded down.
\<close>

lemma budget_check_iff:
  "budget_check bd n t = None \<longleftrightarrow>
     n = 0 \<or> ((max_count bd \<le> 0 \<or> n \<le> max_count bd) \<and>
       (max_percent bd \<le> 0 \<or> t \<le> 0 \<or> n * 100 < (max_percent bd + 1) * t))"
proof -
  have "\<not> (max_percent bd < n * 100 div t) \<longleftrightarrow> n * 100 < (max_percent bd + 1) * t" if "0 < t"
    using div_gt_iff [OF that, of "max_percent bd" "n * 100"] by linarith
  then show ?thesis by (auto simp: budget_check_def)
qed

text \<open>
  A source that has vanished can never empty its mirror unnoticed: a pass that would delete
  every known entry exceeds any percentage limit below 100.
\<close>

lemma emptied_source_trips_budget:
  assumes "0 < t" "0 < max_percent bd" "max_percent bd < 100"
  shows "budget_check bd t t \<noteq> None"
proof -
  have "(max_percent bd + 1) * t \<le> 100 * t"
    using assms by (intro mult_right_mono) auto
  then show ?thesis using assms by (auto simp: budget_check_iff)
qed

lemma emptied_source_trips_budget_witness:
  "budget_check \<lparr>max_count = 1000, max_percent = 20\<rparr> 3 3 \<noteq> None"
  by (rule emptied_source_trips_budget) simp_all

text \<open>
  Once a device is recorded, no pass ever records another one, and a pass that finds the
  source on a different device is refused.
\<close>

lemma recorded_device_is_kept:
  assumes "rec \<noteq> 0"
  shows "(\<forall>rec'. check_source d rec = Inr rec' \<longrightarrow> rec' = rec) \<and>
    (\<forall>dv. d = Some dv \<and> dv \<noteq> 0 \<and> dv \<noteq> rec \<longrightarrow> check_source d rec = Inl (WrongDevice dv rec))"
  using assms by (auto simp: check_source_def split: option.splits if_splits)

lemma recorded_device_is_kept_witness:
  "check_source (Some 7) 5 = Inl (WrongDevice 7 5)"
  using recorded_device_is_kept [of 5 "Some 7"] by simp

subsection \<open>Repeated failures\<close>

fun fail_times :: "(nat \<Rightarrow> int) \<Rightarrow> string \<Rightarrow> nat \<Rightarrow> retry_state \<Rightarrow> retry_state \<times> bool" where
  "fail_times clk q 0 r = (r, False)"
| "fail_times clk q (Suc n) r = fail (clk n) q [] (fst (fail_times clk q n r))"

lemma fail_flag:
  "snd (fail now q err r) \<longleftrightarrow>
     (let it = (case map_of r q of None \<Rightarrow> zero_item | Some it \<Rightarrow> it)
      in it_attempts it + 1 \<ge> max_attempts \<and> \<not> it_quarantined it)"
  by (auto simp: fail_def Let_def split: option.splits)

lemma fail_times_item:
  assumes "map_of r q = None" "0 < n"
  shows "\<exists>it. map_of (fst (fail_times clk q n r)) q = Some it \<and> it_attempts it = int n \<and>
    (it_quarantined it \<longleftrightarrow> 10 \<le> n) \<and> it_next it = unix_of (clk (n - 1) + backoff n)"
  using assms(2)
proof (induction n)
  case 0
  then show ?case by simp
next
  case (Suc n)
  show ?case
  proof (cases "n = 0")
    case True
    then show ?thesis
      using assms(1) by (simp add: fail_lookup Let_def zero_item_def max_attempts_def)
  next
    case False
    then obtain it where "map_of (fst (fail_times clk q n r)) q = Some it" "it_attempts it = int n"
      "it_quarantined it \<longleftrightarrow> 10 \<le> n"
      using Suc.IH by auto
    moreover have "nat (int n + 1) = Suc n" by simp
    ultimately show ?thesis
      by (auto simp: fail_lookup Let_def max_attempts_def simp del: backoff_def)
  qed
qed

text \<open>
  A path that keeps failing is quarantined at its tenth consecutive failure, not before, and
  only that failure reports it; from then on it is skipped at every time.
\<close>

theorem quarantined_at_tenth_failure:
  assumes "map_of r q = None"
  shows "(snd (fail_times clk q n r) \<longleftrightarrow> n = 10) \<and>
    (10 \<le> n \<longrightarrow> skip t q (fst (fail_times clk q n r))) \<and>
    (0 < n \<and> n < 10 \<longrightarrow> skip t q (fst (fail_times clk q n r)) =
       (unix_of t < unix_of (clk (n - 1) + min (2 ^ n * second_ns) (300 * second_ns))))"
proof (cases n)
  case 0
  then show ?thesis by simp
next
  case (Suc m)
  obtain it where it: "map_of (fst (fail_times clk q n r)) q = Some it"
    "it_quarantined it \<longleftrightarrow> 10 \<le> n" "it_next it = unix_of (clk (n - 1) + backoff n)"
    using fail_times_item [OF assms, of n clk] Suc by auto
  have "snd (fail_times clk q n r) \<longleftrightarrow> n = 10"
  proof (cases "m = 0")
    case True
    then show ?thesis using Suc assms by (simp add: fail_flag max_attempts_def zero_item_def)
  next
    case False
    then obtain i where "map_of (fst (fail_times clk q m r)) q = Some i" "it_attempts i = int m"
      "it_quarantined i \<longleftrightarrow> 10 \<le> m"
      using fail_times_item [OF assms, of m clk] by auto
    then show ?thesis using Suc by (auto simp: fail_flag max_attempts_def)
  qed
  then show ?thesis using it by (auto simp: skip_def backoff_eq)
qed

theorem quarantined_at_tenth_failure_witness:
  "skip 5 ''x'' (fst (fail_times (\<lambda>n. 0) ''x'' 12 []))"
  using quarantined_at_tenth_failure [of "[]" "''x''" "\<lambda>n. 0" 12 5] by simp

end
