(* ===== verification/Endpoint.thy ===== *)
theory Endpoint
  imports GoStrings
begin

section \<open>Package endpoint: the grammar of --primary, --secondary and --backup\<close>

text \<open>
  \<open>internal/endpoint/endpoint.go\<close>. The three regular expressions are written out as predicates on
  the characters they match; the errors carry what the messages quote.
\<close>

datatype kind = KindLocal | KindCSSync | KindRustFS

record endpoint =
  ep_kind :: kind
  ep_raw :: string
  ep_path :: string
  ep_host :: string
  ep_port :: int
  ep_bucket :: string

datatype parse_error =
    EmptyEndpoint
  | EmptyBucket string
  | SlashInBucket string
  | BadPort string string
  | BadHost string

definition kind_name :: "kind \<Rightarrow> string" where
  "kind_name k = (case k of KindLocal \<Rightarrow> ''local'' | KindCSSync \<Rightarrow> ''cs-sync'' | KindRustFS \<Rightarrow> ''rustfs'')"

definition is_local :: "endpoint \<Rightarrow> bool" where
  "is_local e \<longleftrightarrow> ep_kind e \<noteq> KindLocal \<and> (ep_host e = ''localhost'' \<or> ep_host e = ''127.0.0.1'')"

definition host_port :: "endpoint \<Rightarrow> string" where
  "host_port e = ep_host e @ '':'' @ int_str (ep_port e)"

definition default_cssync_port :: int where "default_cssync_port = 9010"
definition default_rustfs_port :: int where "default_rustfs_port = 9000"

definition is_alpha :: "char \<Rightarrow> bool" where
  "is_alpha c \<longleftrightarrow> (CHR ''A'' \<le> c \<and> c \<le> CHR ''Z'') \<or> (CHR ''a'' \<le> c \<and> c \<le> CHR ''z'')"

definition is_slash :: "char \<Rightarrow> bool" where
  "is_slash c \<longleftrightarrow> c = CHR ''/'' \<or> c = CHR 0x5C"

fun win_path_re :: "string \<Rightarrow> bool" where
  "win_path_re (a # b # c # s) \<longleftrightarrow> is_alpha a \<and> b = CHR '':'' \<and> is_slash c"
| "win_path_re _ \<longleftrightarrow> False"

fun rel_path_re :: "string \<Rightarrow> bool" where
  "rel_path_re (a # b # s) \<longleftrightarrow>
     a = CHR ''.'' \<and> (is_slash b \<or> (b = CHR ''.'' \<and> s \<noteq> [] \<and> is_slash (hd s)))"
| "rel_path_re _ \<longleftrightarrow> False"

definition host_char :: "char \<Rightarrow> bool" where
  "host_char c \<longleftrightarrow> is_alpha c \<or> is_digit c \<or> c = CHR ''.'' \<or> c = CHR ''-''"

definition host_re :: "string \<Rightarrow> bool" where
  "host_re s \<longleftrightarrow> s \<noteq> [] \<and> list_all host_char s"

definition local_form :: "string \<Rightarrow> bool" where
  "local_form s \<longleftrightarrow> win_path_re s \<or> has_prefix s ''/'' \<or> rel_path_re s"

definition split_bucket :: "string \<Rightarrow> string \<Rightarrow> parse_error + (string \<times> string \<times> bool)" where
  "split_bucket raw spec =
     (case str_index CHR ''/'' spec of
        None \<Rightarrow> Inr (spec, [], False)
      | Some i \<Rightarrow>
          (let bucket = drop (i + 1) spec
           in if bucket = [] then Inl (EmptyBucket raw)
              else if CHR ''/'' \<in> set bucket then Inl (SlashInBucket raw)
              else Inr (take i spec, bucket, True)))"

definition split_port :: "string \<Rightarrow> string \<Rightarrow> parse_error + (string \<times> int)" where
  "split_port raw hp =
     (case last_index CHR '':'' hp of
        None \<Rightarrow> Inr (hp, 0)
      | Some i \<Rightarrow>
          (let ps = drop (i + 1) hp
           in case atoi ps of
                None \<Rightarrow> Inl (BadPort raw ps)
              | Some p \<Rightarrow> if p \<le> 0 \<or> p > 65535 then Inl (BadPort raw ps) else Inr (take i hp, p)))"

definition parse :: "string \<Rightarrow> parse_error + endpoint" where
  "parse raw =
     (let spec = trim_space raw
      in if spec = [] then Inl EmptyEndpoint
         else if local_form spec
           then Inr \<lparr>ep_kind = KindLocal, ep_raw = raw, ep_path = spec, ep_host = [], ep_port = 0, ep_bucket = []\<rparr>
         else case split_bucket raw spec of
           Inl err \<Rightarrow> Inl err
         | Inr (hp, bucket, rustfs) \<Rightarrow>
             (case split_port raw hp of
                Inl err \<Rightarrow> Inl err
              | Inr (host, port) \<Rightarrow>
                  if host = [] \<or> \<not> host_re host then Inl (BadHost raw)
                  else if rustfs
                    then Inr \<lparr>ep_kind = KindRustFS, ep_raw = raw, ep_path = [], ep_host = host,
                      ep_port = (if port = 0 then default_rustfs_port else port), ep_bucket = bucket\<rparr>
                  else Inr \<lparr>ep_kind = KindCSSync, ep_raw = raw, ep_path = [], ep_host = host,
                      ep_port = (if port = 0 then default_cssync_port else port), ep_bucket = []\<rparr>))"

text \<open>The canonical spelling of an endpoint, with the port always written.\<close>

definition spec_of :: "endpoint \<Rightarrow> string" where
  "spec_of e =
     (case ep_kind e of
        KindLocal \<Rightarrow> ep_path e
      | KindCSSync \<Rightarrow> host_port e
      | KindRustFS \<Rightarrow> host_port e @ ''/'' @ ep_bucket e)"

definition endpoint_ok :: "endpoint \<Rightarrow> bool" where
  "endpoint_ok e \<longleftrightarrow>
     (if ep_kind e = KindLocal then local_form (ep_path e) \<and> trim_space (ep_path e) = ep_path e
      else host_re (ep_host e) \<and> 1 \<le> ep_port e \<and> ep_port e \<le> 65535 \<and> ep_path e = [] \<and>
        (if ep_kind e = KindRustFS
         then ep_bucket e \<noteq> [] \<and> CHR ''/'' \<notin> set (ep_bucket e) \<and> \<not> is_space (last (ep_bucket e))
         else ep_bucket e = []))"

subsection \<open>Lemmas\<close>

lemma dropWhile_hd: "dropWhile P s \<noteq> [] \<Longrightarrow> \<not> P (hd (dropWhile P s))"
  by (induction s) auto

lemma trim_space_ends_id:
  "s \<noteq> [] \<Longrightarrow> \<not> is_space (hd s) \<Longrightarrow> \<not> is_space (last s) \<Longrightarrow> trim_space s = s"
proof -
  assume a: "s \<noteq> []" "\<not> is_space (hd s)" "\<not> is_space (last s)"
  have 1: "dropWhile is_space t = t" if "t \<noteq> []" "\<not> is_space (hd t)" for t
    using that by (cases t) auto
  show ?thesis using a 1 [of s] 1 [of "rev s"] by (simp add: trim_space_def hd_rev)
qed

lemma trim_space_ends:
  assumes "trim_space s \<noteq> []"
  shows "\<not> is_space (hd (trim_space s))" and "\<not> is_space (last (trim_space s))"
proof -
  let ?u = "dropWhile is_space s"
  let ?v = "dropWhile is_space (rev ?u)"
  have v: "?v \<noteq> []" using assms by (simp add: trim_space_def)
  then have u: "?u \<noteq> []" by (metis dropWhile.simps(1) rev.simps(1))
  show "\<not> is_space (last (trim_space s))"
    using dropWhile_hd [OF v] v by (simp add: trim_space_def last_rev)
  obtain w where "rev ?u = w @ ?v" by (metis takeWhile_dropWhile_id)
  then have "?u = rev ?v @ rev w" by (metis rev_append rev_rev_ident)
  then have "hd ?u = hd (rev ?v)" using v by (metis hd_append2 rev_is_Nil_conv)
  then show "\<not> is_space (hd (trim_space s))"
    using dropWhile_hd [OF u] by (simp add: trim_space_def)
qed

lemma trim_space_idem [simp]: "trim_space (trim_space s) = trim_space s"
proof (cases "trim_space s = []")
  case True
  have "trim_space [] = []" by (simp add: trim_space_def)
  then show ?thesis using True by simp
next
  case False
  then show ?thesis using trim_space_ends [OF False] by (intro trim_space_ends_id) auto
qed

lemma host_char_no:
  "host_char c \<Longrightarrow> c \<noteq> CHR '':'' \<and> \<not> is_slash c \<and> \<not> is_space c"
  by (auto simp: host_char_def is_alpha_def is_digit_def is_slash_def is_space_def less_eq_char_def)

lemma split_bucket_Inr:
  assumes "split_bucket raw spec = Inr (hp, bucket, rustfs)"
  shows "if rustfs then spec = hp @ ''/'' @ bucket \<and> bucket \<noteq> [] \<and> CHR ''/'' \<notin> set bucket \<and> CHR ''/'' \<notin> set hp
         else spec = hp \<and> bucket = [] \<and> CHR ''/'' \<notin> set hp"
  using assms
  by (auto simp: split_bucket_def Let_def split: option.splits if_splits elim!: str_index_SomeE)

lemma split_port_Inr:
  assumes "split_port raw hp = Inr (host, port)"
  shows "0 \<le> port \<and> port \<le> 65535"
  using assms by (auto simp: split_port_def Let_def split: option.splits if_splits)

lemma split_bucket_append:
  "CHR ''/'' \<notin> set hp \<Longrightarrow> b \<noteq> [] \<Longrightarrow> CHR ''/'' \<notin> set b \<Longrightarrow>
    split_bucket raw (hp @ CHR ''/'' # b) = Inr (hp, b, True)"
  by (simp add: split_bucket_def str_index_cut)

lemma split_bucket_plain: "CHR ''/'' \<notin> set hp \<Longrightarrow> split_bucket raw hp = Inr (hp, [], False)"
  by (simp add: split_bucket_def str_index_None [THEN iffD2])

lemma split_port_append:
  assumes "1 \<le> p" "p \<le> 65535"
  shows "split_port raw (h @ CHR '':'' # int_str p) = Inr (h, p)"
proof -
  have "CHR '':'' \<notin> set (int_str p)"
    using assms nat_str_no is_digit_cases by (fastforce simp: int_str_nonneg)
  then show ?thesis
    using assms by (simp add: split_port_def last_index_cut Let_def atoi_int_str int_max_def)
qed

lemma host_port_no_slash:
  assumes "host_re (ep_host e)" "1 \<le> ep_port e"
  shows "CHR ''/'' \<notin> set (host_port e)"
proof -
  have "CHR ''/'' \<notin> set (ep_host e)"
    using assms host_char_no by (auto simp: host_re_def list_all_iff is_slash_def)
  moreover have "CHR ''/'' \<notin> set (int_str (ep_port e))"
    using assms nat_str_no is_digit_cases by (fastforce simp: int_str_nonneg)
  ultimately show ?thesis by (simp add: host_port_def)
qed

lemma digits_no_slash:
  assumes "1 \<le> p" "int_str p = c # s"
  shows "\<not> is_slash c"
proof -
  have "is_digit c" using assms nat_str_no [of c "nat p"] by (simp add: int_str_nonneg)
  then show ?thesis by (auto simp: is_digit_def is_slash_def less_eq_char_def)
qed

lemma host_port_not_local:
  assumes "host_re h" "1 \<le> p"
  shows "\<not> local_form (h @ CHR '':'' # int_str p @ t)"
proof -
  have h: "\<forall>c \<in> set h. c \<noteq> CHR '':'' \<and> \<not> is_slash c" "h \<noteq> []"
    using assms(1) host_char_no by (auto simp: host_re_def list_all_iff)
  have colon: "\<not> is_slash CHR '':''" by (simp add: is_slash_def)
  obtain d ds where d: "int_str p = d # ds"
    using assms(2) by (cases "int_str p") (auto simp: int_str_nonneg)
  then have nd: "\<not> is_slash d" using assms(2) digits_no_slash by blast
  show ?thesis
  proof (cases h)
    case (Cons a h1)
    show ?thesis
    proof (cases h1)
      case Nil
      then show ?thesis
        using Cons h colon d nd by (auto simp: local_form_def has_prefix_def is_slash_def)
    next
      case (Cons b h2)
      then show ?thesis
        using \<open>h = a # h1\<close> h colon
        by (cases h2) (auto simp: local_form_def has_prefix_def is_slash_def)
    qed
  qed (use h in simp)
qed

lemma parse_InrE:
  assumes "parse s = Inr e"
  obtains (Local) "trim_space s \<noteq> []" "local_form (trim_space s)"
      "e = \<lparr>ep_kind = KindLocal, ep_raw = s, ep_path = trim_space s, ep_host = [], ep_port = 0, ep_bucket = []\<rparr>"
    | (RustFS) hp bucket host port where "trim_space s \<noteq> []" "\<not> local_form (trim_space s)"
      "split_bucket s (trim_space s) = Inr (hp, bucket, True)" "split_port s hp = Inr (host, port)" "host_re host"
      "e = \<lparr>ep_kind = KindRustFS, ep_raw = s, ep_path = [], ep_host = host,
        ep_port = (if port = 0 then default_rustfs_port else port), ep_bucket = bucket\<rparr>"
    | (CSSync) hp host port where "trim_space s \<noteq> []" "\<not> local_form (trim_space s)"
      "split_bucket s (trim_space s) = Inr (hp, [], False)" "split_port s hp = Inr (host, port)" "host_re host"
      "e = \<lparr>ep_kind = KindCSSync, ep_raw = s, ep_path = [], ep_host = host,
        ep_port = (if port = 0 then default_cssync_port else port), ep_bucket = []\<rparr>"
proof -
  consider "local_form (trim_space s)" | x where "\<not> local_form (trim_space s)"
      "split_bucket s (trim_space s) = Inl x"
    | hp b rf where "\<not> local_form (trim_space s)" "split_bucket s (trim_space s) = Inr (hp, b, rf)"
    by (cases "split_bucket s (trim_space s)") auto
  then show thesis
  proof cases
    case 3
    show thesis
    proof (cases "split_port s hp")
      case (Inr pr)
      obtain host port where pr: "pr = (host, port)" by (cases pr)
      show thesis
      proof (cases rf)
        case True
        then show thesis
          using assms 3 Inr pr RustFS [of hp b host port] by (simp add: parse_def Let_def split: if_splits)
      next
        case False
        then have "b = []" using split_bucket_Inr [OF 3(2)] by simp
        then show thesis
          using assms 3 Inr pr False CSSync [of hp host port] by (simp add: parse_def Let_def split: if_splits)
      qed
    qed (use assms 3 in \<open>simp add: parse_def Let_def split: if_splits\<close>)
  qed (use assms Local in \<open>simp_all add: parse_def Let_def split: if_splits\<close>)
qed

lemma parse_wf: "parse s = Inr e \<Longrightarrow> endpoint_ok e \<and> ep_raw e = s"
proof (erule parse_InrE, goal_cases)
  case 1
  then show ?case by (simp add: endpoint_ok_def)
next
  case (2 hp bucket host port)
  have b: "trim_space s = hp @ ''/'' @ bucket" "bucket \<noteq> []" "CHR ''/'' \<notin> set bucket"
    using split_bucket_Inr [OF 2(3)] by auto
  have "\<not> is_space (last bucket)" using trim_space_ends(2) [OF 2(1)] b by simp
  then show ?case
    using 2 b split_port_Inr [OF 2(4)] by (auto simp: endpoint_ok_def default_rustfs_port_def)
next
  case (3 hp host port)
  then show ?case
    using split_port_Inr [OF 3(4)] by (auto simp: endpoint_ok_def default_cssync_port_def)
qed

lemma host_port_ends:
  assumes "host_re (ep_host e)" "1 \<le> ep_port e"
  shows "host_port e \<noteq> []" and "\<not> is_space (hd (host_port e))" and "\<not> is_space (last (host_port e))"
proof -
  have h: "ep_host e \<noteq> []" "\<not> is_space (hd (ep_host e))"
    using assms(1) host_char_no by (auto simp: host_re_def list_all_iff)
  have "is_digit (last (int_str (ep_port e)))"
    using assms(2) nat_str_no [OF last_in_set [OF nat_str_nonempty]] by (simp add: int_str_nonneg)
  then have d: "\<not> is_space (last (int_str (ep_port e)))"
    by (auto simp: is_digit_def is_space_def less_eq_char_def)
  have ne: "int_str (ep_port e) \<noteq> []" using assms(2) by (simp add: int_str_nonneg)
  show "host_port e \<noteq> []" "\<not> is_space (hd (host_port e))" "\<not> is_space (last (host_port e))"
    using h d ne by (simp_all add: host_port_def)
qed

lemma parse_spec_of:
  assumes "endpoint_ok e" "ep_kind e = KindLocal \<Longrightarrow> ep_host e = [] \<and> ep_port e = 0 \<and> ep_bucket e = []"
  shows "parse (spec_of e) = Inr (e\<lparr>ep_raw := spec_of e\<rparr>)"
proof (cases "ep_kind e")
  case KindLocal
  have "ep_path e \<noteq> []" using assms KindLocal by (auto simp: endpoint_ok_def local_form_def has_prefix_def)
  then show ?thesis
    using assms KindLocal by (simp add: parse_def spec_of_def endpoint_ok_def Let_def)
next
  case KindCSSync
  have ok: "host_re (ep_host e)" "1 \<le> ep_port e" "ep_port e \<le> 65535" "ep_path e = []" "ep_bucket e = []"
    using assms KindCSSync by (auto simp: endpoint_ok_def)
  note he = host_port_ends [OF ok(1,2)]
  have t: "trim_space (host_port e) = host_port e" using he by (intro trim_space_ends_id)
  have "\<not> local_form (host_port e)"
    using host_port_not_local [OF ok(1,2), of "[]"] by (simp add: host_port_def)
  moreover have "split_port (host_port e) (host_port e) = Inr (ep_host e, ep_port e)"
    using split_port_append [OF ok(2,3)] by (simp add: host_port_def)
  ultimately show ?thesis
    using KindCSSync t he ok split_bucket_plain [OF host_port_no_slash [OF ok(1,2)]]
    by (simp add: parse_def spec_of_def Let_def host_re_def)
next
  case KindRustFS
  have ok: "host_re (ep_host e)" "1 \<le> ep_port e" "ep_port e \<le> 65535" "ep_path e = []"
    and b: "ep_bucket e \<noteq> []" "CHR ''/'' \<notin> set (ep_bucket e)" "\<not> is_space (last (ep_bucket e))"
    using assms KindRustFS by (auto simp: endpoint_ok_def)
  note he = host_port_ends [OF ok(1,2)]
  let ?s = "host_port e @ CHR ''/'' # ep_bucket e"
  have t: "trim_space ?s = ?s" using he b by (intro trim_space_ends_id) simp_all
  have "\<not> local_form ?s"
    using host_port_not_local [OF ok(1,2), of "CHR ''/'' # ep_bucket e"] by (simp add: host_port_def)
  moreover have "split_port ?s (host_port e) = Inr (ep_host e, ep_port e)"
    using split_port_append [OF ok(2,3)] by (simp add: host_port_def)
  ultimately show ?thesis
    using KindRustFS t he ok b split_bucket_append [OF host_port_no_slash [OF ok(1,2)] b(1,2)]
    by (simp add: parse_def spec_of_def Let_def host_re_def)
qed

lemmas parse_eval = parse_def split_bucket_def split_port_def trim_space_def is_space_def local_form_def
  has_prefix_def is_slash_def is_alpha_def last_index_def atoi_def is_digit_def digits_val_def digit_val_def
  int_min_def int_max_def host_re_def host_char_def less_eq_char_def Let_def default_rustfs_port_def
  default_cssync_port_def

text \<open>
  Whatever a spec parses to is well formed: a local endpoint carries a trimmed path in one of
  the three local forms, a remote one a valid host name and a port between 1 and 65535, and a bucket
  that is not empty and has no slash exactly when it is a RustFS endpoint.
\<close>

lemma parsed_endpoint_ok: "\<forall>e. parse s = Inr e \<longrightarrow> endpoint_ok e \<and> ep_raw e = s"
  using parse_wf by blast

lemma parsed_endpoint_ok_witness:
  "parse ''nas:7/tank'' = Inr \<lparr>ep_kind = KindRustFS, ep_raw = ''nas:7/tank'', ep_path = [],
     ep_host = ''nas'', ep_port = 7, ep_bucket = ''tank''\<rparr> \<and>
   endpoint_ok \<lparr>ep_kind = KindRustFS, ep_raw = ''nas:7/tank'', ep_path = [], ep_host = ''nas'',
     ep_port = 7, ep_bucket = ''tank''\<rparr>"
proof -
  have p: "parse ''nas:7/tank'' = Inr \<lparr>ep_kind = KindRustFS, ep_raw = ''nas:7/tank'', ep_path = [],
     ep_host = ''nas'', ep_port = 7, ep_bucket = ''tank''\<rparr>"
    by (simp add: parse_eval)
  then show ?thesis using parsed_endpoint_ok [of "''nas:7/tank''"] by blast
qed

text \<open>
  A spec is a local path exactly when, after trimming, it is a Windows drive path, starts with a
  slash, or starts with \<open>./\<close> or \<open>../\<close> (or the backslash forms); in particular a bare relative path
  such as \<open>data/subdir\<close> is never guessed to be local.
\<close>

lemma parse_local_iff:
  "(\<exists>e. parse s = Inr e \<and> ep_kind e = KindLocal) \<longleftrightarrow> local_form (trim_space s)"
proof
  assume "\<exists>e. parse s = Inr e \<and> ep_kind e = KindLocal"
  then show "local_form (trim_space s)" by (auto elim: parse_InrE)
next
  assume l: "local_form (trim_space s)"
  then have "trim_space s \<noteq> []" by (auto simp: local_form_def has_prefix_def)
  then show "\<exists>e. parse s = Inr e \<and> ep_kind e = KindLocal" using l by (simp add: parse_def Let_def)
qed

text \<open>
  Parsing and printing agree: the canonical spelling of a parsed endpoint, default port filled
  in, parses back to the same endpoint.
\<close>

lemma parse_canonical:
  assumes "parse s = Inr e"
  shows "parse (spec_of e) = Inr (e\<lparr>ep_raw := spec_of e\<rparr>)"
proof (rule parse_spec_of)
  show "endpoint_ok e" using parse_wf assms by blast
  show "ep_host e = [] \<and> ep_port e = 0 \<and> ep_bucket e = []" if "ep_kind e = KindLocal"
    using assms that by (auto elim: parse_InrE)
qed

lemma parse_canonical_witness:
  "parse ''nas:9000/tank'' = Inr \<lparr>ep_kind = KindRustFS, ep_raw = ''nas:9000/tank'', ep_path = [],
     ep_host = ''nas'', ep_port = 9000, ep_bucket = ''tank''\<rparr>"
proof -
  let ?e = "\<lparr>ep_kind = KindRustFS, ep_raw = '' nas/tank'', ep_path = [], ep_host = ''nas'',
    ep_port = 9000, ep_bucket = ''tank''\<rparr>"
  have "parse '' nas/tank'' = Inr ?e" by (simp add: parse_eval)
  moreover have "spec_of ?e = ''nas:9000/tank''"
    by (simp add: spec_of_def host_port_def int_str_def nat_str.simps digit_char_def
        char_of_def bit_iff_odd drop_bit_eq_div)
  ultimately show ?thesis using parse_canonical [of "'' nas/tank''" ?e] by simp
qed

end
