(* ===== verification/Paths.thy ===== *)
theory Paths
  imports GoStrings
begin

section \<open>Package path/filepath on Unix\<close>

text \<open>
  \<open>Clean\<close>, \<open>IsAbs\<close>, \<open>Join\<close> of two elements, \<open>Dir\<close> and \<open>Rel\<close> as the sources call them;
  \<open>FromSlash\<close> and \<open>ToSlash\<close> change nothing on Unix and are left out. \<open>pcomps\<close> is the list of
  elements a path names, the key under which \<open>FileSys\<close> files it.
\<close>

definition is_abs :: "string \<Rightarrow> bool" where
  "is_abs p \<longleftrightarrow> has_prefix p ''/''"

definition dotdot :: string where "dotdot = ''..''"

text \<open>One element at a time, with the elements kept so far on a stack.\<close>

definition clean_step :: "bool \<Rightarrow> string list \<Rightarrow> string \<Rightarrow> string list" where
  "clean_step rooted st c =
     (if c = [] \<or> c = ''.'' then st
      else if c = dotdot then
        (case st of
           [] \<Rightarrow> if rooted then [] else [dotdot]
         | s # ss \<Rightarrow> if s = dotdot then dotdot # st else ss)
      else c # st)"

definition clean_comps :: "bool \<Rightarrow> string list \<Rightarrow> string list" where
  "clean_comps rooted cs = rev (foldl (clean_step rooted) [] cs)"

definition pcomps :: "string \<Rightarrow> string list" where
  "pcomps p = clean_comps (is_abs p) (split_on CHR ''/'' p)"

definition clean :: "string \<Rightarrow> string" where
  "clean p =
     (if is_abs p then ''/'' @ join_with CHR ''/'' (pcomps p)
      else if pcomps p = [] then ''.''
      else join_with CHR ''/'' (pcomps p))"

definition join_path :: "string \<Rightarrow> string \<Rightarrow> string" where
  "join_path a b =
     (if a = [] then (if b = [] then [] else clean b)
      else if b = [] then clean a
      else clean (a @ ''/'' @ b))"

definition dir_of :: "string \<Rightarrow> string" where
  "dir_of p = clean (case last_index CHR ''/'' p of None \<Rightarrow> [] | Some i \<Rightarrow> take (i + 1) p)"

fun strip_common :: "string list \<Rightarrow> string list \<Rightarrow> string list \<times> string list" where
  "strip_common (b # bs) (t # ts) = (if b = t then strip_common bs ts else (b # bs, t # ts))"
| "strip_common bs ts = (bs, ts)"

text \<open>\<open>Rel\<close>: \<open>None\<close> is the error that one path cannot be made relative to the other.\<close>

definition rel_path :: "string \<Rightarrow> string \<Rightarrow> string option" where
  "rel_path base targ =
     (if clean base = clean targ then Some ''.''
      else if is_abs base \<noteq> is_abs targ then None
      else case strip_common (pcomps base) (pcomps targ) of
        (bs, ts) \<Rightarrow>
          if bs \<noteq> [] \<and> hd bs = dotdot then None
          else Some (join_with CHR ''/'' (replicate (length bs) dotdot @ ts)))"

subsection \<open>Lemmas\<close>

definition good_comp :: "string \<Rightarrow> bool" where
  "good_comp c \<longleftrightarrow> c \<noteq> [] \<and> c \<noteq> ''.'' \<and> c \<noteq> dotdot \<and> CHR ''/'' \<notin> set c"

definition abs_path :: "string list \<Rightarrow> string" where
  "abs_path cs = ''/'' @ join_with CHR ''/'' cs"

lemma is_abs_abs_path [simp]: "is_abs (abs_path cs)"
  by (simp add: is_abs_def abs_path_def has_prefix_def)

lemma clean_step_good: "good_comp c \<Longrightarrow> clean_step r st c = c # st"
  by (simp add: good_comp_def clean_step_def)

lemma foldl_clean_good: "list_all good_comp cs \<Longrightarrow> foldl (clean_step r) st cs = rev cs @ st"
  by (induction cs arbitrary: st) (simp_all add: clean_step_good)

lemma clean_comps_good: "list_all good_comp cs \<Longrightarrow> clean_comps r cs = cs"
  by (simp add: clean_comps_def foldl_clean_good)

lemma clean_comps_Nil: "clean_comps r ([] # cs) = clean_comps r cs"
  by (simp add: clean_comps_def clean_step_def)

lemma pcomps_abs_path: "list_all good_comp cs \<Longrightarrow> pcomps (abs_path cs) = cs"
proof (cases cs)
  case Nil
  have "split_on CHR ''/'' ''/'' = [[], []]" by (simp add: split_on_def)
  then show ?thesis using Nil by (simp add: pcomps_def abs_path_def clean_comps_def clean_step_def)
next
  case (Cons c cs')
  assume good: "list_all good_comp cs"
  have "split_on CHR ''/'' (join_with CHR ''/'' cs) = cs"
    using good Cons by (intro split_join) (auto simp: list_all_iff good_comp_def)
  then have "split_on CHR ''/'' (abs_path cs) = [] # cs"
    using split_on_append [of "CHR ''/''" "[]"] by (simp add: abs_path_def)
  then show ?thesis using good clean_comps_good [of cs] by (simp add: pcomps_def clean_comps_Nil)
qed

text \<open>On a rooted path the stack never holds anything but ordinary elements.\<close>

lemma clean_step_rooted:
  "list_all good_comp st \<Longrightarrow> CHR ''/'' \<notin> set c \<Longrightarrow> list_all good_comp (clean_step True st c)"
  by (auto simp: clean_step_def good_comp_def split: list.splits)

lemma foldl_clean_rooted:
  "list_all good_comp st \<Longrightarrow> \<forall>c \<in> set cs. CHR ''/'' \<notin> set c \<Longrightarrow>
    list_all good_comp (foldl (clean_step True) st cs)"
  by (induction cs arbitrary: st) (simp_all add: clean_step_rooted)

lemma pcomps_good: "is_abs p \<Longrightarrow> list_all good_comp (pcomps p)"
  using foldl_clean_rooted [of "[]" "split_on CHR ''/'' p"] split_on_no_sep [of _ "CHR ''/''" p]
  by (auto simp: pcomps_def clean_comps_def list_all_iff)

lemma clean_abs: "is_abs p \<Longrightarrow> clean p = abs_path (pcomps p)"
  by (simp add: clean_def abs_path_def)

lemma pcomps_clean: "is_abs p \<Longrightarrow> pcomps (clean p) = pcomps p"
  by (simp add: clean_abs pcomps_abs_path pcomps_good)

lemma clean_abs_path: "list_all good_comp cs \<Longrightarrow> clean (abs_path cs) = abs_path cs"
  by (simp add: clean_abs pcomps_abs_path)

lemma split_on_append_any: "split_on c (a @ c # b) = split_on c a @ split_on c b"
proof -
  have "split_by P (a @ c # b) = split_by P a @ split_by P b" if "P c" for P
    using that
  proof (induction a)
    case (Cons x a)
    obtain y ys where "split_by P a = y # ys" by (metis neq_Nil_conv split_by_nonempty)
    then show ?case using Cons by auto
  qed simp
  then show ?thesis by (simp add: split_on_def)
qed

lemma is_abs_Nil [simp]: "\<not> is_abs []"
  by (simp add: is_abs_def has_prefix_def)

lemma is_abs_append: "is_abs a \<Longrightarrow> is_abs (a @ b)"
  by (auto simp: is_abs_def has_prefix_def)

lemma pcomps_append:
  assumes "is_abs a"
  shows "pcomps (a @ CHR ''/'' # b) = rev (foldl (clean_step True) (rev (pcomps a)) (split_on CHR ''/'' b))"
  using assms is_abs_append [OF assms, of "CHR ''/'' # b"]
  by (simp add: pcomps_def clean_comps_def split_on_append_any)

lemma join_path_abs:
  assumes "is_abs a" "b \<noteq> []"
  shows "join_path a b = abs_path (pcomps (a @ CHR ''/'' # b))"
  using assms is_abs_append [of a "CHR ''/'' # b"] by (auto simp: join_path_def clean_abs)

lemma pcomps_join_good:
  assumes "is_abs a" "list_all good_comp cs" "cs \<noteq> []"
  shows "pcomps (join_path a (join_with CHR ''/'' cs)) = pcomps a @ cs"
    and "join_path a (join_with CHR ''/'' cs) = abs_path (pcomps a @ cs)"
proof -
  have ne: "join_with CHR ''/'' cs \<noteq> []"
    using assms by (cases cs rule: list.exhaust; cases "tl cs") (auto simp: good_comp_def)
  have "split_on CHR ''/'' (join_with CHR ''/'' cs) = cs"
    using assms by (intro split_join) (auto simp: list_all_iff good_comp_def)
  then have p: "pcomps (a @ CHR ''/'' # join_with CHR ''/'' cs) = pcomps a @ cs"
    using assms by (simp add: pcomps_append foldl_clean_good)
  then show "join_path a (join_with CHR ''/'' cs) = abs_path (pcomps a @ cs)"
    using assms ne by (simp add: join_path_abs)
  then show "pcomps (join_path a (join_with CHR ''/'' cs)) = pcomps a @ cs"
    using assms pcomps_good [OF assms(1)] by (simp add: pcomps_abs_path)
qed

lemma strip_common_append:
  obtains us where "bs = us @ fst (strip_common bs ts)" "ts = us @ snd (strip_common bs ts)"
proof (induction bs ts arbitrary: thesis rule: strip_common.induct)
  case (1 b bs t ts)
  show ?case
  proof (cases "b = t")
    case True
    obtain us where "bs = us @ fst (strip_common bs ts)" "ts = us @ snd (strip_common bs ts)"
      using 1(1) [OF True] by blast
    then show ?thesis using 1(2) [of "b # us"] True by simp
  next
    case False
    then show ?thesis using 1(2) [of "[]"] by simp
  qed
qed auto

lemma strip_common_prefix [simp]: "strip_common bs (bs @ ts) = ([], ts)"
  by (induction bs) (cases ts, auto)

lemma join_butlast:
  "list_all good_comp cs \<Longrightarrow> 2 \<le> length cs \<Longrightarrow>
    join_with c cs = join_with c (butlast cs) @ c # last cs"
proof (induction c cs rule: join_with.induct)
  case (3 c s t ss)
  then show ?case by (cases ss) auto
qed auto

lemma dir_of_abs_path:
  assumes "list_all good_comp cs"
  shows "dir_of (abs_path cs) = abs_path (butlast cs)"
proof -
  have g: "list_all good_comp (butlast cs)" using assms by (auto simp: list_all_iff in_set_butlastD)
  consider "cs = []" | c where "cs = [c]" | "2 \<le> length cs" by (cases cs; cases "tl cs") auto
  then show ?thesis
  proof cases
    case 1
    have "last_index CHR ''/'' ''/'' = Some 0" by (simp add: last_index_def)
    then show ?thesis using 1 clean_abs_path [of "[]"] by (simp add: dir_of_def abs_path_def)
  next
    case 2
    then have "last_index CHR ''/'' (abs_path cs) = Some 0"
      using last_index_cut [of "CHR ''/''" c "[]"] assms by (simp add: abs_path_def good_comp_def)
    then show ?thesis using 2 clean_abs_path [of "[]"] by (simp add: dir_of_def abs_path_def)
  next
    case 3
    have l: "CHR ''/'' \<notin> set (last cs)" using assms 3 by (cases cs) (auto simp: list_all_iff good_comp_def)
    have a: "abs_path cs = abs_path (butlast cs) @ CHR ''/'' # last cs"
      using join_butlast [OF assms 3] by (simp add: abs_path_def)
    then have "last_index CHR ''/'' (abs_path cs) = Some (length (abs_path (butlast cs)))"
      using last_index_cut [OF l, of "abs_path (butlast cs)"] by simp
    then have "dir_of (abs_path cs) = clean (abs_path (butlast cs) @ [CHR ''/''])"
      using a by (simp add: dir_of_def)
    moreover have "pcomps (abs_path (butlast cs) @ [CHR ''/'']) = butlast cs"
      using pcomps_append [of "abs_path (butlast cs)" "[]"] g
      by (simp add: pcomps_abs_path split_on_def clean_step_def)
    ultimately show ?thesis by (simp add: clean_abs is_abs_append)
  qed
qed

end
