(* ===== verification/Wire.thy ===== *)
theory Wire
  imports Prelude
begin

unbundle bit_operations_syntax

section \<open>Package wire: frames on the connection\<close>

text \<open>
  \<open>internal/wire/wire.go\<close>, \<open>crypto.go\<close> and the frame structures of \<open>zfs.go\<close>. The model starts
  where a message has been turned into its payload bytes (\<open>encoding/gob\<close>), and a connection is the
  byte sequence one end has written and the other has not read yet. The cipher
  (\<open>golang.org/x/crypto/chacha20poly1305\<close>) is a parameter, a record with the methods of the
  interface \<open>cipherAEAD\<close> that the code calls; \<open>aead_ok\<close> states what its documentation promises.
\<close>

type_synonym byte = "8 word"
type_synonym bytes = "byte list"

definition proto_version :: int where "proto_version = 1"

definition block_size :: nat where "block_size = 4 * 1024 * 1024"

definition max_frame :: nat where "max_frame = 2 * block_size + 65536 + 64"

subsection \<open>Frame types and messages\<close>

datatype frame_type =
    TWelcome | TMkdir | TRename | TDelete | TRmdir | TSymlink | TFileBegin | TFileData | TFileEnd
  | TFolderACL | TAclCSV | TAck | TPing | TLoopMarker

datatype zfs_frame_type = TZfsHello | TZfsPlan | TZfsChunk | TZfsEnd | TZfsDone | TZfsRotate

fun frame_code :: "frame_type \<Rightarrow> byte" where
  "frame_code TWelcome = 1"
| "frame_code TMkdir = 2"
| "frame_code TRename = 3"
| "frame_code TDelete = 4"
| "frame_code TRmdir = 5"
| "frame_code TSymlink = 6"
| "frame_code TFileBegin = 7"
| "frame_code TFileData = 8"
| "frame_code TFileEnd = 9"
| "frame_code TFolderACL = 10"
| "frame_code TAclCSV = 11"
| "frame_code TAck = 12"
| "frame_code TPing = 13"
| "frame_code TLoopMarker = 14"

fun zfs_frame_code :: "zfs_frame_type \<Rightarrow> byte" where
  "zfs_frame_code TZfsHello = 15"
| "zfs_frame_code TZfsPlan = 16"
| "zfs_frame_code TZfsChunk = 17"
| "zfs_frame_code TZfsEnd = 18"
| "zfs_frame_code TZfsDone = 19"
| "zfs_frame_code TZfsRotate = 20"

record welcome_msg =
  w_proto :: int
  w_version :: string
  w_os :: string
  w_acl_type :: string
  w_key :: string

record wire_op =
  wo_path :: string
  wo_old :: string
  wo_mode :: "32 word"
  wo_mtime :: int
  wo_link :: string
  wo_acl :: string

record file_begin =
  fb_path :: string
  fb_size :: int
  fb_mode :: "32 word"
  fb_mtime :: int

record file_data =
  fd_offset :: int
  fd_hash :: string
  fd_data :: bytes

record folder_acl =
  fa_path :: string
  fa_acl_type :: string
  fa_text :: string

record ack =
  ack_ok :: bool
  ack_err :: string

record loop_marker =
  lm_service :: string
  lm_stamp :: string

text \<open>A message together with its frame type, as the sender hands it to \<open>Send\<close>.\<close>

datatype msg =
    MWelcome welcome_msg
  | MMkdir wire_op
  | MRename wire_op
  | MDelete wire_op
  | MRmdir wire_op
  | MSymlink wire_op
  | MFileBegin file_begin
  | MFileData file_data
  | MFileEnd string
  | MFolderACL folder_acl
  | MAclCSV bytes
  | MAck ack
  | MPing
  | MLoopMarker loop_marker

text \<open>
  What \<open>Recv\<close> and \<open>Decode\<close> make of a frame: a message, a payload \<open>Decode\<close> rejects, or a type byte
  that stands for none of the messages.
\<close>

datatype frame_in = Frame msg | Undecodable byte | Other byte

definition mk_ack :: "bool \<Rightarrow> string \<Rightarrow> ack" where
  "mk_ack ok e = \<lparr>ack_ok = ok, ack_err = e\<rparr>"

subsection \<open>Sealing a payload\<close>

record aead =
  nonce_size :: nat
  overhead :: nat
  aead_seal :: "bytes \<Rightarrow> bytes \<Rightarrow> bytes \<Rightarrow> bytes"
  aead_open :: "bytes \<Rightarrow> bytes \<Rightarrow> bytes \<Rightarrow> bytes option"

text \<open>
  \<open>Seal(nonce, nonce, plaintext, type)\<close> appends the ciphertext to the nonce. The nonce is what
  \<open>rand.Read\<close> delivered, \<open>None\<close> if it failed.
\<close>

definition seal :: "aead \<Rightarrow> bytes option \<Rightarrow> byte \<Rightarrow> bytes \<Rightarrow> bytes option" where
  "seal a rnd t p = map_option (\<lambda>nonce. nonce @ aead_seal a nonce p [t]) rnd"

definition open_frame :: "aead \<Rightarrow> byte \<Rightarrow> bytes \<Rightarrow> bytes option" where
  "open_frame a t sealed =
     (let ns = nonce_size a
      in if length sealed < ns then None
         else aead_open a (take ns sealed) (drop ns sealed) [t])"

definition aead_ok :: "aead \<Rightarrow> bool" where
  "aead_ok a \<longleftrightarrow>
     (\<forall>n p ad. length n = nonce_size a \<longrightarrow>
        aead_open a n (aead_seal a n p ad) ad = Some p \<and> length (aead_seal a n p ad) = length p + overhead a)"

subsection \<open>Frames\<close>

definition put_u32 :: "32 word \<Rightarrow> bytes" where
  "put_u32 w = [ucast (drop_bit 24 w), ucast (drop_bit 16 w), ucast (drop_bit 8 w), ucast w]"

fun get_u32 :: "bytes \<Rightarrow> 32 word" where
  "get_u32 [a, b, c, d] =
     push_bit 24 (ucast a) OR push_bit 16 (ucast b) OR push_bit 8 (ucast c) OR ucast d"
| "get_u32 _ = 0"

datatype send_error = SealFailed byte

datatype recv_error = Eof | TooLarge nat | DecryptFailed byte

definition frame_bytes :: "byte \<Rightarrow> bytes \<Rightarrow> bytes" where
  "frame_bytes t payload = t # put_u32 (of_nat (length payload)) @ payload"

definition send :: "aead option \<Rightarrow> bytes option \<Rightarrow> byte \<Rightarrow> bytes \<Rightarrow> send_error + bytes" where
  "send ae rnd t payload =
     (case ae of
        None \<Rightarrow> Inr (frame_bytes t payload)
      | Some a \<Rightarrow>
          (case seal a rnd t payload of
             None \<Rightarrow> Inl (SealFailed t)
           | Some sealed \<Rightarrow> Inr (frame_bytes t sealed)))"

text \<open>\<open>Recv\<close> on the bytes not yet read: its result, and the bytes left.\<close>

definition open_payload :: "aead option \<Rightarrow> byte \<Rightarrow> bytes \<Rightarrow> recv_error + byte \<times> bytes" where
  "open_payload ae t p =
     (case ae of
        None \<Rightarrow> Inr (t, p)
      | Some a \<Rightarrow> (case open_frame a t p of None \<Rightarrow> Inl (DecryptFailed t) | Some q \<Rightarrow> Inr (t, q)))"

definition recv :: "aead option \<Rightarrow> bytes \<Rightarrow> (recv_error + byte \<times> bytes) \<times> bytes" where
  "recv ae s =
     (if length s < 5 then (Inl Eof, [])
      else let t = s ! 0; n = unat (get_u32 (take 4 (drop 1 s))); s1 = drop 5 s
           in if n > max_frame then (Inl (TooLarge n), s1)
              else if length s1 < n then (Inl Eof, [])
              else (open_payload ae t (take n s1), drop n s1))"

text \<open>Reading frames until \<open>Recv\<close> reports an error, as every read loop of the program does.\<close>

function recv_all :: "aead option \<Rightarrow> bytes \<Rightarrow> (byte \<times> bytes) list \<times> recv_error" where
  "recv_all ae s =
     (case recv ae s of
        (Inl err, _) \<Rightarrow> ([], err)
      | (Inr f, rest) \<Rightarrow> (case recv_all ae rest of (fs, err) \<Rightarrow> (f # fs, err)))"
  by pat_completeness auto

termination
proof (relation "measure (\<lambda>(ae, s). length s)", goal_cases)
  case 1
  then show ?case by simp
next
  case (2 ae s x y f)
  then show ?case by (auto simp: recv_def Let_def split: if_splits)
qed

declare recv_all.simps [simp del]

subsection \<open>Lemmas\<close>

lemma frame_codes: "frame_code t = frame_code t' \<longleftrightarrow> t = t'"
  by (cases t; cases t') simp_all

lemma put_u32_length [simp]: "length (put_u32 w) = 4"
  by (simp add: put_u32_def)

lemma get_put_u32 [simp]: "get_u32 (put_u32 w) = w"
proof (rule bit_word_eqI)
  fix n
  assume "n < LENGTH(32)"
  then have n: "n < 32" by simp
  consider "n < 8" | "8 \<le> n" "n < 16" | "16 \<le> n" "n < 24" | "24 \<le> n" "n < 32"
    using n by linarith
  then show "bit (get_u32 (put_u32 w)) n = bit w n"
    by cases (auto simp: put_u32_def bit_simps)
qed

lemma put_get_u32: "length h = 4 \<Longrightarrow> put_u32 (get_u32 h) = h"
proof -
  assume "length h = 4"
  then obtain a b c d where "h = [a, b, c, d]"
    by (auto simp: numeral_eq_Suc length_Suc_conv)
  then show ?thesis
    by (auto simp: put_u32_def bit_simps bit_eq_iff dest: bit_imp_le_length)
qed

lemma recv_frame:
  assumes "length p \<le> max_frame"
  shows "recv ae (frame_bytes t p @ rest) = (open_payload ae t p, rest)"
proof -
  have "length p < 2 ^ 32" using assms by (simp add: max_frame_def block_size_def)
  then have u: "unat (word_of_nat (length p) :: 32 word) = length p"
    by (simp add: unat_of_nat)
  have f: "take 4 (drop 1 (frame_bytes t p @ rest)) = put_u32 (of_nat (length p))"
    "drop 5 (frame_bytes t p @ rest) = p @ rest" "(frame_bytes t p @ rest) ! 0 = t"
    "\<not> length (frame_bytes t p @ rest) < 5"
    by (simp_all add: frame_bytes_def put_u32_def)
  show ?thesis
    unfolding recv_def f using assms u f by (simp add: Let_def)
qed

lemma recv_cut_frame:
  assumes "length p \<le> max_frame" "k < length (frame_bytes t p)"
  shows "recv ae (take k (frame_bytes t p)) = (Inl Eof, [])"
proof (cases "k < 5")
  case True
  then have "length (take k (frame_bytes t p)) < 5" by simp
  then show ?thesis unfolding recv_def by (rule if_P)
next
  case False
  have "length p < 2 ^ 32" using assms by (simp add: max_frame_def block_size_def)
  then have u: "unat (word_of_nat (length p) :: 32 word) = length p"
    by (simp add: unat_of_nat)
  obtain j where j: "k = 5 + j" using False by (metis le_add_diff_inverse not_less)
  have f: "take k (frame_bytes t p) = t # put_u32 (of_nat (length p)) @ take j p"
    by (simp add: frame_bytes_def put_u32_def j numeral_eq_Suc)
  have g: "take 4 (drop 1 (t # put_u32 w @ q)) = put_u32 w" "drop 5 (t # put_u32 w @ q) = q"
    "\<not> length (t # put_u32 w @ q) < 5" for w q
    by (simp_all add: put_u32_def)
  have "j < length p" using assms(2) j by (simp add: frame_bytes_def)
  then show ?thesis unfolding f recv_def g using u assms(1) by (simp add: Let_def)
qed

lemma open_sealed:
  assumes "aead_ok a" "length n = nonce_size a"
  shows "open_payload (Some a) t (n @ aead_seal a n p [t]) = Inr (t, p)"
  using assms by (simp add: open_payload_def open_frame_def aead_ok_def)

subsection \<open>A conversation\<close>

text \<open>
  What the two ends rely on: a frame written at one end is the next frame read at the other, type
  and payload unchanged, whatever follows it. \<open>write_all\<close> is a run of \<open>Send\<close> calls that stops at the
  first failure.
\<close>

fun write_all :: "('m \<Rightarrow> send_error + bytes) \<Rightarrow> 'm list \<Rightarrow> send_error + bytes" where
  "write_all wr [] = Inr []"
| "write_all wr (m # ms) =
     (case wr m of
        Inl err \<Rightarrow> Inl err
      | Inr b \<Rightarrow> (case write_all wr ms of Inl err \<Rightarrow> Inl err | Inr bs \<Rightarrow> Inr (b @ bs)))"

locale framed =
  fixes wr :: "'m \<Rightarrow> send_error + bytes"
    and content :: "'m \<Rightarrow> byte \<times> bytes"
    and fits :: "'m \<Rightarrow> bool"
    and rd :: "bytes \<Rightarrow> (recv_error + byte \<times> bytes) \<times> bytes"
    and rd_all :: "bytes \<Rightarrow> (byte \<times> bytes) list \<times> recv_error"
  assumes rd_wr: "fits m \<Longrightarrow> \<exists>b. wr m = Inr b \<and> rd (b @ rest) = (Inr (content m), rest)"
    and all_step: "rd s = (Inr f, rest) \<Longrightarrow> rd_all s = (f # fst (rd_all rest), snd (rd_all rest))"
    and all_end: "rd_all [] = ([], Eof)"
begin

lemma conversation: "list_all fits ms \<Longrightarrow> \<exists>b. write_all wr ms = Inr b \<and> rd_all b = (map content ms, Eof)"
proof (induction ms)
  case Nil
  then show ?case by (simp add: all_end)
next
  case (Cons m ms)
  then obtain bs where bs: "write_all wr ms = Inr bs" "rd_all bs = (map content ms, Eof)"
    by auto
  obtain b where b: "wr m = Inr b" "rd (b @ bs) = (Inr (content m), bs)"
    using rd_wr [of m bs] Cons.prems by auto
  show ?case using b(1) bs all_step [OF b(2)] by simp
qed

end

text \<open>
  A message is what \<open>rand.Read\<close> delivers for its nonce, its type and its payload. It fits when the
  frame stays within the limit of \<open>Recv\<close>.
\<close>

type_synonym outgoing = "bytes option \<times> byte \<times> bytes"

fun send_msg :: "aead option \<Rightarrow> outgoing \<Rightarrow> send_error + bytes" where
  "send_msg ae (rnd, t, p) = send ae rnd t p"

fun msg_fits :: "aead option \<Rightarrow> outgoing \<Rightarrow> bool" where
  "msg_fits None (rnd, t, p) \<longleftrightarrow> length p \<le> max_frame"
| "msg_fits (Some a) (rnd, t, p) \<longleftrightarrow>
     (case rnd of None \<Rightarrow> False | Some n \<Rightarrow> length n = nonce_size a) \<and>
     nonce_size a + length p + overhead a \<le> max_frame"

lemma recv_all_end: "recv_all ae [] = ([], Eof)"
  by (subst recv_all.simps) (simp add: recv_def)

lemma recv_all_step: "recv ae s = (Inr f, rest) \<Longrightarrow> recv_all ae s = (f # fst (recv_all ae rest), snd (recv_all ae rest))"
  by (subst recv_all.simps) (simp split: prod.splits)

lemma recv_sent:
  assumes "case ae of None \<Rightarrow> True | Some a \<Rightarrow> aead_ok a" "msg_fits ae m"
  shows "\<exists>b. send_msg ae m = Inr b \<and> recv ae (b @ rest) = (Inr (snd m), rest)"
proof -
  obtain rnd t p where m: "m = (rnd, t, p)" by (cases m)
  show ?thesis
  proof (cases ae)
    case None
    then show ?thesis using assms m by (simp add: send_def recv_frame open_payload_def)
  next
    case (Some a)
    then obtain n where n: "rnd = Some n" "length n = nonce_size a"
      using assms m by (auto split: option.splits)
    have "length (n @ aead_seal a n p [t]) \<le> max_frame"
      using assms m n Some by (simp add: aead_ok_def)
    then show ?thesis
      using assms m n Some open_sealed [of a n t p] by (simp add: send_def seal_def recv_frame)
  qed
qed

interpretation plain: framed "send_msg None" snd "msg_fits None" "recv None" "recv_all None"
  using recv_sent [of None] by unfold_locales (auto intro: recv_all_step recv_all_end simp del: msg_fits.simps)

lemma sealed_framed:
  "aead_ok a \<Longrightarrow> framed (send_msg (Some a)) snd (msg_fits (Some a)) (recv (Some a)) (recv_all (Some a))"
  using recv_sent [of "Some a"] by unfold_locales (auto intro: recv_all_step recv_all_end simp del: msg_fits.simps)

lemmas sealed_conversation = framed.conversation [OF sealed_framed]

text \<open>
  C16. An encrypted connection delivers: any sequence of messages that fit the frame limit is sent
  without error, and the other end reads exactly these types and payloads in this order, and then the
  end of the stream. The hypothesis on the cipher is its documented contract.
\<close>

theorem encrypted_conversation:
  assumes "aead_ok a" "list_all (msg_fits (Some a)) ms"
  shows "\<exists>b. write_all (send_msg (Some a)) ms = Inr b \<and> recv_all (Some a) b = (map snd ms, Eof)"
  using assms by (rule sealed_conversation)

theorem encrypted_conversation_witness:
  "\<exists>b. write_all (send_msg (Some \<lparr>nonce_size = 1, overhead = 0,
      aead_seal = (\<lambda>n p ad. map (\<lambda>b. b XOR hd n) p), aead_open = (\<lambda>n c ad. Some (map (\<lambda>b. b XOR hd n) c))\<rparr>))
      [(Some [7], 3, [1, 2]), (Some [9], 13, [])] = Inr b"
proof -
  let ?a = "\<lparr>nonce_size = 1, overhead = 0, aead_seal = (\<lambda>n p ad. map (\<lambda>b. b XOR hd n) p),
    aead_open = (\<lambda>n c ad. Some (map (\<lambda>b. b XOR hd n) c))\<rparr>"
  have "aead_ok ?a" by (simp add: aead_ok_def o_def xor.assoc)
  then show ?thesis
    using encrypted_conversation [of ?a "[(Some [7], 3, [1, 2]), (Some [9], 13, [])]"]
    by (auto simp: max_frame_def block_size_def)
qed

lemma recv_plain_frame:
  assumes "recv None s = (Inr (t, q), rest)"
  shows "length q \<le> max_frame \<and> s = frame_bytes t q @ rest"
proof -
  let ?h = "take 4 (drop 1 s)"
  let ?n = "unat (get_u32 ?h)"
  have r: "\<not> length s < 5" "\<not> max_frame < ?n" "\<not> length (drop 5 s) < ?n" "t = s ! 0"
    "q = take ?n (drop 5 s)" "rest = drop ?n (drop 5 s)"
    using assms by (auto simp: recv_def Let_def open_payload_def split: if_splits)
  then have lq: "length q = ?n" by simp
  have "s = s ! 0 # drop 1 s" using r(1) by (cases s) auto
  also have "drop 1 s = ?h @ drop 5 s" using append_take_drop_id [of 4 "drop 1 s"] by simp
  also have "drop 5 s = q @ rest" unfolding r(5,6) by (rule append_take_drop_id [symmetric])
  also have "?h = put_u32 (of_nat (length q))" using r(1) lq put_get_u32 [of ?h] by simp
  finally show ?thesis using r lq by (simp add: frame_bytes_def)
qed

text \<open>
  \<open>Recv\<close> is safe on whatever the peer sends: a payload it accepts is the payload of the frame at
  the head of the stream and has at most 8 MiB and a few bytes, a declared length above that is
  refused before anything is read or allocated for it, and a frame cut off at any byte is reported as
  the end of the stream, never delivered.
\<close>

theorem recv_bounded:
  "(recv None s = (Inr (t, q), rest) \<longrightarrow> length q \<le> 8454208 \<and> s = frame_bytes t q @ rest) \<and>
   (5 \<le> length s \<and> 8454208 < unat (get_u32 (take 4 (drop 1 s))) \<longrightarrow>
      recv ae s = (Inl (TooLarge (unat (get_u32 (take 4 (drop 1 s))))), drop 5 s)) \<and>
   (length p \<le> 8454208 \<and> k < length (frame_bytes t p) \<longrightarrow> recv ae (take k (frame_bytes t p)) = (Inl Eof, []))"
proof -
  have m: "max_frame = 8454208" by (simp add: max_frame_def block_size_def)
  show ?thesis
    using recv_plain_frame [of s t q rest] recv_cut_frame [of p k t ae] unfolding m
    by (auto simp: recv_def m Let_def)
qed

theorem recv_bounded_witness:
  "recv None (take 6 (frame_bytes 8 [1, 2, 3])) = (Inl Eof, [])"
  using recv_bounded [of "[]" 8 "[]" "[]" None "[1, 2, 3]" 6] by (simp add: frame_bytes_def)

end
