(* ===== verification/FileSys.thy ===== *)
theory FileSys
  imports Paths Wire
begin

section \<open>The file system the program runs on\<close>

text \<open>
  The calls of package \<open>os\<close> the sources make, on a finite map from path elements to nodes. A file
  carries an inode number, so that an open handle keeps reaching its file when the path is renamed or
  removed. A world adds the outside: every call may fail, and which ones do is an argument of the
  world; a failing call reports \<open>EIO\<close> and changes nothing. Owners, permission checks and the umask are
  not modelled, and a symbolic link is a leaf: no path leads through one. \<open>wd_cmds\<close> is the sequence of
  external commands run so far (the ACL tools, \<open>rclone\<close>).
\<close>

type_synonym path = "string list"

datatype io_error = ENOENT | ENOTDIR | EEXIST | ENOTEMPTY | EISDIR | EINVAL | EIO

record file_node =
  f_ino :: nat
  f_data :: bytes
  f_mode :: "32 word"
  f_mtime :: int

datatype node = NDir "32 word" | NFile file_node | NSym string

record fs =
  fs_nodes :: "(path, node) amap"
  fs_next :: nat

record world =
  wd_fs :: fs
  wd_tick :: nat
  wd_fault :: "nat \<Rightarrow> bool"
  wd_cmds :: "string list list"

definition look :: "fs \<Rightarrow> path \<Rightarrow> node option" where
  "look s p = map_of (fs_nodes s) p"

abbreviation wlook :: "world \<Rightarrow> path \<Rightarrow> node option" where
  "wlook w p \<equiv> look (wd_fs w) p"

subsection \<open>Sequencing\<close>

text \<open>
  A call takes the world and gives an error or a result, and the world after it. The error type is
  that of the calling function.
\<close>

type_synonym ('e, 'a) io = "world \<Rightarrow> ('e + 'a) \<times> world"

definition ret :: "'a \<Rightarrow> ('e, 'a) io" where
  "ret x w = (Inr x, w)"

definition fail_with :: "'e \<Rightarrow> ('e, 'a) io" where
  "fail_with e w = (Inl e, w)"

definition seqio :: "('e, 'a) io \<Rightarrow> ('a \<Rightarrow> ('e, 'b) io) \<Rightarrow> ('e, 'b) io" where
  "seqio m f w = (case m w of (Inl e, w') \<Rightarrow> (Inl e, w') | (Inr x, w') \<Rightarrow> f x w')"

text \<open>A call whose result is dropped, as in a bare \<open>os.Remove(p)\<close>, and a call whose error is wrapped.\<close>

definition ignoring :: "('e, 'a) io \<Rightarrow> ('f, unit) io" where
  "ignoring m w = (Inr (), snd (m w))"

definition wrap :: "('e \<Rightarrow> 'f) \<Rightarrow> ('e, 'a) io \<Rightarrow> ('f, 'a) io" where
  "wrap g m w = (case m w of (Inl e, w') \<Rightarrow> (Inl (g e), w') | (Inr x, w') \<Rightarrow> (Inr x, w'))"

definition sys :: "(fs \<Rightarrow> io_error + 'a \<times> fs) \<Rightarrow> (io_error, 'a) io" where
  "sys f w =
     (let w1 = w\<lparr>wd_tick := Suc (wd_tick w)\<rparr>
      in if wd_fault w (wd_tick w) then (Inl EIO, w1)
         else case f (wd_fs w) of
           Inl e \<Rightarrow> (Inl e, w1)
         | Inr (x, s) \<Rightarrow> (Inr x, w1\<lparr>wd_fs := s\<rparr>))"

subsection \<open>The calls\<close>

definition is_dir :: "fs \<Rightarrow> path \<Rightarrow> bool" where
  "is_dir s p \<longleftrightarrow> p = [] \<or> (case look s p of Some (NDir m) \<Rightarrow> True | _ \<Rightarrow> False)"

text \<open>Why a directory cannot be reached: the first of its ancestors, or itself, that is missing or not one.\<close>

definition dir_err :: "fs \<Rightarrow> path \<Rightarrow> io_error option" where
  "dir_err s d =
     (case filter (\<lambda>p. \<not> is_dir s p) (prefixes d) of
        [] \<Rightarrow> None
      | p # _ \<Rightarrow> Some (if look s p = None then ENOENT else ENOTDIR))"

definition in_dir :: "fs \<Rightarrow> path \<Rightarrow> io_error + 'a \<Rightarrow> io_error + 'a" where
  "in_dir s p r = (case dir_err s (butlast p) of Some e \<Rightarrow> Inl e | None \<Rightarrow> r)"

definition put_node :: "path \<Rightarrow> node \<Rightarrow> fs \<Rightarrow> fs" where
  "put_node p n s = s\<lparr>fs_nodes := AList.update p n (fs_nodes s)\<rparr>"

definition del_node :: "path \<Rightarrow> fs \<Rightarrow> fs" where
  "del_node p s = s\<lparr>fs_nodes := AList.delete p (fs_nodes s)\<rparr>"

definition fs_mkdir :: "path \<Rightarrow> 32 word \<Rightarrow> fs \<Rightarrow> io_error + unit \<times> fs" where
  "fs_mkdir p m s =
     in_dir s p (if p = [] \<or> look s p \<noteq> None then Inl EEXIST else Inr ((), put_node p (NDir m) s))"

text \<open>\<open>os.MkdirAll\<close>: the missing directories from the top down.\<close>

fun mkdir_each :: "path list \<Rightarrow> 32 word \<Rightarrow> (io_error, unit) io" where
  "mkdir_each [] m w = ret () w"
| "mkdir_each (p # ps) m w =
     (if is_dir (wd_fs w) p then mkdir_each ps m w
      else if wlook w p \<noteq> None then (Inl ENOTDIR, w)
      else seqio (sys (fs_mkdir p m)) (\<lambda>_. mkdir_each ps m) w)"

definition mkdir_all :: "path \<Rightarrow> 32 word \<Rightarrow> (io_error, unit) io" where
  "mkdir_all p m = mkdir_each (prefixes p) m"

text \<open>\<open>os.Remove\<close>: a file, a link or an empty directory.\<close>

definition fs_remove :: "path \<Rightarrow> fs \<Rightarrow> io_error + unit \<times> fs" where
  "fs_remove p s =
     in_dir s p
       (case look s p of
          None \<Rightarrow> Inl ENOENT
        | Some (NDir m) \<Rightarrow>
            if list_ex (\<lambda>(q, n). strict_prefix p q) (fs_nodes s) then Inl ENOTEMPTY
            else Inr ((), del_node p s)
        | Some _ \<Rightarrow> Inr ((), del_node p s))"

text \<open>\<open>os.RemoveAll\<close>: the path and everything under it; a missing path is no error.\<close>

definition fs_remove_all :: "path \<Rightarrow> fs \<Rightarrow> io_error + unit \<times> fs" where
  "fs_remove_all p s =
     (case dir_err s (butlast p) of
        Some ENOTDIR \<Rightarrow> Inl ENOTDIR
      | Some e \<Rightarrow> Inr ((), s)
      | None \<Rightarrow> Inr ((), s\<lparr>fs_nodes := filter (\<lambda>(q, n). \<not> prefix p q) (fs_nodes s)\<rparr>))"

text \<open>
  \<open>os.Rename\<close>: an existing directory at the new path is refused (\<open>EEXIST\<close>), a file or link there is
  replaced, unless a directory is moved onto it. A directory moves with everything under it.
\<close>

definition moved :: "path \<Rightarrow> path \<Rightarrow> (path, node) amap \<Rightarrow> (path, node) amap" where
  "moved old new m =
     map (\<lambda>(q, n). (new @ drop (length old) q, n)) (filter (\<lambda>(q, n). prefix old q) m) @
     filter (\<lambda>(q, n). \<not> prefix old q \<and> \<not> prefix new q) m"

definition fs_rename :: "path \<Rightarrow> path \<Rightarrow> fs \<Rightarrow> io_error + unit \<times> fs" where
  "fs_rename old new s =
     in_dir s old
       (in_dir s new
         (case look s old of
            None \<Rightarrow> Inl ENOENT
          | Some n \<Rightarrow>
              if is_dir s new then Inl EEXIST
              else if is_dir s old \<and> look s new \<noteq> None then Inl ENOTDIR
              else if strict_prefix old new then Inl EINVAL
              else if old = new then Inr ((), s)
              else Inr ((), s\<lparr>fs_nodes := moved old new (fs_nodes s)\<rparr>)))"

definition fs_symlink :: "string \<Rightarrow> path \<Rightarrow> fs \<Rightarrow> io_error + unit \<times> fs" where
  "fs_symlink target p s =
     in_dir s p (if p = [] \<or> look s p \<noteq> None then Inl EEXIST else Inr ((), put_node p (NSym target) s))"

definition fs_readlink :: "path \<Rightarrow> fs \<Rightarrow> io_error + string \<times> fs" where
  "fs_readlink p s =
     in_dir s p (case look s p of Some (NSym t) \<Rightarrow> Inr (t, s) | None \<Rightarrow> Inl ENOENT | _ \<Rightarrow> Inl EINVAL)"

definition new_file :: "nat \<Rightarrow> 32 word \<Rightarrow> file_node" where
  "new_file i m = \<lparr>f_ino = i, f_data = [], f_mode = m, f_mtime = 0\<rparr>"

text \<open>
  \<open>O_CREATE|O_EXCL\<close> as \<open>os.CreateTemp\<close> uses it (the handle is the inode number), and
  \<open>O_CREATE|O_TRUNC\<close> as \<open>os.OpenFile\<close> and \<open>os.WriteFile\<close> use it.
\<close>

definition fs_create_excl :: "path \<Rightarrow> 32 word \<Rightarrow> fs \<Rightarrow> io_error + nat \<times> fs" where
  "fs_create_excl p m s =
     in_dir s p
       (if p = [] \<or> look s p \<noteq> None then Inl EEXIST
        else Inr (fs_next s, (put_node p (NFile (new_file (fs_next s) m)) s)\<lparr>fs_next := Suc (fs_next s)\<rparr>))"

definition on_ino :: "nat \<Rightarrow> (file_node \<Rightarrow> file_node) \<Rightarrow> node \<Rightarrow> node" where
  "on_ino i g n = (case n of NFile f \<Rightarrow> NFile (if f_ino f = i then g f else f) | _ \<Rightarrow> n)"

definition upd_ino :: "nat \<Rightarrow> (file_node \<Rightarrow> file_node) \<Rightarrow> fs \<Rightarrow> fs" where
  "upd_ino i g s = s\<lparr>fs_nodes := map (\<lambda>(q, n). (q, on_ino i g n)) (fs_nodes s)\<rparr>"

definition fs_create_trunc :: "path \<Rightarrow> 32 word \<Rightarrow> fs \<Rightarrow> io_error + nat \<times> fs" where
  "fs_create_trunc p m s =
     in_dir s p
       (case look s p of
          None \<Rightarrow> fs_create_excl p m s
        | Some (NFile f) \<Rightarrow> Inr (f_ino f, upd_ino (f_ino f) (f_data_update (\<lambda>_. [])) s)
        | Some (NDir _) \<Rightarrow> Inl EISDIR
        | Some (NSym _) \<Rightarrow> Inl EINVAL)"

text \<open>\<open>WriteAt\<close>: a negative offset is an error, a gap is filled with zero bytes.\<close>

definition write_at_data :: "nat \<Rightarrow> bytes \<Rightarrow> bytes \<Rightarrow> bytes" where
  "write_at_data off d old =
     take off old @ replicate (off - length old) 0 @ d @ drop (off + length d) old"

definition fs_write_at :: "nat \<Rightarrow> int \<Rightarrow> bytes \<Rightarrow> fs \<Rightarrow> io_error + unit \<times> fs" where
  "fs_write_at i off d s =
     (if off < 0 then Inl EINVAL
      else if d = [] then Inr ((), s)
      else Inr ((), upd_ino i (f_data_update (write_at_data (nat off) d)) s))"

definition fs_sync :: "fs \<Rightarrow> io_error + unit \<times> fs" where
  "fs_sync s = Inr ((), s)"

definition fs_on_file :: "path \<Rightarrow> (file_node \<Rightarrow> file_node) \<Rightarrow> fs \<Rightarrow> io_error + unit \<times> fs" where
  "fs_on_file p g s =
     in_dir s p
       (case look s p of
          Some (NFile f) \<Rightarrow> Inr ((), upd_ino (f_ino f) g s)
        | Some _ \<Rightarrow> Inr ((), s)
        | None \<Rightarrow> Inl ENOENT)"

definition fs_chmod :: "path \<Rightarrow> 32 word \<Rightarrow> fs \<Rightarrow> io_error + unit \<times> fs" where
  "fs_chmod p m = fs_on_file p (f_mode_update (\<lambda>_. m))"

definition fs_chtimes :: "path \<Rightarrow> int \<Rightarrow> fs \<Rightarrow> io_error + unit \<times> fs" where
  "fs_chtimes p t = fs_on_file p (f_mtime_update (\<lambda>_. t))"

definition fs_open :: "path \<Rightarrow> fs \<Rightarrow> io_error + node \<times> fs" where
  "fs_open p s = in_dir s p (case look s p of None \<Rightarrow> Inl ENOENT | Some n \<Rightarrow> Inr (n, s))"

subsection \<open>Lookups after a call\<close>

lemma look_put [simp]: "look (put_node p n s) q = (if q = p then Some n else look s q)"
  by (simp add: look_def put_node_def map_of_update)

lemma look_del [simp]: "look (del_node p s) q = (if q = p then None else look s q)"
  by (simp add: look_def del_node_def map_of_delete)

lemma look_next [simp]: "look (s\<lparr>fs_next := k\<rparr>) q = look s q"
  by (simp add: look_def)

lemma look_upd_ino [simp]: "look (upd_ino i g s) q = map_option (on_ino i g) (look s q)"
  unfolding look_def upd_ino_def by (induction "fs_nodes s") (auto simp: map_of_map)

lemma look_filter: "look (s\<lparr>fs_nodes := filter (\<lambda>(q, n). P q) (fs_nodes s)\<rparr>) q = (if P q then look s q else None)"
  by (simp add: look_def map_of_filter_key)

lemma map_of_rekey:
  "map_of (map (\<lambda>(q, n). (new @ drop (length old) q, n)) (filter (\<lambda>(q, n). prefix old q) m)) q =
     (if prefix new q then map_of m (old @ drop (length new) q) else None)"
proof (induction m)
  case (Cons x m)
  obtain q' n where x: "x = (q', n)" by (cases x)
  show ?case
  proof (cases "prefix old q'")
    case True
    then show ?thesis using Cons by (auto simp: x prefix_def)
  next
    case False
    then have "old @ drop (length new) q \<noteq> q'" by auto
    then show ?thesis using Cons False by (auto simp: x)
  qed
qed simp

lemma look_moved:
  "look (s\<lparr>fs_nodes := moved old new (fs_nodes s)\<rparr>) q =
     (if prefix new q then look s (old @ drop (length new) q)
      else if prefix old q then None else look s q)"
  by (auto simp: look_def moved_def map_add_def map_of_rekey
      map_of_filter_key [where P = "\<lambda>q. \<not> prefix old q \<and> \<not> prefix new q"] split: option.splits)

lemma on_ino_sel [simp]:
  "on_ino i g (NDir m) = NDir m" "on_ino i g (NSym t) = NSym t"
  "on_ino i g (NFile f) = NFile (if f_ino f = i then g f else f)"
  by (simp_all add: on_ino_def)

lemma is_dir_Nil [simp]: "is_dir s []"
  by (simp add: is_dir_def)

lemma is_dir_look: "p \<noteq> [] \<Longrightarrow> is_dir s p \<longleftrightarrow> (\<exists>m. look s p = Some (NDir m))"
  by (auto simp: is_dir_def split: option.splits node.splits)

lemma is_dir_upd_ino [simp]: "is_dir (upd_ino i g s) p = is_dir s p"
  by (auto simp: is_dir_def on_ino_def split: option.splits node.splits)

lemma dir_err_None: "dir_err s d = None \<longleftrightarrow> (\<forall>p. prefix p d \<longrightarrow> is_dir s p)"
  by (auto simp: dir_err_def filter_empty_conv split: list.splits) (metis filter_empty_conv in_set_prefixes list.distinct(1))

lemma dir_err_cong: "(\<And>p. prefix p d \<Longrightarrow> is_dir s p) \<Longrightarrow> dir_err s d = None"
  by (simp add: dir_err_None)

lemma in_dir_Inr: "in_dir s p r = Inr x \<longleftrightarrow> dir_err s (butlast p) = None \<and> r = Inr x"
  by (auto simp: in_dir_def split: option.splits)

subsection \<open>What a call keeps\<close>

definition keeps :: "(fs \<Rightarrow> bool) \<Rightarrow> ('e, 'a) io \<Rightarrow> bool" where
  "keeps P m \<longleftrightarrow> (\<forall>w. P (wd_fs w) \<longrightarrow> P (wd_fs (snd (m w))))"

named_theorems keeps_intros \<open>calls and sequences that keep an invariant of the file system\<close>

lemma keeps_ret [keeps_intros]: "keeps P (ret x)"
  by (simp add: keeps_def ret_def)

lemma keeps_fail [keeps_intros]: "keeps P (fail_with e)"
  by (simp add: keeps_def fail_with_def)

lemma keeps_seqio [keeps_intros]: "keeps P m \<Longrightarrow> (\<And>x. keeps P (f x)) \<Longrightarrow> keeps P (seqio m f)"
  by (auto simp: keeps_def seqio_def split: prod.splits sum.splits)

lemma keeps_ignoring [keeps_intros]: "keeps P m \<Longrightarrow> keeps P (ignoring m)"
  by (simp add: keeps_def ignoring_def)

lemma keeps_wrap [keeps_intros]: "keeps P m \<Longrightarrow> keeps P (wrap g m)"
  by (auto simp: keeps_def wrap_def split: prod.splits sum.splits)

lemma keeps_sys: "(\<And>s x s'. P s \<Longrightarrow> f s = Inr (x, s') \<Longrightarrow> P s') \<Longrightarrow> keeps P (sys f)"
  by (auto simp: keeps_def sys_def Let_def split: prod.splits sum.splits)

lemma keepsD: "keeps P m \<Longrightarrow> P (wd_fs w) \<Longrightarrow> P (wd_fs (snd (m w)))"
  by (simp add: keeps_def)

lemma keeps_mkdir_each:
  assumes "\<And>p. p \<in> set ps \<Longrightarrow> keeps P (sys (fs_mkdir p m)) \<or> (\<forall>s. P s \<longrightarrow> is_dir s p)"
  shows "keeps P (mkdir_each ps m)"
  using assms
proof (induction ps)
  case Nil
  then show ?case by (simp add: keeps_def ret_def)
next
  case (Cons p ps)
  have ps: "keeps P (mkdir_each ps m)" using Cons by simp
  have "keeps P (sys (fs_mkdir p m)) \<or> (\<forall>s. P s \<longrightarrow> is_dir s p)" using Cons.prems by simp
  then show ?case
  proof
    assume "keeps P (sys (fs_mkdir p m))"
    then have "keeps P (seqio (sys (fs_mkdir p m)) (\<lambda>_. mkdir_each ps m))"
      using ps by (intro keeps_seqio) auto
    then show ?thesis using ps by (simp add: keeps_def)
  next
    assume "\<forall>s. P s \<longrightarrow> is_dir s p"
    then show ?thesis using ps by (simp add: keeps_def)
  qed
qed

end
