(* ===== verification/Receiver.thy ===== *)
theory Receiver
  imports FileSys
begin

section \<open>Package remote: the receiver\<close>

text \<open>
  \<open>internal/remote/receiver.go\<close> (\<open>cs-sync serve\<close>), with \<open>acl.Apply\<close> (\<open>internal/acl/acl.go\<close>),
  \<open>state.Dir\<close> (\<open>internal/state/store.go\<close>) and \<open>loopmark.Write\<close> (\<open>internal/loopmark/loopmark.go\<close>),
  which it calls. A connection is a sequence of received frames; the model handles one after the other
  and returns the acks. The tools that set ACLs and the hash function are arguments.
\<close>

record rv_env =
  rv_dest :: string
  rv_acl_type :: string
  rv_version :: string
  rv_os :: string
  rv_key :: string
  rv_allow_ip :: string
  rv_pid :: string
  rv_sha :: "bytes \<Rightarrow> string"
  rv_acl_tool :: "string \<Rightarrow> string \<Rightarrow> string \<Rightarrow> string option"
  rv_tmp_name :: "nat \<Rightarrow> string"

datatype rv_error =
    Io io_error
  | AbsoluteRefused string
  | EscapesDest string
  | BadFrame byte
  | DataWithoutBegin
  | EndWithoutBegin
  | BlockHashMismatch int
  | FileHashMismatch string string
  | AclFailed string
  | UnknownAclType string
  | UnknownFrame byte

text \<open>A connection's state: the world, and the five variables of \<open>handle\<close>.\<close>

record conn =
  cn_world :: world
  cn_tmp :: "(nat \<times> path) option"
  cn_path :: string
  cn_meta :: file_begin
  cn_hashed :: bytes

subsection \<open>Paths under the destination\<close>

definition full :: "string \<Rightarrow> string \<Rightarrow> rv_error + string" where
  "full dest rel =
     (let c = clean rel
      in if is_abs c then Inl (AbsoluteRefused rel)
         else let f = join_path dest c
              in case rel_path dest f of
                   None \<Rightarrow> Inl (EscapesDest rel)
                 | Some r \<Rightarrow>
                     if r = dotdot \<or> has_prefix r (dotdot @ ''/'') then Inl (EscapesDest rel) else Inr f)"

definition full_io :: "rv_env \<Rightarrow> string \<Rightarrow> (rv_error, string) io" where
  "full_io env rel = (case full (rv_dest env) rel of Inl e \<Rightarrow> fail_with e | Inr f \<Rightarrow> ret f)"

subsection \<open>Accepting a connection\<close>

definition admits :: "rv_env \<Rightarrow> string option \<Rightarrow> bool" where
  "admits env host \<longleftrightarrow> rv_allow_ip env = [] \<or> host = Some (rv_allow_ip env)"

definition own_welcome :: "rv_env \<Rightarrow> welcome_msg" where
  "own_welcome env =
     \<lparr>w_proto = proto_version, w_version = rv_version env, w_os = rv_os env,
      w_acl_type = rv_acl_type env, w_key = []\<rparr>"

definition version_refusal :: "int \<Rightarrow> string" where
  "version_refusal peer =
     ''protocol version mismatch: peer='' @ int_str peer @ '' local='' @ int_str proto_version"

text \<open>The receiver's answer to the first frame: whether the session starts, and the acks it sends.\<close>

definition handshake :: "rv_env \<Rightarrow> frame_in option \<Rightarrow> bool \<times> ack list" where
  "handshake env fr =
     (case fr of
        Some (Frame (MWelcome h)) \<Rightarrow>
          if w_proto h \<noteq> proto_version then (False, [mk_ack False (version_refusal (w_proto h))])
          else if rv_key env \<noteq> [] \<and> w_key h \<noteq> rv_key env then (False, [mk_ack False ''transfer key mismatch''])
          else (True, [mk_ack True []])
      | _ \<Rightarrow> (False, []))"

subsection \<open>The operations\<close>

definition mode755 :: "32 word" where "mode755 = 493"
definition mode700 :: "32 word" where "mode700 = 448"
definition mode644 :: "32 word" where "mode644 = 420"
definition mode600 :: "32 word" where "mode600 = 384"

definition acl_apply :: "rv_env \<Rightarrow> string \<Rightarrow> string \<Rightarrow> string \<Rightarrow> (rv_error, unit) io" where
  "acl_apply env q ty txt w =
     (if txt = [] then (Inr (), w)
      else if ty = ''posix'' \<or> ty = ''nfs4'' then
        (case rv_acl_tool env q ty txt of None \<Rightarrow> Inr () | Some e \<Rightarrow> Inl (AclFailed e),
         w\<lparr>wd_cmds := wd_cmds w @ [[''acl'', q, ty, txt]]\<rparr>)
      else if ty = ''none'' then (Inr (), w)
      else (Inl (UnknownAclType ty), w))"

text \<open>\<open>mkdir\<close>: a failing ACL call is logged, not reported.\<close>

definition rv_mkdir :: "rv_env \<Rightarrow> wire_op \<Rightarrow> (rv_error, unit) io" where
  "rv_mkdir env x =
     seqio (full_io env (wo_path x)) (\<lambda>f.
     seqio (wrap Io (mkdir_all (pcomps f) (wo_mode x))) (\<lambda>_.
     if wo_acl x \<noteq> [] then ignoring (acl_apply env f (rv_acl_type env) (wo_acl x)) else ret ()))"

definition rv_rename :: "rv_env \<Rightarrow> wire_op \<Rightarrow> (rv_error, unit) io" where
  "rv_rename env x =
     seqio (full_io env (wo_old x)) (\<lambda>oldp.
     seqio (full_io env (wo_path x)) (\<lambda>newp.
     seqio (wrap Io (mkdir_all (pcomps (dir_of newp)) mode755)) (\<lambda>_.
     wrap Io (sys (fs_rename (pcomps oldp) (pcomps newp))))))"

definition rv_delete :: "rv_env \<Rightarrow> wire_op \<Rightarrow> (rv_error, unit) io" where
  "rv_delete env x =
     seqio (full_io env (wo_path x)) (\<lambda>f w.
       case sys (fs_remove (pcomps f)) w of
         (Inl ENOENT, w') \<Rightarrow> (Inr (), w')
       | (Inl e, w') \<Rightarrow> (Inl (Io e), w')
       | (Inr u, w') \<Rightarrow> (Inr u, w'))"

definition rv_rmdir :: "rv_env \<Rightarrow> wire_op \<Rightarrow> (rv_error, unit) io" where
  "rv_rmdir env x = seqio (full_io env (wo_path x)) (\<lambda>f. wrap Io (sys (fs_remove_all (pcomps f))))"

definition rv_symlink :: "rv_env \<Rightarrow> wire_op \<Rightarrow> (rv_error, unit) io" where
  "rv_symlink env x =
     seqio (full_io env (wo_path x)) (\<lambda>f.
     seqio (ignoring (sys (fs_remove (pcomps f)))) (\<lambda>_.
     seqio (wrap Io (mkdir_all (pcomps (dir_of f)) mode755)) (\<lambda>_.
     wrap Io (sys (fs_symlink (wo_link x) (pcomps f))))))"

text \<open>\<open>state.Dir\<close> and \<open>os.WriteFile\<close>, for \<open>writeAclCSV\<close> and the loop marker.\<close>

definition state_dir :: "string \<Rightarrow> (io_error, string) io" where
  "state_dir root =
     (let d = join_path root ''.backupdata'' in seqio (mkdir_all (pcomps d) mode700) (\<lambda>_. ret d))"

definition write_file :: "path \<Rightarrow> bytes \<Rightarrow> 32 word \<Rightarrow> (io_error, unit) io" where
  "write_file p d m = seqio (sys (fs_create_trunc p m)) (\<lambda>i. seqio (sys (fs_write_at i 0 d)) (\<lambda>_. sys fs_sync))"

definition acl_csv_name :: string where "acl_csv_name = ''cs-sync-acl.csv''"

definition write_acl_csv :: "rv_env \<Rightarrow> bytes \<Rightarrow> (rv_error, unit) io" where
  "write_acl_csv env d =
     wrap Io
       (seqio (state_dir (rv_dest env)) (\<lambda>dir.
        let tmp = pcomps (join_path dir (acl_csv_name @ ''.tmp.'' @ rv_pid env))
        in seqio (write_file tmp d mode600) (\<lambda>_.
           sys (fs_rename tmp (pcomps (join_path dir acl_csv_name))))))"

definition string_bytes :: "string \<Rightarrow> bytes" where
  "string_bytes s = map of_char s"

text \<open>\<open>loopmark.Write\<close>: errors are dropped.\<close>

definition write_marker :: "string \<Rightarrow> string \<Rightarrow> string \<Rightarrow> ('e, unit) io" where
  "write_marker root service stamp =
     (if service = [] \<or> root = [] then ret ()
      else let dir = join_path (join_path root ''.backupdata'') ''loop''
           in ignoring (seqio (mkdir_all (pcomps dir) mode755) (\<lambda>_.
                write_file (pcomps (join_path dir (service @ ''.loop''))) (string_bytes (stamp @ [CHR 0x0A])) mode644)))"

subsection \<open>Receiving a file\<close>

datatype finish = Installed | NotInstalled rv_error | Panicked

text \<open>
  \<open>finishFile\<close>: the deferred \<open>os.Remove(tmpPath)\<close> runs on every way out. The message of a hash
  mismatch slices both hashes to 12 bytes, which panics when one of them is shorter.
\<close>

definition finish_body :: "rv_env \<Rightarrow> path \<Rightarrow> string \<Rightarrow> file_begin \<Rightarrow> bytes \<Rightarrow> string \<Rightarrow> (rv_error, unit) io" where
  "finish_body env tmp rel meta hashed want =
     seqio (wrap Io (sys fs_sync)) (\<lambda>_.
     seqio (wrap Io (sys fs_sync)) (\<lambda>_.
     (if rv_sha env hashed \<noteq> want then fail_with (FileHashMismatch (rv_sha env hashed) want)
      else seqio (wrap Io (sys (fs_chmod tmp (fb_mode meta)))) (\<lambda>_.
           seqio (wrap Io (sys (fs_chtimes tmp (fb_mtime meta)))) (\<lambda>_.
           seqio (full_io env rel) (\<lambda>f.
           wrap Io (sys (fs_rename tmp (pcomps f)))))))))"

definition finish_file ::
  "rv_env \<Rightarrow> path \<Rightarrow> string \<Rightarrow> file_begin \<Rightarrow> bytes \<Rightarrow> string \<Rightarrow> world \<Rightarrow> finish \<times> world" where
  "finish_file env tmp rel meta hashed want w =
     (case finish_body env tmp rel meta hashed want w of
        (res, w1) \<Rightarrow>
          (case res of
             Inr u \<Rightarrow> Installed
           | Inl (FileHashMismatch g h) \<Rightarrow>
               if length g < 12 \<or> length h < 12 then Panicked else NotInstalled (FileHashMismatch g h)
           | Inl e \<Rightarrow> NotInstalled e,
           snd (sys (fs_remove tmp) w1)))"

definition abort_transfer :: "conn \<Rightarrow> conn" where
  "abort_transfer c =
     (case cn_tmp c of
        None \<Rightarrow> c
      | Some (i, tmp) \<Rightarrow>
          c\<lparr>cn_world := snd (sys (fs_remove tmp) (snd (sys fs_sync (cn_world c)))), cn_tmp := None\<rparr>)"

text \<open>
  \<open>gob\<close> leaves a field of the destination alone when the sender's value is zero, and \<open>curMeta\<close> is the
  same variable for every file of the connection.
\<close>

definition decode_begin :: "file_begin \<Rightarrow> file_begin \<Rightarrow> file_begin" where
  "decode_begin new cur =
     \<lparr>fb_path = (if fb_path new = [] then fb_path cur else fb_path new),
      fb_size = (if fb_size new = 0 then fb_size cur else fb_size new),
      fb_mode = (if fb_mode new = 0 then fb_mode cur else fb_mode new),
      fb_mtime = (if fb_mtime new = 0 then fb_mtime cur else fb_mtime new)\<rparr>"

text \<open>\<open>CreateTemp\<close> in the target's directory, with the name the run-time chose for this call.\<close>

definition begin_io :: "rv_env \<Rightarrow> string \<Rightarrow> (rv_error, nat \<times> path) io" where
  "begin_io env rel =
     seqio (full_io env rel) (\<lambda>f.
     let d = pcomps (dir_of f)
     in seqio (wrap Io (mkdir_all d mode755)) (\<lambda>_ w.
          let tmp = d @ [''.cs-sync.tmp.'' @ rv_tmp_name env (wd_tick w)]
          in seqio (wrap Io (sys (fs_create_excl tmp mode600))) (\<lambda>i. ret (i, tmp)) w))"

definition begin_file :: "rv_env \<Rightarrow> file_begin \<Rightarrow> conn \<Rightarrow> (rv_error + unit) \<times> conn" where
  "begin_file env fb c =
     (let c1 = abort_transfer c; m = decode_begin fb (cn_meta c1);
          c2 = c1\<lparr>cn_meta := m, cn_path := fb_path m\<rparr>
      in case begin_io env (fb_path m) (cn_world c2) of
           (Inl e, w) \<Rightarrow> (Inl e, c2\<lparr>cn_world := w\<rparr>)
         | (Inr h, w) \<Rightarrow> (Inr (), c2\<lparr>cn_world := w, cn_tmp := Some h, cn_hashed := []\<rparr>))"

definition block_file :: "rv_env \<Rightarrow> file_data \<Rightarrow> conn \<Rightarrow> (rv_error + unit) \<times> conn" where
  "block_file env fd c =
     (case cn_tmp c of
        None \<Rightarrow> (Inl DataWithoutBegin, c)
      | Some (i, tmp) \<Rightarrow>
          if rv_sha env (fd_data fd) \<noteq> fd_hash fd then (Inl (BlockHashMismatch (fd_offset fd)), abort_transfer c)
          else case sys (fs_write_at i (fd_offset fd) (fd_data fd)) (cn_world c) of
            (Inl e, w) \<Rightarrow> (Inl (Io e), abort_transfer (c\<lparr>cn_world := w\<rparr>))
          | (Inr u, w) \<Rightarrow> (Inr (), c\<lparr>cn_world := w, cn_hashed := cn_hashed c @ fd_data fd\<rparr>))"

definition end_file :: "rv_env \<Rightarrow> string \<Rightarrow> conn \<Rightarrow> (rv_error + unit) option \<times> conn" where
  "end_file env want c =
     (case cn_tmp c of
        None \<Rightarrow> (Some (Inl EndWithoutBegin), c)
      | Some (i, tmp) \<Rightarrow>
          (case finish_file env tmp (cn_path c) (cn_meta c) (cn_hashed c) want (cn_world c) of
             (Installed, w) \<Rightarrow> (Some (Inr ()), c\<lparr>cn_world := w, cn_tmp := None\<rparr>)
           | (NotInstalled e, w) \<Rightarrow> (Some (Inl e), c\<lparr>cn_world := w, cn_tmp := None\<rparr>)
           | (Panicked, w) \<Rightarrow> (None, c\<lparr>cn_world := w\<rparr>)))"

subsection \<open>The frame loop\<close>

definition on_world :: "('e, unit) io \<Rightarrow> conn \<Rightarrow> ('e + unit) option \<times> conn" where
  "on_world m c = (case m (cn_world c) of (r, w) \<Rightarrow> (Some r, c\<lparr>cn_world := w\<rparr>))"

definition folder_acl_io :: "rv_env \<Rightarrow> folder_acl \<Rightarrow> (rv_error, unit) io" where
  "folder_acl_io env fa =
     seqio (if fa_path fa = ''.'' then ret (rv_dest env) else full_io env (fa_path fa)) (\<lambda>f.
     acl_apply env f (fa_acl_type fa) (fa_text fa))"

text \<open>One turn of the loop: the result acked (\<open>None\<close> when the process panics), and the state.\<close>

fun handle_frame :: "rv_env \<Rightarrow> frame_in \<Rightarrow> conn \<Rightarrow> (rv_error + unit) option \<times> conn" where
  "handle_frame env (Frame MPing) c = (Some (Inr ()), c)"
| "handle_frame env (Frame (MLoopMarker m)) c =
     on_world (write_marker (rv_dest env) (lm_service m) (lm_stamp m)) c"
| "handle_frame env (Frame (MMkdir x)) c = on_world (rv_mkdir env x) c"
| "handle_frame env (Frame (MRename x)) c = on_world (rv_rename env x) c"
| "handle_frame env (Frame (MDelete x)) c = on_world (rv_delete env x) c"
| "handle_frame env (Frame (MRmdir x)) c = on_world (rv_rmdir env x) c"
| "handle_frame env (Frame (MSymlink x)) c = on_world (rv_symlink env x) c"
| "handle_frame env (Frame (MFileBegin fb)) c = (case begin_file env fb c of (r, c') \<Rightarrow> (Some r, c'))"
| "handle_frame env (Frame (MFileData fd)) c = (case block_file env fd c of (r, c') \<Rightarrow> (Some r, c'))"
| "handle_frame env (Frame (MFileEnd want)) c = end_file env want c"
| "handle_frame env (Frame (MFolderACL fa)) c = on_world (folder_acl_io env fa) c"
| "handle_frame env (Frame (MAclCSV d)) c = on_world (write_acl_csv env d) c"
| "handle_frame env (Frame (MWelcome h)) c = (Some (Inl (UnknownFrame (frame_code TWelcome))), c)"
| "handle_frame env (Frame (MAck a)) c = (Some (Inl (UnknownFrame (frame_code TAck))), c)"
| "handle_frame env (Undecodable t) c =
     (Some (Inl (BadFrame t)),
      if t = frame_code TFileBegin \<or> t = frame_code TFileData \<or> t = frame_code TFileEnd then abort_transfer c else c)"
| "handle_frame env (Other t) c = (Some (Inl (UnknownFrame t)), c)"

text \<open>
  The loop until the connection closes, with the deferred \<open>abortTransfer\<close>. The last component says
  whether the process panicked.
\<close>

fun session :: "rv_env \<Rightarrow> frame_in list \<Rightarrow> conn \<Rightarrow> (rv_error + unit) list \<times> conn \<times> bool" where
  "session env [] c = ([], abort_transfer c, False)"
| "session env (f # fs) c =
     (case handle_frame env f c of
        (None, c') \<Rightarrow> ([], abort_transfer c', True)
      | (Some r, c') \<Rightarrow> (case session env fs c' of (rs, c'', b) \<Rightarrow> (r # rs, c'', b)))"

subsection \<open>Containment\<close>

lemma clean_comps_ne: "c \<in> set (pcomps p) \<Longrightarrow> c \<noteq> []"
proof -
  have "\<forall>c \<in> set (foldl (clean_step r) st cs). c \<noteq> []" if "\<forall>c \<in> set st. c \<noteq> []" for r st cs
    using that
  proof (induction cs arbitrary: st)
    case (Cons c cs)
    have "\<forall>d \<in> set (clean_step r st c). d \<noteq> []"
      using Cons.prems by (auto simp: clean_step_def dotdot_def split: list.splits)
    then show ?case using Cons.IH by simp
  qed simp
  from this [of "[]" "is_abs p" "split_on CHR ''/'' p"]
  show "c \<in> set (pcomps p) \<Longrightarrow> c \<noteq> []" by (auto simp: pcomps_def clean_comps_def)
qed

lemma clean_ne: "clean p \<noteq> []"
proof (cases "is_abs p \<or> pcomps p = []")
  case True
  then show ?thesis by (auto simp: clean_def)
next
  case False
  then obtain c cs where c: "pcomps p = c # cs" by (cases "pcomps p") auto
  then have "c \<noteq> []" using clean_comps_ne [of c p] by simp
  then show ?thesis using False c by (cases cs) (auto simp: clean_def)
qed

lemma join_dotdot:
  assumes "0 < n"
  shows "join_with CHR ''/'' (replicate n dotdot @ ts) = dotdot \<or>
    has_prefix (join_with CHR ''/'' (replicate n dotdot @ ts)) (dotdot @ ''/'')"
proof -
  obtain m where n: "n = Suc m" using assms by (cases n) auto
  show ?thesis
  proof (cases "replicate m dotdot @ ts")
    case Nil
    then show ?thesis by (simp add: n)
  next
    case (Cons t us)
    then have "join_with CHR ''/'' (replicate n dotdot @ ts) = (dotdot @ ''/'') @ join_with CHR ''/'' (t # us)"
      by (simp add: n)
    then show ?thesis by (metis has_prefix_append)
  qed
qed

lemma join_good_not_dotdot:
  assumes "list_all good_comp ts" "ts \<noteq> []"
  shows "join_with CHR ''/'' ts \<noteq> dotdot \<and> \<not> has_prefix (join_with CHR ''/'' ts) (dotdot @ ''/'')"
proof -
  have nd: "dotdot \<notin> set ts" using assms by (auto simp: list_all_iff good_comp_def)
  have sp: "split_on CHR ''/'' (join_with CHR ''/'' ts) = ts"
    using assms by (intro split_join) (auto simp: list_all_iff good_comp_def)
  have d: "CHR ''/'' \<notin> set dotdot" by (simp add: dotdot_def)
  have "join_with CHR ''/'' ts \<noteq> dotdot"
    using sp nd split_on_word [OF d] by (metis list.set_intros(1))
  moreover have "join_with CHR ''/'' ts \<noteq> dotdot @ CHR ''/'' # z" for z
    using sp nd split_on_append [OF d, of z] by (metis list.set_intros(1))
  moreover have "\<exists>z. s = dotdot @ CHR ''/'' # z" if "has_prefix s (dotdot @ ''/'')" for s
    using that by (auto simp: has_prefix_def prefix_def)
  ultimately show ?thesis by blast
qed

text \<open>The element list a wire path resolves to, and \<open>full\<close> as a test on it.\<close>

definition target :: "string \<Rightarrow> string \<Rightarrow> path" where
  "target dest rel = pcomps (dest @ CHR ''/'' # clean rel)"

lemma target_good: "is_abs dest \<Longrightarrow> list_all good_comp (target dest rel)"
  unfolding target_def by (intro pcomps_good is_abs_append)

lemma rel_path_inside:
  assumes "is_abs dest" "list_all good_comp ts"
  shows "rel_path dest (abs_path (pcomps dest @ ts)) =
    Some (if ts = [] then ''.'' else join_with CHR ''/'' ts)"
proof -
  have g: "list_all good_comp (pcomps dest @ ts)" using assms pcomps_good by simp
  have "clean dest = clean (abs_path (pcomps dest @ ts)) \<longleftrightarrow> ts = []"
    using g assms by (metis append_self_conv clean_abs clean_abs_path pcomps_abs_path pcomps_clean)
  then show ?thesis using assms g by (simp add: rel_path_def pcomps_abs_path)
qed

lemma full_eq:
  assumes "is_abs dest"
  shows "full dest rel =
    (if is_abs (clean rel) then Inl (AbsoluteRefused rel)
     else if prefix (pcomps dest) (target dest rel) then Inr (abs_path (target dest rel))
     else Inl (EscapesDest rel))"
proof -
  let ?D = "pcomps dest" and ?F = "target dest rel"
  have g: "list_all good_comp ?F" "list_all good_comp ?D" using assms target_good pcomps_good by auto
  have f: "join_path dest (clean rel) = abs_path ?F"
    using join_path_abs [OF assms clean_ne] by (simp add: target_def)
  show ?thesis
  proof (cases "prefix ?D ?F")
    case True
    then obtain ts where ts: "?F = ?D @ ts" by (auto simp: prefix_def)
    then have gt: "list_all good_comp ts" using g by simp
    have r: "rel_path dest (abs_path ?F) = Some (if ts = [] then ''.'' else join_with CHR ''/'' ts)"
      using rel_path_inside [OF assms gt] ts by simp
    have "ts \<noteq> [] \<Longrightarrow> join_with CHR ''/'' ts \<noteq> dotdot \<and>
        \<not> has_prefix (join_with CHR ''/'' ts) (dotdot @ ''/'')"
      by (rule join_good_not_dotdot [OF gt])
    moreover have "\<not> has_prefix ''.'' (dotdot @ ''/'')" "''.'' \<noteq> dotdot"
      by (simp_all add: has_prefix_def dotdot_def)
    ultimately show ?thesis using True f r by (auto simp: full_def Let_def)
  next
    case False
    obtain us where us: "?D = us @ fst (strip_common ?D ?F)" "?F = us @ snd (strip_common ?D ?F)"
      using strip_common_append [of ?D ?F] by blast
    define bs ts where "bs = fst (strip_common ?D ?F)" and "ts = snd (strip_common ?D ?F)"
    have sc: "strip_common ?D ?F = (bs, ts)" by (simp add: bs_def ts_def)
    have bs: "bs \<noteq> []" using False us sc by auto
    have "hd bs \<noteq> dotdot" using bs us(1) sc g(2) by (cases bs) (auto simp: good_comp_def)
    moreover have "clean dest \<noteq> clean (abs_path ?F)"
      using False assms g by (metis pcomps_abs_path pcomps_clean is_abs_abs_path prefix_order.refl)
    ultimately have "rel_path dest (abs_path ?F) =
        Some (join_with CHR ''/'' (replicate (length bs) dotdot @ ts))"
      using assms g bs sc by (simp add: rel_path_def pcomps_abs_path)
    then show ?thesis using False f join_dotdot [of "length bs" ts] bs by (auto simp: full_def Let_def)
  qed
qed

end
