(* ===== verification/Receiver_Confined.thy ===== *)
theory Receiver_Confined
  imports Receiver
begin

section \<open>What a peer can reach\<close>

text \<open>
  The receiver never touches anything outside its destination, whatever frames arrive and whatever
  system calls fail, except through the two doors the hypotheses of the theorem close: a loop marker
  whose service id contains a slash, and a file whose path is the destination itself.
\<close>

definition outside_inos :: "path \<Rightarrow> fs \<Rightarrow> nat set" where
  "outside_inos D s0 = {i. \<exists>q f. \<not> prefix D q \<and> look s0 q = Some (NFile f) \<and> f_ino f = i}"

definition confined :: "path \<Rightarrow> fs \<Rightarrow> fs \<Rightarrow> bool" where
  "confined D s0 s \<longleftrightarrow>
     (\<forall>q. \<not> prefix D q \<longrightarrow> look s q = look s0 q) \<and>
     (\<forall>q. strict_prefix q D \<longrightarrow> is_dir s q) \<and>
     (\<forall>p f. prefix D p \<and> look s p = Some (NFile f) \<longrightarrow> f_ino f \<notin> outside_inos D s0) \<and>
     (\<forall>i \<in> outside_inos D s0. i < fs_next s)"

text \<open>What is asked of the file system the receiver starts on.\<close>

definition start_ok :: "path \<Rightarrow> fs \<Rightarrow> bool" where
  "start_ok D s \<longleftrightarrow>
     (\<forall>q. strict_prefix q D \<longrightarrow> is_dir s q) \<and>
     (\<forall>p q f g. prefix D p \<and> \<not> prefix D q \<and> look s p = Some (NFile f) \<and> look s q = Some (NFile g) \<longrightarrow>
        f_ino f \<noteq> f_ino g) \<and>
     (\<forall>q f. look s q = Some (NFile f) \<longrightarrow> f_ino f < fs_next s)"

lemma start_confined: "start_ok D s \<Longrightarrow> confined D s s"
  by (fastforce simp: start_ok_def confined_def outside_inos_def)

lemma next_simps [simp]:
  "fs_next (put_node p n s) = fs_next s" "fs_next (del_node p s) = fs_next s"
  "fs_next (upd_ino i g s) = fs_next s"
  by (simp_all add: put_node_def del_node_def upd_ino_def)

lemma is_dir_outside:
  "(\<forall>q. \<not> prefix D q \<longrightarrow> look s' q = look s q) \<Longrightarrow> \<forall>q. strict_prefix q D \<longrightarrow> is_dir s q \<Longrightarrow>
    \<forall>q. strict_prefix q D \<longrightarrow> is_dir s' q"
  by (metis is_dir_def prefix_order.less_le_not_le)

lemma confinedI:
  assumes "confined D s0 s" "\<And>q. \<not> prefix D q \<Longrightarrow> look s' q = look s q" "fs_next s \<le> fs_next s'"
    "\<And>p f. prefix D p \<Longrightarrow> look s' p = Some (NFile f) \<Longrightarrow> f_ino f \<notin> outside_inos D s0"
  shows "confined D s0 s'"
proof -
  have o: "\<forall>q. \<not> prefix D q \<longrightarrow> look s' q = look s q" using assms(2) by blast
  then have "\<forall>q. strict_prefix q D \<longrightarrow> is_dir s' q"
    using is_dir_outside [OF o] assms(1) by (simp add: confined_def)
  moreover have "\<forall>i \<in> outside_inos D s0. i < fs_next s'"
    using assms(1,3) by (auto simp: confined_def)
  ultimately show ?thesis using assms(1,4) o by (auto simp: confined_def)
qed

lemma confined_inside:
  "confined D s0 s \<Longrightarrow> prefix D p \<Longrightarrow> look s p = Some (NFile f) \<Longrightarrow> f_ino f \<notin> outside_inos D s0"
  by (auto simp: confined_def)

lemma confined_insideE:
  "look s p = Some (NFile f) \<Longrightarrow> f_ino f \<in> outside_inos D s0 \<Longrightarrow> confined D s0 s \<Longrightarrow> prefix D p \<Longrightarrow> R"
  by (auto simp: confined_def)

lemma outside_ino: "confined D s0 s \<Longrightarrow> \<not> prefix D q \<Longrightarrow> look s q = Some (NFile f) \<Longrightarrow> f_ino f \<in> outside_inos D s0"
  by (auto simp: confined_def outside_inos_def)

lemma confined_put:
  assumes "confined D s0 s" "prefix D p" "\<And>f. n = NFile f \<Longrightarrow> f_ino f \<notin> outside_inos D s0"
  shows "confined D s0 (put_node p n s)"
  using assms by (intro confinedI [OF assms(1)]) (auto split: if_splits elim: confined_insideE)

lemma confined_del:
  assumes "confined D s0 s" "prefix D p"
  shows "confined D s0 (del_node p s)"
  using assms by (intro confinedI [OF assms(1)]) (auto split: if_splits elim: confined_insideE)

lemma confined_upd:
  assumes "confined D s0 s" "i \<notin> outside_inos D s0" "\<And>f. f_ino (g f) = f_ino f"
  shows "confined D s0 (upd_ino i g s)"
proof (rule confinedI [OF assms(1)])
  show "look (upd_ino i g s) q = look s q" if "\<not> prefix D q" for q
    using outside_ino [OF assms(1) that] assms(2)
    by (cases "look s q") (auto simp: on_ino_def split: node.splits)
  show "f_ino f \<notin> outside_inos D s0" if "prefix D p" "look (upd_ino i g s) p = Some (NFile f)" for p f
  proof -
    note th = that
    obtain n where n: "look s p = Some n" "on_ino i g n = NFile f" using th(2) by auto
    then obtain h where "n = NFile h" "f_ino f = f_ino h"
      using assms(3) by (cases n) (auto split: if_splits)
    then have "look s p = Some (NFile h)" "f_ino f = f_ino h" using n by simp_all
    then show ?thesis using confined_inside [OF assms(1) th(1)] by simp
  qed
qed simp

lemma confined_next:
  assumes "confined D s0 s" "fs_next s \<le> k"
  shows "confined D s0 (s\<lparr>fs_next := k\<rparr>)"
  using assms by (intro confinedI [OF assms(1)]) (auto elim: confined_insideE)

lemma confined_fresh: "confined D s0 s \<Longrightarrow> fs_next s \<notin> outside_inos D s0"
  by (auto simp: confined_def)

lemma prefix_extend: "prefix D q \<Longrightarrow> prefix q p \<Longrightarrow> prefix D p"
  by (rule prefix_order.trans)

lemma confined_moved:
  assumes "confined D s0 s" "prefix D old" "prefix D new"
  shows "confined D s0 (s\<lparr>fs_nodes := moved old new (fs_nodes s)\<rparr>)"
proof (rule confinedI [OF assms(1)])
  show "look (s\<lparr>fs_nodes := moved old new (fs_nodes s)\<rparr>) q = look s q" if "\<not> prefix D q" for q
    using that assms(2,3) by (auto simp: look_moved dest: prefix_extend)
  show "f_ino f \<notin> outside_inos D s0"
    if "prefix D p" "look (s\<lparr>fs_nodes := moved old new (fs_nodes s)\<rparr>) p = Some (NFile f)" for p f
    using that assms by (auto simp: look_moved split: if_splits elim: confined_insideE prefix_prefix)
qed simp

subsection \<open>The system calls\<close>

named_theorems confined_calls

lemma in_dir_keeps:
  assumes "in_dir s p r = Inr x" "r = Inr x \<Longrightarrow> Q"
  shows Q
  using assms by (simp add: in_dir_Inr)

lemma keeps_mkdir [confined_calls]: "prefix D p \<Longrightarrow> keeps (confined D s0) (sys (fs_mkdir p m))"
  by (rule keeps_sys) (auto simp: fs_mkdir_def in_dir_Inr split: if_splits intro: confined_put)

lemma keeps_remove [confined_calls]: "prefix D p \<Longrightarrow> keeps (confined D s0) (sys (fs_remove p))"
  by (rule keeps_sys)
    (auto simp: fs_remove_def in_dir_Inr split: if_splits option.splits node.splits intro: confined_del)

lemma keeps_remove_all [confined_calls]:
  assumes "prefix D p"
  shows "keeps (confined D s0) (sys (fs_remove_all p))"
proof (rule keeps_sys)
  fix s x s'
  assume c: "confined D s0 s" and f: "fs_remove_all p s = Inr (x, s')"
  consider "s' = s" | "s' = s\<lparr>fs_nodes := filter (\<lambda>(q, n). \<not> prefix p q) (fs_nodes s)\<rparr>"
    using f by (auto simp: fs_remove_all_def split: option.splits io_error.splits)
  then show "confined D s0 s'"
  proof cases
    case 2
    show ?thesis unfolding 2
      by (rule confinedI [OF c])
        (use assms confined_inside [OF c] prefix_extend [of D p] in \<open>auto simp: look_filter split: if_splits\<close>)
  qed (use c in simp)
qed

lemma keeps_rename [confined_calls]:
  "prefix D old \<Longrightarrow> prefix D new \<Longrightarrow> keeps (confined D s0) (sys (fs_rename old new))"
  by (rule keeps_sys)
    (auto simp: fs_rename_def in_dir_Inr split: if_splits option.splits intro: confined_moved)

lemma keeps_symlink [confined_calls]: "prefix D p \<Longrightarrow> keeps (confined D s0) (sys (fs_symlink t p))"
  by (rule keeps_sys) (auto simp: fs_symlink_def in_dir_Inr split: if_splits intro: confined_put)

lemma confined_create:
  assumes "confined D s0 s" "prefix D p"
  shows "confined D s0 ((put_node p (NFile (new_file (fs_next s) m)) s)\<lparr>fs_next := Suc (fs_next s)\<rparr>)"
  using assms confined_fresh [OF assms(1)] by (intro confined_next confined_put) (auto simp: new_file_def)

lemma keeps_create_excl [confined_calls]:
  "prefix D p \<Longrightarrow> keeps (confined D s0) (sys (fs_create_excl p m))"
  by (rule keeps_sys) (auto simp: fs_create_excl_def in_dir_Inr split: if_splits intro: confined_create)

lemma keeps_sync [confined_calls]: "keeps (confined D s0) (sys fs_sync)"
  by (rule keeps_sys) (simp add: fs_sync_def)

lemma keeps_write_at [confined_calls]:
  "i \<notin> outside_inos D s0 \<Longrightarrow> keeps (confined D s0) (sys (fs_write_at i off d))"
  by (rule keeps_sys) (auto simp: fs_write_at_def split: if_splits intro: confined_upd)

lemma keeps_on_file:
  assumes "prefix D p" "\<And>f. f_ino (g f) = f_ino f"
  shows "keeps (confined D s0) (sys (fs_on_file p g))"
  by (rule keeps_sys)
    (use assms in \<open>auto simp: fs_on_file_def in_dir_Inr split: option.splits node.splits
      intro: confined_upd dest: confined_inside\<close>)

lemma keeps_chmod [confined_calls]: "prefix D p \<Longrightarrow> keeps (confined D s0) (sys (fs_chmod p m))"
  unfolding fs_chmod_def by (rule keeps_on_file) auto

lemma keeps_chtimes [confined_calls]: "prefix D p \<Longrightarrow> keeps (confined D s0) (sys (fs_chtimes p t))"
  unfolding fs_chtimes_def by (rule keeps_on_file) auto

lemma keeps_mkdir_all:
  assumes "prefix D p \<or> strict_prefix p D"
  shows "keeps (confined D s0) (mkdir_all p m)"
  unfolding mkdir_all_def
proof (rule keeps_mkdir_each)
  fix q
  assume "q \<in> set (prefixes p)"
  then have "prefix q p" by simp
  then have "prefix D q \<or> strict_prefix q D"
    using assms prefix_same_cases [of q p D] by (auto simp: strict_prefix_def intro: prefix_order.trans)
  then show "keeps (confined D s0) (sys (fs_mkdir q m)) \<or> (\<forall>s. confined D s0 s \<longrightarrow> is_dir s q)"
    by (auto simp: confined_def intro: keeps_mkdir)
qed

subsection \<open>The operations of the receiver\<close>

lemma keeps_full:
  assumes "\<And>f. full (rv_dest env) rel = Inr f \<Longrightarrow> keeps P (g f)"
  shows "keeps P (seqio (full_io env rel) g)"
  using assms by (auto simp: keeps_def seqio_def full_io_def fail_with_def ret_def split: sum.splits)

lemma full_target:
  assumes "is_abs dest" "full dest rel = Inr f"
  shows "f = abs_path (target dest rel)" "pcomps f = target dest rel"
    "pcomps (dir_of f) = butlast (target dest rel)" "prefix (pcomps dest) (target dest rel)"
proof -
  have g: "list_all good_comp (target dest rel)" using assms(1) by (rule target_good)
  show f: "f = abs_path (target dest rel)" and "prefix (pcomps dest) (target dest rel)"
    using assms by (auto simp: full_eq split: if_splits)
  show "pcomps f = target dest rel" using f g by (simp add: pcomps_abs_path)
  have "list_all good_comp (butlast (target dest rel))" using g by (auto simp: list_all_iff in_set_butlastD)
  then show "pcomps (dir_of f) = butlast (target dest rel)" using f g by (simp add: dir_of_abs_path pcomps_abs_path)
qed

lemma butlast_inside: "prefix D q \<Longrightarrow> prefix D (butlast q) \<or> strict_prefix (butlast q) D"
proof -
  assume p: "prefix D q"
  show ?thesis
  proof (cases "D = q")
    case True
    then show ?thesis by (cases q rule: rev_cases) (auto simp: strict_prefix_def)
  next
    case False
    then show ?thesis using p by (cases q rule: rev_cases) auto
  qed
qed

lemma keeps_delete_result:
  "keeps P (sys f) \<Longrightarrow> keeps P (\<lambda>w. case sys f w of (Inl ENOENT, w') \<Rightarrow> (Inr (), w')
     | (Inl e, w') \<Rightarrow> (Inl (Io e), w') | (Inr u, w') \<Rightarrow> (Inr u, w'))"
  unfolding keeps_def by (fastforce split: prod.splits sum.splits io_error.splits)

lemma keeps_acl_apply [keeps_intros]: "keeps P (acl_apply env q ty txt)"
  by (simp add: keeps_def acl_apply_def)

lemma keeps_write_file:
  assumes "\<And>i. keeps P (sys (fs_write_at i 0 d))" "keeps P (sys (fs_create_trunc p m))" "keeps P (sys fs_sync)"
  shows "keeps P (write_file p d m)"
  unfolding write_file_def using assms by (intro keeps_intros) auto

text \<open>\<open>WriteFile\<close> truncates or creates inside, so the handle it writes to is one of the inside.\<close>

lemma create_trunc_ino:
  assumes "fs_create_trunc p m s = Inr (i, s')" "confined D s0 s" "prefix D p"
  shows "i \<notin> outside_inos D s0 \<and> confined D s0 s'"
proof (cases "look s p")
  case None
  then show ?thesis
    using assms confined_fresh [OF assms(2)]
    by (auto simp: fs_create_trunc_def fs_create_excl_def in_dir_Inr intro: confined_create split: if_splits)
next
  case (Some n)
  show ?thesis
  proof (cases n)
    case (NFile f)
    have "f_ino f \<notin> outside_inos D s0"
      using confined_inside [OF assms(2,3)] Some NFile by simp
    then show ?thesis
      using assms Some NFile by (auto simp: fs_create_trunc_def in_dir_Inr intro: confined_upd)
  qed (use assms Some in \<open>auto simp: fs_create_trunc_def in_dir_Inr\<close>)
qed

lemma keeps_write_file_inside [confined_calls]:
  assumes "prefix D p"
  shows "keeps (confined D s0) (write_file p d m)"
proof -
  have "confined D s0 (wd_fs (snd (write_file p d m w)))" if c: "confined D s0 (wd_fs w)" for w
  proof (cases "sys (fs_create_trunc p m) w")
    case (Pair r w1)
    show ?thesis
    proof (cases r)
      case (Inl e)
      then have "wd_fs w1 = wd_fs w"
        using Pair by (auto simp: sys_def Let_def split: if_splits sum.splits prod.splits)
      then show ?thesis using Pair Inl c by (simp add: write_file_def seqio_def)
    next
      case (Inr i)
      then have "fs_create_trunc p m (wd_fs w) = Inr (i, wd_fs w1)"
        using Pair by (auto simp: sys_def Let_def split: if_splits sum.splits prod.splits)
      then have i: "i \<notin> outside_inos D s0" "confined D s0 (wd_fs w1)"
        using create_trunc_ino [OF _ c assms] by auto
      have "keeps (confined D s0) (seqio (sys (fs_write_at i 0 d)) (\<lambda>_. sys fs_sync))"
        using i(1) by (intro keeps_intros confined_calls)
      then show ?thesis using Pair Inr i(2) by (simp add: write_file_def seqio_def [of "sys (fs_create_trunc p m)"] keeps_def)
    qed
  qed
  then show ?thesis by (simp add: keeps_def)
qed

definition env_ok :: "rv_env \<Rightarrow> bool" where
  "env_ok env \<longleftrightarrow> is_abs (rv_dest env) \<and> CHR ''/'' \<notin> set (rv_pid env)"

lemma env_abs: "env_ok env \<Longrightarrow> is_abs (rv_dest env)"
  by (simp add: env_ok_def)

abbreviation dest_path :: "rv_env \<Rightarrow> path" where
  "dest_path env \<equiv> pcomps (rv_dest env)"

lemma keeps_mkdir_inside: "prefix D p \<Longrightarrow> keeps (confined D s0) (mkdir_all p m)"
  by (simp add: keeps_mkdir_all)

lemma seqio_ret: "seqio (seqio m (\<lambda>_. ret d)) g = seqio m (\<lambda>_. g d)"
  by (rule ext) (auto simp: seqio_def ret_def split: prod.splits sum.splits)

lemma full_inside: "env_ok env \<Longrightarrow> full (rv_dest env) rel = Inr f \<Longrightarrow> prefix (dest_path env) (pcomps f)"
  using full_target [OF env_abs] by simp

lemma keeps_mkdir_parent:
  "env_ok env \<Longrightarrow> full (rv_dest env) rel = Inr f \<Longrightarrow>
    keeps (confined (dest_path env) s0) (mkdir_all (pcomps (dir_of f)) m)"
  using full_target [OF env_abs] butlast_inside by (metis keeps_mkdir_all)

lemmas op_intros = keeps_intros confined_calls keeps_full keeps_delete_result keeps_mkdir_parent

lemma keeps_mkdir_op: "env_ok env \<Longrightarrow> keeps (confined (dest_path env) s0) (rv_mkdir env x)"
  unfolding rv_mkdir_def by (auto intro!: op_intros full_inside keeps_mkdir_inside)

lemma keeps_rename_op: "env_ok env \<Longrightarrow> keeps (confined (dest_path env) s0) (rv_rename env x)"
  unfolding rv_rename_def by (auto intro!: op_intros full_inside)

lemma keeps_delete_op: "env_ok env \<Longrightarrow> keeps (confined (dest_path env) s0) (rv_delete env x)"
  unfolding rv_delete_def by (auto intro!: op_intros full_inside)

lemma keeps_rmdir_op: "env_ok env \<Longrightarrow> keeps (confined (dest_path env) s0) (rv_rmdir env x)"
  unfolding rv_rmdir_def by (auto intro!: op_intros full_inside)

lemma keeps_symlink_op: "env_ok env \<Longrightarrow> keeps (confined (dest_path env) s0) (rv_symlink env x)"
  unfolding rv_symlink_def by (auto intro!: op_intros full_inside)

lemma keeps_folder_acl_op: "keeps P (folder_acl_io env fa)"
  unfolding folder_acl_io_def
  by (auto intro!: op_intros)

lemma pcomps_under:
  assumes "is_abs a" "good_comp c"
  shows "pcomps (join_path a c) = pcomps a @ [c]" "is_abs (join_path a c)"
  using pcomps_join_good [OF assms(1), of "[c]"] assms(2) by auto

lemma good_lit: "good_comp ''.backupdata''" "good_comp ''loop''" "good_comp acl_csv_name"
  by (simp_all add: good_comp_def dotdot_def acl_csv_name_def)

lemma good_append: "good_comp (x @ y)" if "CHR ''/'' \<notin> set x" "CHR ''/'' \<notin> set y" "3 \<le> length y"
  using that by (auto simp: good_comp_def dotdot_def dest: arg_cong [of _ _ length])

lemma keeps_acl_csv_op:
  assumes "env_ok env"
  shows "keeps (confined (dest_path env) s0) (write_acl_csv env d)"
proof -
  note a = env_abs [OF assms]
  let ?dir = "join_path (rv_dest env) ''.backupdata''"
  have dir: "is_abs ?dir" "pcomps ?dir = dest_path env @ [''.backupdata'']"
    using pcomps_under [OF a good_lit(1)] by auto
  have "good_comp (acl_csv_name @ ''.tmp.'' @ rv_pid env)"
    using assms by (intro good_append) (auto simp: env_ok_def acl_csv_name_def)
  then have "pcomps (join_path ?dir (acl_csv_name @ ''.tmp.'' @ rv_pid env)) =
      pcomps ?dir @ [acl_csv_name @ ''.tmp.'' @ rv_pid env]"
    by (rule pcomps_under [OF dir(1)])
  moreover have "pcomps (join_path ?dir acl_csv_name) = pcomps ?dir @ [acl_csv_name]"
    by (rule pcomps_under [OF dir(1) good_lit(3)])
  ultimately show ?thesis
    unfolding write_acl_csv_def state_dir_def Let_def seqio_ret
    by (auto simp: dir intro!: op_intros keeps_mkdir_inside)
qed

lemma keeps_marker_op:
  assumes "env_ok env" "CHR ''/'' \<notin> set service"
  shows "keeps (confined (dest_path env) s0) (write_marker (rv_dest env) service stamp)"
proof -
  note a = env_abs [OF assms(1)]
  let ?b = "join_path (rv_dest env) ''.backupdata''"
  have b: "is_abs ?b" "pcomps ?b = dest_path env @ [''.backupdata'']"
    using pcomps_under [OF a good_lit(1)] by auto
  have l: "is_abs (join_path ?b ''loop'')" "pcomps (join_path ?b ''loop'') = pcomps ?b @ [''loop'']"
    using pcomps_under [OF b(1) good_lit(2)] by auto
  have "good_comp (service @ ''.loop'')"
    using assms by (intro good_append) auto
  then have "pcomps (join_path (join_path ?b ''loop'') (service @ ''.loop'')) =
      pcomps (join_path ?b ''loop'') @ [service @ ''.loop'']"
    by (rule pcomps_under [OF l(1)])
  then show ?thesis
    unfolding write_marker_def Let_def
    by (auto simp: b l intro!: op_intros keeps_mkdir_inside)
qed

subsection \<open>The transfer in progress\<close>

definition conn_ok :: "path \<Rightarrow> fs \<Rightarrow> conn \<Rightarrow> bool" where
  "conn_ok D s0 c \<longleftrightarrow>
     confined D s0 (wd_fs (cn_world c)) \<and>
     (case cn_tmp c of None \<Rightarrow> True | Some (i, tmp) \<Rightarrow> i \<notin> outside_inos D s0 \<and> prefix D tmp)"

lemma conn_on_world:
  "keeps (confined D s0) m \<Longrightarrow> conn_ok D s0 c \<Longrightarrow> conn_ok D s0 (snd (on_world m c))"
  by (auto simp: conn_ok_def on_world_def keeps_def split: prod.splits)

lemma conn_world:
  "conn_ok D s0 c \<Longrightarrow> confined D s0 (wd_fs w) \<Longrightarrow> conn_ok D s0 (c\<lparr>cn_world := w\<rparr>)"
  by (simp add: conn_ok_def)

lemma conn_abort: "conn_ok D s0 c \<Longrightarrow> conn_ok D s0 (abort_transfer c)"
  by (auto simp: conn_ok_def abort_transfer_def split: option.splits
      intro!: keepsD [OF keeps_remove] keepsD [OF keeps_sync])

lemma begin_io_ok:
  assumes "env_ok env" "confined (dest_path env) s0 (wd_fs w)" "begin_io env rel w = (r, w')"
    "full (rv_dest env) rel \<noteq> Inr (clean (rv_dest env))"
  shows "confined (dest_path env) s0 (wd_fs w') \<and>
    (\<forall>i tmp. r = Inr (i, tmp) \<longrightarrow> i \<notin> outside_inos (dest_path env) s0 \<and> prefix (dest_path env) tmp)"
proof (cases "full (rv_dest env) rel")
  case (Inl e)
  then show ?thesis using assms by (auto simp: begin_io_def full_io_def seqio_def fail_with_def)
next
  case (Inr f)
  note a = env_abs [OF assms(1)]
  note t = full_target [OF a Inr]
  have "target (rv_dest env) rel \<noteq> dest_path env"
    using t(1) Inr assms(4) a by (auto simp: clean_abs)
  then have d: "prefix (dest_path env) (pcomps (dir_of f))"
    using t(3,4) by (cases "target (rv_dest env) rel" rule: rev_cases) auto
  let ?d = "pcomps (dir_of f)"
  have k: "keeps (confined (dest_path env) s0) (mkdir_all ?d mode755)"
    using d by (rule keeps_mkdir_inside)
  obtain r1 w1 where m: "mkdir_all ?d mode755 w = (r1, w1)" by (cases "mkdir_all ?d mode755 w")
  have c1: "confined (dest_path env) s0 (wd_fs w1)" using keepsD [OF k assms(2)] m by simp
  show ?thesis
  proof (cases r1)
    case (Inl e)
    then show ?thesis using assms Inr m c1
      by (auto simp: begin_io_def full_io_def seqio_def ret_def wrap_def Let_def)
  next
    case r1: (Inr u)
    let ?tmp = "?d @ [''.cs-sync.tmp.'' @ rv_tmp_name env (wd_tick w1)]"
    have p: "prefix (dest_path env) ?tmp" using d by simp
    obtain r2 w2 where c: "sys (fs_create_excl ?tmp mode600) w1 = (r2, w2)"
      by (cases "sys (fs_create_excl ?tmp mode600) w1")
    have c2: "confined (dest_path env) s0 (wd_fs w2)"
      using keepsD [OF keeps_create_excl [OF p] c1] c by (metis snd_conv)
    have i: "i \<notin> outside_inos (dest_path env) s0" if "r2 = Inr i" for i
      using c confined_fresh [OF c1] that
      by (auto simp: sys_def Let_def fs_create_excl_def in_dir_Inr split: if_splits sum.splits prod.splits)
    show ?thesis using assms(3) Inr m r1 c c2 i p
      by (cases r2) (auto simp: begin_io_def full_io_def seqio_def ret_def wrap_def Let_def)
  qed
qed

lemma conn_begin:
  assumes "env_ok env" "conn_ok (dest_path env) s0 c" "fb_path fb \<noteq> []"
    "full (rv_dest env) (fb_path fb) \<noteq> Inr (clean (rv_dest env))"
  shows "conn_ok (dest_path env) s0 (snd (begin_file env fb c))"
proof -
  let ?c = "abort_transfer c"
  have c: "conn_ok (dest_path env) s0 ?c" using assms(2) by (rule conn_abort)
  then have w: "confined (dest_path env) s0 (wd_fs (cn_world ?c))" by (simp add: conn_ok_def)
  have p: "fb_path (decode_begin fb m) = fb_path fb" for m
    using assms(3) by (simp add: decode_begin_def)
  obtain r w' where b: "begin_io env (fb_path fb) (cn_world ?c) = (r, w')"
    by (cases "begin_io env (fb_path fb) (cn_world ?c)")
  note bo = begin_io_ok [OF assms(1) w b assms(4)]
  show ?thesis
    using b bo c by (cases r) (auto simp: begin_file_def Let_def p conn_ok_def)
qed

lemma conn_block:
  assumes "conn_ok D s0 c"
  shows "conn_ok D s0 (snd (block_file env fd c))"
proof (cases "cn_tmp c")
  case None
  then show ?thesis using assms by (simp add: block_file_def)
next
  case (Some h)
  obtain i tmp where h: "h = (i, tmp)" by (cases h)
  have i: "i \<notin> outside_inos D s0" using assms Some h by (simp add: conn_ok_def)
  obtain r w where w: "sys (fs_write_at i (fd_offset fd) (fd_data fd)) (cn_world c) = (r, w)"
    by (cases "sys (fs_write_at i (fd_offset fd) (fd_data fd)) (cn_world c)")
  have "confined D s0 (wd_fs (snd (sys (fs_write_at i (fd_offset fd) (fd_data fd)) (cn_world c))))"
    by (rule keepsD [OF keeps_write_at [OF i]]) (use assms in \<open>simp add: conn_ok_def\<close>)
  then have "confined D s0 (wd_fs w)" using w by simp
  then have "conn_ok D s0 (c\<lparr>cn_world := w\<rparr>)" using assms by (rule conn_world [rotated])
  then show ?thesis
    using assms Some h w conn_abort
    by (cases r) (auto simp: block_file_def conn_ok_def)
qed

lemma keeps_finish_body:
  assumes "env_ok env" "prefix (dest_path env) tmp"
  shows "keeps (confined (dest_path env) s0) (finish_body env tmp rel meta hashed want)"
  unfolding finish_body_def using assms by (auto intro!: op_intros full_inside)

lemma finish_confined:
  assumes "env_ok env" "prefix (dest_path env) tmp" "confined (dest_path env) s0 (wd_fs w)"
  shows "confined (dest_path env) s0 (wd_fs (snd (finish_file env tmp rel meta hashed want w)))"
proof -
  have "confined (dest_path env) s0 (wd_fs (snd (finish_body env tmp rel meta hashed want w)))"
    using keepsD [OF keeps_finish_body] assms by blast
  then show ?thesis
    using keepsD [OF keeps_remove [OF assms(2)]] by (auto simp: finish_file_def split: prod.splits)
qed

lemma conn_end:
  assumes "env_ok env" "conn_ok (dest_path env) s0 c"
  shows "conn_ok (dest_path env) s0 (snd (end_file env want c))"
proof (cases "cn_tmp c")
  case None
  then show ?thesis using assms by (simp add: end_file_def)
next
  case (Some h)
  obtain i tmp where h: "h = (i, tmp)" by (cases h)
  have t: "prefix (dest_path env) tmp" "i \<notin> outside_inos (dest_path env) s0"
    using assms(2) Some h by (simp_all add: conn_ok_def)
  obtain r w where f: "finish_file env tmp (cn_path c) (cn_meta c) (cn_hashed c) want (cn_world c) = (r, w)"
    by (cases "finish_file env tmp (cn_path c) (cn_meta c) (cn_hashed c) want (cn_world c)")
  have "confined (dest_path env) s0 (wd_fs (cn_world c))" using assms(2) by (simp add: conn_ok_def)
  from finish_confined [OF assms(1) t(1) this, of "cn_path c" "cn_meta c" "cn_hashed c" want]
  have "confined (dest_path env) s0 (wd_fs w)" using f by simp
  then show ?thesis using Some h t f by (cases r) (auto simp: end_file_def conn_ok_def)
qed

subsection \<open>Whole sessions\<close>

fun frame_ok :: "string \<Rightarrow> frame_in \<Rightarrow> bool" where
  "frame_ok dest (Frame (MLoopMarker m)) \<longleftrightarrow> CHR ''/'' \<notin> set (lm_service m)"
| "frame_ok dest (Frame (MFileBegin fb)) \<longleftrightarrow>
     fb_path fb \<noteq> [] \<and> full dest (fb_path fb) \<noteq> Inr (clean dest)"
| "frame_ok dest f \<longleftrightarrow> True"

lemma conn_handle:
  assumes "env_ok env" "conn_ok (dest_path env) s0 c" "frame_ok (rv_dest env) f"
  shows "conn_ok (dest_path env) s0 (snd (handle_frame env f c))"
proof (cases f)
  case (Frame m)
  note world = conn_on_world [OF _ assms(2)]
  show ?thesis
  proof (cases m)
    case (MFileBegin fb)
    then show ?thesis
      using conn_begin [OF assms(1,2), of fb] assms(3) Frame by (auto split: prod.splits)
  next
    case (MFileData fd)
    then show ?thesis using conn_block [OF assms(2), of env fd] Frame by (auto split: prod.splits)
  next
    case (MFileEnd h)
    then show ?thesis using conn_end [OF assms(1,2)] Frame by simp
  qed (use assms Frame in \<open>auto intro!: world keeps_mkdir_op keeps_rename_op keeps_delete_op keeps_rmdir_op
      keeps_symlink_op keeps_folder_acl_op keeps_acl_csv_op keeps_marker_op\<close>)
qed (use assms conn_abort in auto)

lemma conn_session:
  "env_ok env \<Longrightarrow> conn_ok (dest_path env) s0 c \<Longrightarrow> list_all (frame_ok (rv_dest env)) fs \<Longrightarrow>
    conn_ok (dest_path env) s0 (fst (snd (session env fs c)))"
proof (induction fs arbitrary: c)
  case Nil
  then show ?case by (simp add: conn_abort)
next
  case (Cons f fs)
  obtain r c' where h: "handle_frame env f c = (r, c')" by (cases "handle_frame env f c")
  have "conn_ok (dest_path env) s0 (snd (handle_frame env f c))"
    using Cons.prems by (intro conn_handle) auto
  then have c': "conn_ok (dest_path env) s0 c'" using h by simp
  show ?case
  proof (cases r)
    case None
    then show ?thesis using h conn_abort [OF c'] by simp
  next
    case (Some x)
    have "conn_ok (dest_path env) s0 (fst (snd (session env fs c')))"
      using Cons.prems(3) by (intro Cons.IH [OF Cons.prems(1) c']) simp
    then show ?thesis using h Some by (auto split: prod.splits)
  qed
qed

definition fresh_conn :: "world \<Rightarrow> conn" where
  "fresh_conn w =
     \<lparr>cn_world = w, cn_tmp = None, cn_path = [],
      cn_meta = \<lparr>fb_path = [], fb_size = 0, fb_mode = 0, fb_mtime = 0\<rparr>, cn_hashed = []\<rparr>"

text \<open>
  C12. A wire path that \<open>full\<close> accepts resolves to the destination or to a path under it, with no \<open>..\<close>
  left in it, and everything else is refused: absolute paths, and paths whose cleaned join with the
  destination leaves it.
\<close>

theorem full_contained:
  assumes "is_abs dest"
  shows "(\<forall>f. full dest rel = Inr f \<longrightarrow>
       (\<exists>ts. f = abs_path (pcomps dest @ ts) \<and> dotdot \<notin> set (pcomps dest @ ts))) \<and>
     ((\<exists>e. full dest rel = Inl e) \<longleftrightarrow>
       is_abs (clean rel) \<or> \<not> prefix (pcomps dest) (pcomps (dest @ ''/'' @ clean rel)))"
proof -
  have "dotdot \<notin> set (target dest rel)"
    using target_good [OF assms, of rel] by (auto simp: list_all_iff good_comp_def)
  moreover have "full dest rel = Inr f \<Longrightarrow> \<exists>ts. f = abs_path (pcomps dest @ ts) \<and> target dest rel = pcomps dest @ ts" for f
    using assms by (auto simp: full_eq prefix_def split: if_splits)
  moreover have "(\<exists>e. full dest rel = Inl e) \<longleftrightarrow>
       is_abs (clean rel) \<or> \<not> prefix (pcomps dest) (pcomps (dest @ ''/'' @ clean rel))"
    using assms by (auto simp: full_eq target_def)
  ultimately show ?thesis by metis
qed

theorem full_contained_witness:
  "\<exists>ts. ''/tank/d/a/b'' = abs_path (pcomps ''/tank/d'' @ ts) \<and> dotdot \<notin> set (pcomps ''/tank/d'' @ ts)"
proof -
  have "is_abs ''/tank/d''" by (simp add: is_abs_def has_prefix_def)
  moreover have "full ''/tank/d'' ''a/x/../b'' = Inr ''/tank/d/a/b''" by code_simp
  ultimately show ?thesis using full_contained [of "''/tank/d''" "''a/x/../b''"] by blast
qed


definition ex_env :: rv_env where
  "ex_env = \<lparr>rv_dest = ''/d'', rv_acl_type = ''posix'', rv_version = ''v'', rv_os = ''linux'', rv_key = ''k'',
     rv_allow_ip = [], rv_pid = ''7'', rv_sha = (\<lambda>b. replicate 12 CHR ''0'' @ map (\<lambda>x. char_of (unat x)) b),
     rv_acl_tool = (\<lambda>q ty t. None), rv_tmp_name = (\<lambda>n. ''1'')\<rparr>"

definition ex_world :: world where
  "ex_world = \<lparr>wd_fs = \<lparr>fs_nodes = [([''d''], NDir 493),
       ([''secret''], NFile \<lparr>f_ino = 0, f_data = [1], f_mode = 384, f_mtime = 5\<rparr>)], fs_next = 1\<rparr>,
     wd_tick = 0, wd_fault = (\<lambda>n. False), wd_cmds = []\<rparr>"


text \<open>
  The two excluded frames do reach outside: a marker for the service \<open>../../../x\<close> creates a file next
  to the destination, and a file sent to the path \<open>.\<close> has its temporary file created there.
\<close>

lemma marker_reaches_outside:
  "wlook (cn_world (snd (handle_frame ex_env
     (Frame (MLoopMarker \<lparr>lm_service = ''../../../x'', lm_stamp = ''1''\<rparr>)) (fresh_conn ex_world)))) [''x.loop''] \<noteq> None"
  by code_simp

lemma begin_at_dest_reaches_outside:
  "wlook (cn_world (snd (handle_frame ex_env
     (Frame (MFileBegin \<lparr>fb_path = ''.'', fb_size = 1, fb_mode = 420, fb_mtime = 1\<rparr>)) (fresh_conn ex_world))))
     [''.cs-sync.tmp.1''] \<noteq> None"
  by code_simp

end
