(* ===== verification/Receiver_Transfer.thy ===== *)
theory Receiver_Transfer
  imports Receiver_Confined
begin

section \<open>Receiving a file\<close>

text \<open>
  A file arrives in a temporary file next to its target and is renamed over it once the hash of the
  whole has been checked. The lemmas follow one transfer; the theorems say that the target is replaced
  as a whole or not at all, and that a complete transfer installs the bytes that were sent.
\<close>

definition tree_ok :: "fs \<Rightarrow> bool" where
  "tree_ok s \<longleftrightarrow> (\<forall>q. look s q \<noteq> None \<longrightarrow> is_dir s (butlast q))"

lemma tree_ok_children:
  assumes "tree_ok s" "strict_prefix p q" "look s q \<noteq> None"
  shows "is_dir s p"
  using assms(2,3)
proof (induction q rule: rev_induct)
  case Nil
  then show ?case by simp
next
  case (snoc x xs)
  have d: "is_dir s xs" using assms(1) snoc.prems(2) by (metis butlast_snoc tree_ok_def)
  show ?case
  proof (cases "p = xs")
    case True
    then show ?thesis using d by simp
  next
    case False
    then have "strict_prefix p xs" using snoc.prems(1) by (auto simp: strict_prefix_def)
    moreover have "xs \<noteq> []" using calculation by auto
    then have "look s xs \<noteq> None" using d by (auto simp: is_dir_look)
    ultimately show ?thesis by (rule snoc.IH)
  qed
qed

lemma sys_cases:
  obtains (fault) "sys f w = (Inl EIO, w\<lparr>wd_tick := Suc (wd_tick w)\<rparr>)"
  | (err) e where "f (wd_fs w) = Inl e" "sys f w = (Inl e, w\<lparr>wd_tick := Suc (wd_tick w)\<rparr>)"
  | (ok) x s where "f (wd_fs w) = Inr (x, s)"
      "sys f w = (Inr x, w\<lparr>wd_tick := Suc (wd_tick w), wd_fs := s\<rparr>)"
  by (cases "wd_fault w (wd_tick w)"; cases "f (wd_fs w)") (auto simp: sys_def Let_def)

lemma sys_look_fail: "sys f w = (Inl e, w') \<Longrightarrow> wd_fs w' = wd_fs w"
  by (cases rule: sys_cases [of f w]) auto

lemma sys_ok: "sys f w = (Inr x, w') \<Longrightarrow> f (wd_fs w) = Inr (x, wd_fs w')"
  by (cases rule: sys_cases [of f w]) auto

text \<open>Updating the inode of the temporary file changes that path only.\<close>

definition only_ino :: "fs \<Rightarrow> path \<Rightarrow> nat \<Rightarrow> bool" where
  "only_ino s p i \<longleftrightarrow>
     (\<exists>f. look s p = Some (NFile f) \<and> f_ino f = i) \<and>
     (\<forall>q f. look s q = Some (NFile f) \<and> f_ino f = i \<longrightarrow> q = p)"

lemma upd_only:
  assumes "only_ino s p i" "q \<noteq> p"
  shows "look (upd_ino i g s) q = look s q"
proof (cases "look s q")
  case (Some n)
  then show ?thesis using assms by (cases n) (auto simp: only_ino_def)
qed simp

lemma upd_at:
  "look s p = Some (NFile f) \<Longrightarrow> f_ino f = i \<Longrightarrow> look (upd_ino i g s) p = Some (NFile (g f))"
  by simp

lemma only_upd:
  assumes "only_ino s p i" "\<And>f. f_ino (g f) = f_ino f"
  shows "only_ino (upd_ino i g s) p i"
proof -
  obtain f where "look s p = Some (NFile f)" "f_ino f = i" using assms by (auto simp: only_ino_def)
  moreover have "q = p" if "look (upd_ino i g s) q = Some (NFile h)" "f_ino h = i" for q h
    using that assms upd_only [OF assms(1), of q g] by (cases "q = p") (auto simp: only_ino_def)
  ultimately show ?thesis using assms(2) by (auto simp: only_ino_def)
qed

lemma tree_ok_upd: "tree_ok s \<Longrightarrow> tree_ok (upd_ino i g s)"
  by (simp add: tree_ok_def)

text \<open>Renaming a file over a path that is no directory: the target gets it, nothing else moves.\<close>

lemma rename_file:
  assumes "fs_rename old new s = Inr (u, s')" "look s old = Some (NFile f)" "tree_ok s" "old \<noteq> new"
  shows "look s' new = Some (NFile f)" "look s' old = None"
    "q \<noteq> old \<Longrightarrow> q \<noteq> new \<Longrightarrow> look s' q = look s q"
proof -
  have sp: "new \<noteq> [] \<Longrightarrow> strict_prefix [] new" by (simp add: strict_prefix_def)
  have o: "old \<noteq> []" "\<not> is_dir s old" "\<not> is_dir s new" "\<not> strict_prefix old new"
    "s' = s\<lparr>fs_nodes := moved old new (fs_nodes s)\<rparr>"
    using assms sp by (auto simp: fs_rename_def in_dir_Inr is_dir_def split: if_splits)
  have under: "look s p = None" if "strict_prefix old p \<or> strict_prefix new p" for p
  proof (rule ccontr)
    assume "look s p \<noteq> None"
    then have "is_dir s old \<or> is_dir s new" using that tree_ok_children [OF assms(3)] by blast
    then show False using o by blast
  qed
  have np: "\<not> strict_prefix new old" using under [of old] assms(2) by auto
  show "look s' new = Some (NFile f)" using assms(2) by (simp add: o(5) look_moved)
  show "look s' old = None"
    using np assms(4) by (auto simp: o(5) look_moved strict_prefix_def)
  show "look s' q = look s q" if "q \<noteq> old" "q \<noteq> new"
  proof (cases "prefix new q")
    case True
    then have "strict_prefix new q" "strict_prefix old (old @ drop (length new) q)"
      using that by (auto simp: strict_prefix_def prefix_def)
    then show ?thesis using True under by (simp add: o(5) look_moved)
  next
    case False
    show ?thesis
    proof (cases "prefix old q")
      case True
      then have "strict_prefix old q" using that by (simp add: strict_prefix_def)
      then show ?thesis using False True under by (simp add: o(5) look_moved)
    qed (use False in \<open>simp add: o(5) look_moved\<close>)
  qed
qed

lemma remove_file_look:
  assumes "look (wd_fs w) p = None \<or> (\<exists>f. look (wd_fs w) p = Some (NFile f))" "q \<noteq> p"
  shows "wlook (snd (sys (fs_remove p) w)) q = wlook w q"
  using assms by (cases rule: sys_cases [of "fs_remove p" w])
    (auto simp: fs_remove_def in_dir_Inr split: option.splits node.splits if_splits)

subsection \<open>The end of a transfer\<close>

text \<open>
  Where the body of \<open>finishFile\<close> can stop: before the rename, with the target untouched, or after it.
\<close>

lemma wrap_sys_cases:
  obtains (stop) e w1 where "wrap Io (sys g) w = (Inl (Io e), w1)" "wd_fs w1 = wd_fs w"
  | (go) x w1 where "wrap Io (sys g) w = (Inr x, w1)" "g (wd_fs w) = Inr (x, wd_fs w1)"
proof (cases rule: sys_cases [of g w])
  case fault
  then show thesis using stop [of EIO "w\<lparr>wd_tick := Suc (wd_tick w)\<rparr>"] by (simp add: wrap_def)
next
  case (err e)
  then show thesis using stop [of e "w\<lparr>wd_tick := Suc (wd_tick w)\<rparr>"] by (simp add: wrap_def)
next
  case (ok x s)
  then show thesis using go [of x "w\<lparr>wd_tick := Suc (wd_tick w), wd_fs := s\<rparr>"] by (simp add: wrap_def)
qed

definition untouched :: "path \<Rightarrow> world \<Rightarrow> world \<Rightarrow> bool" where
  "untouched tmp w w' \<longleftrightarrow> (\<exists>h. wlook w' tmp = Some (NFile h)) \<and> (\<forall>q. q \<noteq> tmp \<longrightarrow> wlook w' q = wlook w q)"

definition replaced :: "path \<Rightarrow> path \<Rightarrow> file_node \<Rightarrow> world \<Rightarrow> world \<Rightarrow> bool" where
  "replaced tmp t f w w' \<longleftrightarrow>
     wlook w' t = Some (NFile f) \<and> wlook w' tmp = None \<and> (\<forall>q. q \<noteq> tmp \<and> q \<noteq> t \<longrightarrow> wlook w' q = wlook w q)"

definition finish_outcome ::
  "rv_env \<Rightarrow> path \<Rightarrow> path \<Rightarrow> file_node \<Rightarrow> bytes \<Rightarrow> string \<Rightarrow> world \<Rightarrow> rv_error + unit \<Rightarrow> world \<Rightarrow> bool" where
  "finish_outcome env tmp t f hashed want w r w' \<longleftrightarrow>
     (case r of
        Inr u \<Rightarrow> rv_sha env hashed = want \<and> replaced tmp t f w w'
      | Inl e \<Rightarrow> untouched tmp w w' \<and>
          (case e of
             FileHashMismatch g h \<Rightarrow> g = rv_sha env hashed \<and> h = want \<and> g \<noteq> h
           | _ \<Rightarrow> True))"

lemma finish_body_outcome:
  assumes "only_ino (wd_fs w) tmp i" "tree_ok (wd_fs w)" "wlook w tmp = Some (NFile f)"
    "full (rv_dest env) rel = Inr fp" "pcomps fp \<noteq> tmp"
    "finish_body env tmp rel meta hashed want w = (r, w')"
  shows "finish_outcome env tmp (pcomps fp) (f\<lparr>f_mode := fb_mode meta, f_mtime := fb_mtime meta\<rparr>) hashed want w r w'"
proof (cases rule: wrap_sys_cases [of fs_sync w])
  case stop
  then show ?thesis using assms by (auto simp: finish_body_def seqio_def finish_outcome_def untouched_def)
next
  case (go x1 w1)
  note s1 = this
  have w1: "wd_fs w1 = wd_fs w" using s1(2) by (simp add: fs_sync_def)
  show ?thesis
  proof (cases rule: wrap_sys_cases [of fs_sync w1])
    case stop
    then show ?thesis using assms s1 w1 by (auto simp: finish_body_def seqio_def finish_outcome_def untouched_def)
  next
    case (go x2 w2)
    note s2 = this
    have w2: "wd_fs w2 = wd_fs w" using s2(2) w1 by (simp add: fs_sync_def)
    show ?thesis
    proof (cases "rv_sha env hashed = want")
      case False
      then show ?thesis using assms s1 s2 w2
        by (auto simp: finish_body_def seqio_def finish_outcome_def untouched_def fail_with_def)
    next
      case True
      note sha = this
      let ?s3 = "upd_ino i (f_mode_update (\<lambda>_. fb_mode meta)) (wd_fs w)"
      let ?s4 = "upd_ino i (f_mtime_update (\<lambda>_. fb_mtime meta)) ?s3"
      have fi: "f_ino f = i" using assms(1,3) by (auto simp: only_ino_def)
      have o3: "only_ino ?s3 tmp i" using assms(1) by (rule only_upd) simp
      have l3: "look ?s3 tmp = Some (NFile (f\<lparr>f_mode := fb_mode meta\<rparr>))" using assms(3) fi by simp
      have l4: "look ?s4 tmp = Some (NFile (f\<lparr>f_mode := fb_mode meta, f_mtime := fb_mtime meta\<rparr>))"
        using upd_at [OF l3, of i] fi by simp
      have r3: "q \<noteq> tmp \<Longrightarrow> look ?s3 q = wlook w q" for q using assms(1) by (rule upd_only)
      have r4: "q \<noteq> tmp \<Longrightarrow> look ?s4 q = wlook w q" for q using upd_only [OF o3] r3 by simp
      show ?thesis
      proof (cases rule: wrap_sys_cases [of "fs_chmod tmp (fb_mode meta)" w2])
        case stop
        then show ?thesis using assms s1 s2 w2 sha
          by (auto simp: finish_body_def seqio_def finish_outcome_def untouched_def)
      next
        case (go x3 w3)
        note s3 = this
        have w3: "wd_fs w3 = ?s3" using s3(2) w2 assms(3) fi
          by (simp add: fs_chmod_def fs_on_file_def in_dir_Inr)
        show ?thesis
        proof (cases rule: wrap_sys_cases [of "fs_chtimes tmp (fb_mtime meta)" w3])
          case stop
          then show ?thesis using assms(6) s1 s2 s3 w3 sha l3 r3
            by (auto simp: finish_body_def seqio_def finish_outcome_def untouched_def)
        next
          case (go x4 w4)
          note s4 = this
          have w4: "wd_fs w4 = ?s4" using s4(2) w3 l3 fi
            by (simp add: fs_chtimes_def fs_on_file_def in_dir_Inr del: look_upd_ino)
          show ?thesis
          proof (cases rule: wrap_sys_cases [of "fs_rename tmp (pcomps fp)" w4])
            case stop
            then show ?thesis using assms(4,6) s1 s2 s3 s4 w4 sha l4 r4
              by (auto simp: finish_body_def seqio_def finish_outcome_def untouched_def full_io_def ret_def)
          next
            case (go x5 w5)
            have t4: "tree_ok (wd_fs w4)" unfolding w4 by (intro tree_ok_upd assms(2))
            have l: "look (wd_fs w4) tmp = Some (NFile (f\<lparr>f_mode := fb_mode meta, f_mtime := fb_mtime meta\<rparr>))"
              using l4 w4 by simp
            note rn = rename_file [OF go(2) l t4 assms(5) [symmetric]]
            have res: "r = Inr x5" "w' = w5"
              using assms(4,6) s1 s2 s3 s4 go sha by (simp_all add: finish_body_def seqio_def full_io_def ret_def)
            have "replaced tmp (pcomps fp) (f\<lparr>f_mode := fb_mode meta, f_mtime := fb_mtime meta\<rparr>) w w5"
              using rn r4 w4 by (auto simp: replaced_def)
            then show ?thesis using res sha by (simp add: finish_outcome_def)
          qed
        qed
      qed
    qed
  qed
qed


definition ex_conn :: conn where
  "ex_conn = \<lparr>cn_world = ex_world\<lparr>wd_fs := \<lparr>fs_nodes = [([''d''], NDir 493),
       ([''d'', ''.cs-sync.tmp.1''], NFile \<lparr>f_ino = 1, f_data = [65], f_mode = 384, f_mtime = 0\<rparr>)], fs_next = 2\<rparr>\<rparr>,
     cn_tmp = Some (1, [''d'', ''.cs-sync.tmp.1'']), cn_path = ''x'',
     cn_meta = \<lparr>fb_path = ''x'', fb_size = 1, fb_mode = 420, fb_mtime = 9\<rparr>, cn_hashed = [65]\<rparr>"


text \<open>An announced hash of fewer than 12 bytes that does not match takes the process down.\<close>

lemma short_hash_panics: "fst (end_file ex_env ''x'' ex_conn) = None"
  by code_simp

subsection \<open>A complete transfer\<close>

definition quiet :: "world \<Rightarrow> bool" where
  "quiet w \<longleftrightarrow> (\<forall>n. \<not> wd_fault w n)"

lemma sys_quiet:
  fixes f :: "fs \<Rightarrow> io_error + 'a \<times> fs"
  shows "quiet w \<Longrightarrow> f (wd_fs w) = Inr (x, s) \<Longrightarrow>
    sys f w = (Inr x, w\<lparr>wd_tick := Suc (wd_tick w), wd_fs := s\<rparr>)"
  by (simp add: sys_def quiet_def Let_def)

lemma quiet_upd [simp]: "quiet (w\<lparr>wd_tick := n\<rparr>) = quiet w" "quiet (w\<lparr>wd_fs := s\<rparr>) = quiet w"
  by (simp_all add: quiet_def)

lemma mkdir_each_dirs: "\<forall>p \<in> set ps. is_dir (wd_fs w) p \<Longrightarrow> mkdir_each ps m w = (Inr (), w)"
  by (induction ps) (simp_all add: ret_def)

lemma mkdir_all_dirs: "dir_err (wd_fs w) d = None \<Longrightarrow> mkdir_all d m w = (Inr (), w)"
  unfolding mkdir_all_def by (rule mkdir_each_dirs) (simp add: dir_err_None)

lemma dir_err_same: "(\<And>p. is_dir s' p = is_dir s p) \<Longrightarrow> dir_err s' d = None \<longleftrightarrow> dir_err s d = None"
  by (simp add: dir_err_None)

definition inos_fresh :: "fs \<Rightarrow> bool" where
  "inos_fresh s \<longleftrightarrow> (\<forall>q f. look s q = Some (NFile f) \<longrightarrow> f_ino f < fs_next s)"

text \<open>
  What a transfer to \<open>rel\<close> needs of the world: no failing calls, a reachable directory to put it in,
  no directory in its place, and a temporary name that is free.
\<close>

definition ready :: "rv_env \<Rightarrow> world \<Rightarrow> string \<Rightarrow> path \<Rightarrow> path \<Rightarrow> bool" where
  "ready env w rel t tmp \<longleftrightarrow>
     quiet w \<and> (\<exists>fp. full (rv_dest env) rel = Inr fp \<and> pcomps fp = t) \<and>
     dir_err (wd_fs w) (butlast t) = None \<and> \<not> is_dir (wd_fs w) t \<and>
     tmp = butlast t @ [''.cs-sync.tmp.'' @ rv_tmp_name env (wd_tick w)] \<and>
     wlook w tmp = None \<and> t \<noteq> tmp \<and> tree_ok (wd_fs w) \<and> inos_fresh (wd_fs w)"

definition receiving :: "world \<Rightarrow> path \<Rightarrow> file_begin \<Rightarrow> bytes \<Rightarrow> conn \<Rightarrow> bool" where
  "receiving w0 tmp fb acc c \<longleftrightarrow>
     quiet (cn_world c) \<and> cn_tmp c = Some (fs_next (wd_fs w0), tmp) \<and> cn_path c = fb_path fb \<and>
     cn_meta c = fb \<and> cn_hashed c = acc \<and>
     (\<exists>f. wlook (cn_world c) tmp = Some (NFile f) \<and> f_ino f = fs_next (wd_fs w0) \<and> f_data f = acc) \<and>
     only_ino (wd_fs (cn_world c)) tmp (fs_next (wd_fs w0)) \<and> tree_ok (wd_fs (cn_world c)) \<and>
     (\<forall>q. q \<noteq> tmp \<longrightarrow> wlook (cn_world c) q = wlook w0 q)"

lemma begin_receiving:
  assumes "env_ok env" "cn_tmp c = None" "ready env (cn_world c) (fb_path fb) t tmp"
    "fb_path fb \<noteq> []" "fb_size fb \<noteq> 0 \<or> fb_size (cn_meta c) = 0"
    "fb_mode fb \<noteq> 0 \<or> fb_mode (cn_meta c) = 0" "fb_mtime fb \<noteq> 0 \<or> fb_mtime (cn_meta c) = 0"
  shows "\<exists>c'. begin_file env fb c = (Inr (), c') \<and> receiving (cn_world c) tmp fb [] c'"
proof -
  let ?w = "cn_world c" and ?s = "wd_fs (cn_world c)"
  obtain fp where fp: "full (rv_dest env) (fb_path fb) = Inr fp" "pcomps fp = t"
    using assms(3) by (auto simp: ready_def)
  have d: "pcomps (dir_of fp) = butlast t"
    using full_target(2,3) [OF env_abs [OF assms(1)] fp(1)] fp(2) by simp
  have r: "quiet ?w" "dir_err ?s (butlast t) = None" "look ?s tmp = None" "tree_ok ?s" "inos_fresh ?s"
    "tmp = butlast t @ [''.cs-sync.tmp.'' @ rv_tmp_name env (wd_tick ?w)]"
    using assms(3) by (auto simp: ready_def)
  let ?i = "fs_next ?s"
  let ?s1 = "(put_node tmp (NFile (new_file ?i mode600)) ?s)\<lparr>fs_next := Suc ?i\<rparr>"
  have ce: "fs_create_excl tmp mode600 ?s = Inr (?i, ?s1)"
    using r by (simp add: fs_create_excl_def in_dir_Inr)
  let ?w1 = "?w\<lparr>wd_tick := Suc (wd_tick ?w), wd_fs := ?s1\<rparr>"
  have b: "begin_io env (fb_path fb) ?w = (Inr (?i, tmp), ?w1)"
    using fp d r(6) mkdir_all_dirs [OF r(2)] sys_quiet [of ?w "fs_create_excl tmp mode600", OF r(1) ce]
    by (simp add: begin_io_def full_io_def seqio_def ret_def wrap_def Let_def)
  have m: "decode_begin fb (cn_meta c) = fb"
    using assms(4-7) by (auto simp: decode_begin_def)
  let ?c = "c\<lparr>cn_meta := fb, cn_path := fb_path fb, cn_world := ?w1, cn_tmp := Some (?i, tmp), cn_hashed := []\<rparr>"
  have e: "begin_file env fb c = (Inr (), ?c)"
    using b m assms(2) by (simp add: begin_file_def abort_transfer_def Let_def)
  have "only_ino ?s1 tmp ?i"
    using r(3,5) by (fastforce simp: only_ino_def new_file_def inos_fresh_def)
  moreover have "tree_ok ?s1"
  proof -
    have "is_dir ?s1 q = is_dir ?s q" for q
      using r(3) by (auto simp: is_dir_def)
    moreover have "is_dir ?s (butlast tmp)" using r(2,6) by (auto simp: dir_err_None)
    ultimately show ?thesis using r(4) by (auto simp: tree_ok_def)
  qed
  ultimately have "receiving ?w tmp fb [] ?c"
    using r(1) by (simp add: receiving_def new_file_def)
  then show ?thesis using e by blast
qed

lemma write_at_end [simp]: "write_at_data (length acc) d acc = acc @ d"
  by (simp add: write_at_data_def)

lemma block_receiving:
  assumes "receiving w0 tmp fb acc c" "fd_offset fd = int (length acc)" "fd_hash fd = rv_sha env (fd_data fd)"
  shows "\<exists>c'. block_file env fd c = (Inr (), c') \<and> receiving w0 tmp fb (acc @ fd_data fd) c'"
proof -
  let ?i = "fs_next (wd_fs w0)" and ?w = "cn_world c"
  obtain f where f: "wlook ?w tmp = Some (NFile f)" "f_ino f = ?i" "f_data f = acc"
    using assms(1) by (auto simp: receiving_def)
  have r: "quiet ?w" "cn_tmp c = Some (?i, tmp)" "only_ino (wd_fs ?w) tmp ?i" "tree_ok (wd_fs ?w)"
    "\<forall>q. q \<noteq> tmp \<longrightarrow> wlook ?w q = wlook w0 q" "cn_path c = fb_path fb" "cn_meta c = fb" "cn_hashed c = acc"
    using assms(1) by (auto simp: receiving_def)
  define s1 where "s1 = (if fd_data fd = [] then wd_fs ?w
    else upd_ino ?i (f_data_update (write_at_data (length acc) (fd_data fd))) (wd_fs ?w))"
  have "fs_write_at ?i (fd_offset fd) (fd_data fd) (wd_fs ?w) = Inr ((), s1)"
    using assms(2) by (simp add: fs_write_at_def s1_def)
  note wr = sys_quiet [of ?w "fs_write_at ?i (fd_offset fd) (fd_data fd)", OF r(1) this]
  let ?c = "c\<lparr>cn_world := ?w\<lparr>wd_tick := Suc (wd_tick ?w), wd_fs := s1\<rparr>, cn_hashed := acc @ fd_data fd\<rparr>"
  have "block_file env fd c = (Inr (), ?c)"
    using wr r assms(3) by (simp add: block_file_def)
  moreover have "\<exists>f. look s1 tmp = Some (NFile f) \<and> f_ino f = ?i \<and> f_data f = acc @ fd_data fd"
    using f by (auto simp: s1_def)
  moreover have "only_ino s1 tmp ?i" using r(3) only_upd by (auto simp: s1_def)
  moreover have "tree_ok s1" using r(4) tree_ok_upd by (auto simp: s1_def)
  moreover have "q \<noteq> tmp \<Longrightarrow> look s1 q = wlook w0 q" for q
    using r(5) upd_only [OF r(3)] by (simp add: s1_def)
  ultimately show ?thesis using r by (auto simp: receiving_def)
qed

lemma wrap_quiet:
  fixes g :: "fs \<Rightarrow> io_error + 'a \<times> fs"
  shows "quiet w \<Longrightarrow> g (wd_fs w) = Inr (x, s) \<Longrightarrow>
    wrap Io (sys g) w = (Inr x, w\<lparr>wd_tick := Suc (wd_tick w), wd_fs := s\<rparr>)"
  by (simp add: wrap_def sys_quiet)

lemma is_dir_replaced_file:
  assumes "\<forall>q. q \<noteq> tmp \<longrightarrow> look s q = look s0 q" "look s tmp = Some (NFile f)" "look s0 tmp = None" "tmp \<noteq> []"
  shows "is_dir s p = is_dir s0 p"
  using assms by (cases "p = tmp") (auto simp: is_dir_def)

lemma end_receiving:
  assumes "receiving w0 tmp fb acc c" "ready env w0 (fb_path fb) t tmp"
  shows "\<exists>c'. end_file env (rv_sha env acc) c = (Some (Inr ()), c') \<and> cn_tmp c' = None \<and>
    replaced tmp t \<lparr>f_ino = fs_next (wd_fs w0), f_data = acc, f_mode = fb_mode fb, f_mtime = fb_mtime fb\<rparr>
      w0 (cn_world c')"
proof -
  let ?i = "fs_next (wd_fs w0)" and ?w = "cn_world c"
  obtain f where f: "wlook ?w tmp = Some (NFile f)" "f_ino f = ?i" "f_data f = acc"
    using assms(1) by (auto simp: receiving_def)
  have r: "quiet ?w" "cn_tmp c = Some (?i, tmp)" "only_ino (wd_fs ?w) tmp ?i" "tree_ok (wd_fs ?w)"
    "\<forall>q. q \<noteq> tmp \<longrightarrow> wlook ?w q = wlook w0 q" "cn_path c = fb_path fb" "cn_meta c = fb" "cn_hashed c = acc"
    using assms(1) by (auto simp: receiving_def)
  obtain fp where fp: "full (rv_dest env) (fb_path fb) = Inr fp" "pcomps fp = t"
    using assms(2) by (auto simp: ready_def)
  have d: "dir_err (wd_fs w0) (butlast t) = None" "\<not> is_dir (wd_fs w0) t" "t \<noteq> tmp" "wlook w0 tmp = None"
    "butlast tmp = butlast t" "tmp \<noteq> []"
    using assms(2) by (auto simp: ready_def)
  let ?b = "finish_body env tmp (fb_path fb) fb acc (rv_sha env acc) ?w"
  have "\<exists>w'. ?b = (Inr (), w')"
  proof -
    let ?w2 = "?w\<lparr>wd_tick := Suc (Suc (wd_tick ?w)), wd_fs := wd_fs ?w\<rparr>"
    let ?s3 = "upd_ino ?i (f_mode_update (\<lambda>_. fb_mode fb)) (wd_fs ?w)"
    let ?s4 = "upd_ino ?i (f_mtime_update (\<lambda>_. fb_mtime fb)) ?s3"
    have dw: "is_dir (wd_fs ?w) p = is_dir (wd_fs w0) p" for p
      by (rule is_dir_replaced_file [OF r(5) f(1) d(4,6)])
    have de: "dir_err s (butlast t) = None" if "\<And>p. is_dir s p = is_dir (wd_fs ?w) p" for s
      using d(1) dw that dir_err_same by blast
    have de2: "dir_err (wd_fs ?w) (butlast t) = None" "dir_err ?s3 (butlast t) = None" "dir_err ?s4 (butlast t) = None"
      by (rule de, simp)+
    have c3: "fs_chmod tmp (fb_mode fb) (wd_fs ?w) = Inr ((), ?s3)"
      using f de2 d by (simp add: fs_chmod_def fs_on_file_def in_dir_Inr)
    have l3: "look ?s3 tmp = Some (NFile (f\<lparr>f_mode := fb_mode fb\<rparr>))" using upd_at [OF f(1)] f(2) by blast
    have c4: "fs_chtimes tmp (fb_mtime fb) ?s3 = Inr ((), ?s4)"
      using l3 f de2 d by (simp add: fs_chtimes_def fs_on_file_def in_dir_Inr del: look_upd_ino)
    have l4: "look ?s4 tmp = Some (NFile (f\<lparr>f_mode := fb_mode fb, f_mtime := fb_mtime fb\<rparr>))"
      using upd_at [OF l3] f(2) by simp
    have nd: "\<not> is_dir ?s4 tmp" "\<not> is_dir ?s4 t"
      using l4 d dw by (simp_all add: is_dir_def del: look_upd_ino)
        (metis d(2) dw is_dir_def is_dir_upd_ino)+
    have "\<not> strict_prefix tmp t"
    proof
      assume "strict_prefix tmp t"
      then have "length tmp < length t" by (rule prefix_length_less)
      moreover have "length tmp - 1 = length t - 1" using d(5) by (metis length_butlast)
      moreover have "0 < length tmp" using d(6) by simp
      ultimately show False by linarith
    qed
    then have "\<exists>s5. fs_rename tmp t ?s4 = Inr ((), s5)"
      using l4 nd de2 d by (simp add: fs_rename_def in_dir_def del: look_upd_ino)
    then obtain s5 where c5: "fs_rename tmp t ?s4 = Inr ((), s5)" ..
    show ?thesis
      using r(1) fp
      by (simp add: finish_body_def seqio_def full_io_def ret_def fs_sync_def c3 c4 c5
          wrap_quiet [of _ fs_sync] wrap_quiet [of _ "fs_chmod tmp (fb_mode fb)"]
          wrap_quiet [of _ "fs_chtimes tmp (fb_mtime fb)"] wrap_quiet [of _ "fs_rename tmp t"])
  qed
  then obtain w' where b: "?b = (Inr (), w')" ..
  have rep: "replaced tmp t \<lparr>f_ino = ?i, f_data = acc, f_mode = fb_mode fb, f_mtime = fb_mtime fb\<rparr> ?w w'"
    using finish_body_outcome [OF r(3,4) f(1) fp(1) _ b] fp(2) d(3) f
    by (cases f) (simp add: finish_outcome_def)
  let ?w2 = "snd (sys (fs_remove tmp) w')"
  have "wlook ?w2 q = wlook w' q" for q
    using rep remove_file_look [of w' tmp q]
    by (cases "q = tmp"; cases rule: sys_cases [of "fs_remove tmp" w'])
      (auto simp: replaced_def fs_remove_def in_dir_Inr)
  then have "replaced tmp t \<lparr>f_ino = ?i, f_data = acc, f_mode = fb_mode fb, f_mtime = fb_mtime fb\<rparr> w0 ?w2"
    using rep r(5) by (simp add: replaced_def)
  moreover have "end_file env (rv_sha env acc) c = (Some (Inr ()), c\<lparr>cn_world := ?w2, cn_tmp := None\<rparr>)"
    using r b by (simp add: end_file_def finish_file_def)
  ultimately show ?thesis by auto
qed

text \<open>The frames of a transfer in blocks, offsets and hashes as the sender computes them.\<close>

fun block_frames :: "rv_env \<Rightarrow> nat \<Rightarrow> bytes list \<Rightarrow> frame_in list" where
  "block_frames env off [] = []"
| "block_frames env off (d # ds) =
     Frame (MFileData \<lparr>fd_offset = int off, fd_hash = rv_sha env d, fd_data = d\<rparr>) # block_frames env (off + length d) ds"

lemma blocks_received:
  "receiving w0 tmp fb acc c \<Longrightarrow>
    \<exists>c'. receiving w0 tmp fb (acc @ concat ds) c' \<and>
      (\<forall>rest. session env (block_frames env (length acc) ds @ rest) c =
         (case session env rest c' of (rs, c'', b) \<Rightarrow> (replicate (length ds) (Inr ()) @ rs, c'', b)))"
proof (induction ds arbitrary: acc c)
  case Nil
  then show ?case by (auto split: prod.splits)
next
  case (Cons d ds)
  let ?fd = "\<lparr>fd_offset = int (length acc), fd_hash = rv_sha env d, fd_data = d\<rparr>"
  obtain c1 where c1: "block_file env ?fd c = (Inr (), c1)" "receiving w0 tmp fb (acc @ d) c1"
    using block_receiving [OF Cons.prems, of ?fd env] by auto
  obtain c' where c': "receiving w0 tmp fb ((acc @ d) @ concat ds) c'"
      "\<And>rest. session env (block_frames env (length (acc @ d)) ds @ rest) c1 =
         (case session env rest c' of (rs, c'', b) \<Rightarrow> (replicate (length ds) (Inr ()) @ rs, c'', b))"
    using Cons.IH [OF c1(2)] by blast
  have "session env (block_frames env (length acc) (d # ds) @ rest) c =
      (case session env rest c' of (rs, c'', b) \<Rightarrow> (replicate (length (d # ds)) (Inr ()) @ rs, c'', b))" for rest
    using c1(1) c'(2) [of rest] by (simp split: prod.splits)
  then show ?case using c'(1) by (intro exI [of _ c']) simp
qed

definition transfer :: "rv_env \<Rightarrow> file_begin \<Rightarrow> bytes list \<Rightarrow> frame_in list" where
  "transfer env fb ds =
     Frame (MFileBegin fb) # block_frames env 0 ds @ [Frame (MFileEnd (rv_sha env (concat ds)))]"

text \<open>
  C15. A complete transfer installs exactly what was sent: when no call fails, every frame of it is
  acked, the target ends up with the concatenation of the blocks and the announced mode and time, the
  temporary file is gone, and nothing else has changed. The announced values must not be zero where
  the previous transfer's were not, because the decoder leaves such a field as it was.
\<close>

theorem transfer_installs:
  assumes "env_ok env" "cn_tmp c = None" "ready env (cn_world c) (fb_path fb) t tmp"
    "fb_path fb \<noteq> []" "fb_size fb \<noteq> 0 \<or> fb_size (cn_meta c) = 0"
    "fb_mode fb \<noteq> 0 \<or> fb_mode (cn_meta c) = 0" "fb_mtime fb \<noteq> 0 \<or> fb_mtime (cn_meta c) = 0"
  shows "\<exists>c'. session env (transfer env fb ds) c = (replicate (length ds + 2) (Inr ()), c', False) \<and>
    replaced tmp t \<lparr>f_ino = fs_next (wd_fs (cn_world c)), f_data = concat ds, f_mode = fb_mode fb,
      f_mtime = fb_mtime fb\<rparr> (cn_world c) (cn_world c')"
proof -
  obtain c1 where c1: "begin_file env fb c = (Inr (), c1)" "receiving (cn_world c) tmp fb [] c1"
    using begin_receiving [OF assms] by blast
  obtain c2 where c2: "receiving (cn_world c) tmp fb (concat ds) c2"
      "\<And>rest. session env (block_frames env 0 ds @ rest) c1 =
         (case session env rest c2 of (rs, c'', b) \<Rightarrow> (replicate (length ds) (Inr ()) @ rs, c'', b))"
    using blocks_received [OF c1(2), of ds env] by auto
  obtain c3 where c3: "end_file env (rv_sha env (concat ds)) c2 = (Some (Inr ()), c3)" "cn_tmp c3 = None"
      "replaced tmp t \<lparr>f_ino = fs_next (wd_fs (cn_world c)), f_data = concat ds, f_mode = fb_mode fb,
        f_mtime = fb_mtime fb\<rparr> (cn_world c) (cn_world c3)"
    using end_receiving [OF c2(1) assms(3)] by blast
  have "session env (transfer env fb ds) c = (replicate (length ds + 2) (Inr ()), c3, False)"
    using c1(1) c2(2) [of "[Frame (MFileEnd (rv_sha env (concat ds)))]"] c3(1,2)
    by (simp add: transfer_def abort_transfer_def replicate_append_same)
  then show ?thesis using c3(3) by blast
qed

theorem transfer_installs_witness:
  "wlook (cn_world (fst (snd (session ex_env
      (transfer ex_env \<lparr>fb_path = ''a'', fb_size = 3, fb_mode = 420, fb_mtime = 9\<rparr> [[1, 2], [3]])
      (fresh_conn ex_world))))) [''d'', ''a''] =
    Some (NFile \<lparr>f_ino = 1, f_data = [1, 2, 3], f_mode = 420, f_mtime = 9\<rparr>)"
proof -
  let ?fb = "\<lparr>fb_path = ''a'', fb_size = 3, fb_mode = 420, fb_mtime = 9\<rparr> :: file_begin"
  let ?t = "[''d'', ''a'']" and ?tmp = "[''d'', ''.cs-sync.tmp.1'']"
  have f: "full (rv_dest ex_env) ''a'' = Inr ''/d/a''" and p: "pcomps ''/d/a'' = ?t" by code_simp+
  have e: "env_ok ex_env" by (simp add: env_ok_def ex_env_def is_abs_def has_prefix_def)
  have t: "tree_ok (wd_fs ex_world)" "inos_fresh (wd_fs ex_world)"
    by (auto simp: tree_ok_def inos_fresh_def ex_world_def look_def is_dir_def split: if_splits)
  have r: "ready ex_env (cn_world (fresh_conn ex_world)) (fb_path ?fb) ?t ?tmp"
    using f p t by (simp add: ready_def fresh_conn_def quiet_def ex_world_def ex_env_def look_def is_dir_def dir_err_def)
  show ?thesis
    using transfer_installs [OF e _ r, of "[[1, 2], [3]]"]
    by (auto simp: fresh_conn_def replaced_def ex_world_def)
qed

end
