(* ===== verification/Executor.thy ===== *)
theory Executor
  imports Receiver_Transfer Reconcile
begin

section \<open>Package apply: carrying out the operations of a pass\<close>

text \<open>
  \<open>internal/apply/executor.go\<close> and \<open>executor_rustfs.go\<close>, with \<open>internal/rustfs/target.go\<close> and
  \<open>transfer.go\<close>. External programs (the ACL tools, \<open>rclone\<close>) are arguments; what they were asked to
  do is recorded in the world.
\<close>

record ap_env =
  ap_acl_read :: "string \<Rightarrow> string \<Rightarrow> string option"
  ap_acl_tool :: "string \<Rightarrow> string \<Rightarrow> string \<Rightarrow> string option"
  ap_rclone :: "string list \<Rightarrow> string option"
  ap_sha :: "string \<Rightarrow> string"
  ap_rand :: "nat \<Rightarrow> string"

datatype ap_error = ApIo io_error | AclTool string | AclType string | Rclone "string list" string | UnknownOp

subsection \<open>RustFS targets and rclone\<close>

record rustfs_target =
  tg_host :: string
  tg_port :: int
  tg_bucket :: string
  tg_access :: string
  tg_secret :: string

definition tg_host_port :: "rustfs_target \<Rightarrow> string" where
  "tg_host_port t = tg_host t @ '':'' @ int_str (tg_port t)"

definition remote_name :: "ap_env \<Rightarrow> rustfs_target \<Rightarrow> string" where
  "remote_name env t = ''cssync_'' @ take 16 (ap_sha env (tg_host_port t))"

definition tg_root :: "ap_env \<Rightarrow> rustfs_target \<Rightarrow> string" where
  "tg_root env t = remote_name env t @ '':'' @ tg_bucket t"

definition tg_object :: "ap_env \<Rightarrow> rustfs_target \<Rightarrow> string \<Rightarrow> string" where
  "tg_object env t q = tg_root env t @ ''/'' @ q"

definition run_rclone :: "ap_env \<Rightarrow> string list \<Rightarrow> (ap_error, unit) io" where
  "run_rclone env args w =
     (let a = args @ [''--no-check-certificate'']
      in (case ap_rclone env a of None \<Rightarrow> Inr () | Some e \<Rightarrow> Inl (Rclone a e),
          w\<lparr>wd_cmds := wd_cmds w @ [''rclone'' # a]\<rparr>))"

definition ensure_remote :: "ap_env \<Rightarrow> rustfs_target \<Rightarrow> (ap_error, unit) io" where
  "ensure_remote env t =
     run_rclone env [''config'', ''create'', remote_name env t, ''s3'', ''provider=Other'',
       ''access_key_id='' @ tg_access t, ''secret_access_key='' @ tg_secret t,
       ''endpoint=https://'' @ tg_host_port t, ''--non-interactive'']"

definition copy_to :: "ap_env \<Rightarrow> rustfs_target \<Rightarrow> string \<Rightarrow> string \<Rightarrow> (ap_error, unit) io" where
  "copy_to env t loc obj = run_rclone env [''copyto'', loc, tg_object env t obj]"

definition copy_from :: "ap_env \<Rightarrow> rustfs_target \<Rightarrow> string \<Rightarrow> string \<Rightarrow> (ap_error, unit) io" where
  "copy_from env t obj loc = run_rclone env [''copyto'', tg_object env t obj, loc]"

definition delete_object :: "ap_env \<Rightarrow> rustfs_target \<Rightarrow> string \<Rightarrow> (ap_error, unit) io" where
  "delete_object env t obj = run_rclone env [''deletefile'', tg_object env t obj]"

definition resync :: "ap_env \<Rightarrow> string \<Rightarrow> rustfs_target \<Rightarrow> (ap_error, unit) io" where
  "resync env loc t = run_rclone env [''bisync'', loc, tg_root env t, ''--resync'']"

definition pull_sync :: "ap_env \<Rightarrow> rustfs_target \<Rightarrow> string \<Rightarrow> (ap_error, unit) io" where
  "pull_sync env t loc = run_rclone env [''sync'', tg_root env t, loc]"

subsection \<open>Copying an entry between two local roots\<close>

record roots =
  rt_primary :: string
  rt_secondary :: string
  rt_acl_type :: string
  rt_bootstrap :: "(string, string) amap"
  rt_kind :: string
  rt_target :: rustfs_target

definition root_of :: "roots \<Rightarrow> side \<Rightarrow> string" where
  "root_of r d = (if d = SidePrimary then rt_primary r else rt_secondary r)"

text \<open>A failing step after the temporary file was created removes it.\<close>

definition cleanup :: "path \<Rightarrow> (ap_error, unit) io \<Rightarrow> (ap_error, unit) io" where
  "cleanup tmp m w =
     (case m w of
        (Inl e, w') \<Rightarrow> (Inl e, snd (sys (fs_remove tmp) w'))
      | (Inr u, w') \<Rightarrow> (Inr u, w'))"

definition perm_bits :: "32 word \<Rightarrow> 32 word" where
  "perm_bits m = m AND 511"

definition copy_file :: "file_node \<Rightarrow> path \<Rightarrow> path \<Rightarrow> (ap_error, unit) io" where
  "copy_file f tmp dst =
     seqio (wrap ApIo (sys (fs_create_trunc tmp (perm_bits (f_mode f))))) (\<lambda>i.
     cleanup tmp
       (seqio (wrap ApIo (sys (fs_write_at i 0 (f_data f)))) (\<lambda>_.
        seqio (wrap ApIo (sys fs_sync)) (\<lambda>_.
        seqio (wrap ApIo (sys fs_sync)) (\<lambda>_.
        seqio (wrap ApIo (sys (fs_chtimes tmp (f_mtime f)))) (\<lambda>_.
        wrap ApIo (sys (fs_rename tmp dst))))))))"

text \<open>
  Reading a directory as a file creates the temporary file and fails at the first byte; the model has
  no path through a link, so a link where a file was announced is refused when it is opened.
\<close>

definition copy_entry :: "ap_env \<Rightarrow> string \<Rightarrow> string \<Rightarrow> string \<Rightarrow> entry_type \<Rightarrow> (ap_error, unit) io" where
  "copy_entry env src_root dst_root rel ty =
     (let src = join_path src_root rel; dst = join_path dst_root rel
      in seqio (wrap ApIo (mkdir_all (pcomps (dir_of dst)) mode755)) (\<lambda>_.
         if ty = TypeSymlink then
           seqio (wrap ApIo (sys (fs_readlink (pcomps src)))) (\<lambda>target.
           seqio (ignoring (sys (fs_remove (pcomps dst)))) (\<lambda>_.
           wrap ApIo (sys (fs_symlink target (pcomps dst)))))
         else (\<lambda>w.
           let tmp = pcomps (dst @ ''.cs-sync.tmp.'' @ ap_rand env (wd_tick w))
           in seqio (wrap ApIo (sys (fs_open (pcomps src)))) (\<lambda>n.
                case n of
                  NFile f \<Rightarrow> copy_file f tmp (pcomps dst)
                | NDir m \<Rightarrow>
                    seqio (wrap ApIo (sys (fs_create_trunc tmp (perm_bits m)))) (\<lambda>i.
                    cleanup tmp (fail_with (ApIo EISDIR)))
                | NSym t \<Rightarrow> fail_with (ApIo EINVAL)) w)))"

subsection \<open>Directories and their ACLs\<close>

definition ap_acl_apply :: "ap_env \<Rightarrow> string \<Rightarrow> string \<Rightarrow> string \<Rightarrow> (ap_error, unit) io" where
  "ap_acl_apply env q ty txt w =
     (if txt = [] then (Inr (), w)
      else if ty = ''posix'' \<or> ty = ''nfs4'' then
        (case ap_acl_tool env q ty txt of None \<Rightarrow> Inr () | Some e \<Rightarrow> Inl (AclTool e),
         w\<lparr>wd_cmds := wd_cmds w @ [[''acl'', q, ty, txt]]\<rparr>)
      else if ty = ''none'' then (Inr (), w)
      else (Inl (AclType ty), w))"

definition acl_read :: "ap_env \<Rightarrow> string \<Rightarrow> string \<Rightarrow> string option" where
  "acl_read env q ty =
     (if ty = ''posix'' \<or> ty = ''nfs4'' then ap_acl_read env q ty
      else if ty = ''none'' then Some [] else None)"

text \<open>The path whose ACL a new directory gets: its own on the primary, or its parent's there.\<close>

definition acl_source :: "roots \<Rightarrow> string \<Rightarrow> world \<Rightarrow> string" where
  "acl_source r rel w =
     (let own = join_path (rt_primary r) rel
      in if wlook w (pcomps own) \<noteq> None then own
         else let parent = dir_of rel
              in if parent = ''.'' then rt_primary r else join_path (rt_primary r) parent)"

definition mkdir_with_acl :: "ap_env \<Rightarrow> string \<Rightarrow> string \<Rightarrow> roots \<Rightarrow> (ap_error, unit) io" where
  "mkdir_with_acl env dst_root rel r =
     (let dst = join_path dst_root rel
      in seqio (wrap ApIo (mkdir_all (pcomps dst) mode755)) (\<lambda>_ w.
         if rt_acl_type r = [] then (Inr (), w)
         else if dst_root = rt_primary r then
           (case map_of (rt_bootstrap r) rel of
              None \<Rightarrow> (Inr (), w)
            | Some txt \<Rightarrow>
                if txt = [] then (Inr (), w)
                else ignoring (ap_acl_apply env dst (rt_acl_type r) txt) w)
         else case acl_read env (acl_source r rel w) (rt_acl_type r) of
           None \<Rightarrow> (Inr (), w)
         | Some txt \<Rightarrow> ignoring (ap_acl_apply env dst (rt_acl_type r) txt) w))"

subsection \<open>One operation\<close>

definition apply_rustfs :: "ap_env \<Rightarrow> roots \<Rightarrow> op \<Rightarrow> (ap_error, unit) io" where
  "apply_rustfs env r x =
     (let loc = join_path (rt_primary r) (o_path x)
      in case o_kind x of
           OpCopy \<Rightarrow>
             if o_dst x = SideSecondary then copy_to env (rt_target r) loc (o_path x)
             else copy_from env (rt_target r) (o_path x) loc
         | OpDelete \<Rightarrow>
             if o_dst x = SideSecondary then delete_object env (rt_target r) (o_path x) else fail_with UnknownOp
         | OpMkdir \<Rightarrow> ret ()
         | OpRmdir \<Rightarrow> ret ()
         | _ \<Rightarrow>
             if o_dst x \<noteq> SideSecondary then fail_with UnknownOp
             else seqio (copy_to env (rt_target r) loc (o_path x)) (\<lambda>_.
                  ignoring (delete_object env (rt_target r) (o_old x))))"

definition fs_rename_io :: "string \<Rightarrow> string \<Rightarrow> (ap_error, unit) io" where
  "fs_rename_io a b = wrap ApIo (sys (fs_rename (pcomps a) (pcomps b)))"

definition apply_one :: "ap_env \<Rightarrow> roots \<Rightarrow> op \<Rightarrow> (ap_error, unit) io" where
  "apply_one env r x =
     (if rt_kind r = ''rustfs'' \<and> (o_dst x = SideSecondary \<or> o_src x = SideSecondary)
      then apply_rustfs env r x
      else
        let root = root_of r (o_dst x);
            p = join_path root (o_path x); old = join_path root (o_old x)
        in case o_kind x of
             OpMkdir \<Rightarrow> mkdir_with_acl env root (o_path x) r
           | OpRmdir \<Rightarrow> wrap ApIo (sys (fs_remove_all (pcomps p)))
           | OpDelete \<Rightarrow>
               (\<lambda>w. case sys (fs_remove (pcomps p)) w of
                  (Inl ENOENT, w') \<Rightarrow> (Inr (), w')
                | (Inl e, w') \<Rightarrow> (Inl (ApIo e), w')
                | (Inr u, w') \<Rightarrow> (Inr u, w'))
           | OpRename \<Rightarrow>
               seqio (wrap ApIo (mkdir_all (pcomps (dir_of p)) mode755)) (\<lambda>_. fs_rename_io old p)
           | OpConflictRename \<Rightarrow> fs_rename_io old p
           | OpCopy \<Rightarrow> copy_entry env (root_of r (o_src x)) root (o_path x) (o_type x))"

text \<open>\<open>Apply\<close>: every operation in order, the errors collected.\<close>

fun apply_ops :: "ap_env \<Rightarrow> roots \<Rightarrow> op list \<Rightarrow> world \<Rightarrow> (op \<times> ap_error) list \<times> world" where
  "apply_ops env r [] w = ([], w)"
| "apply_ops env r (x # xs) w =
     (case apply_one env r x w of
        (res, w1) \<Rightarrow>
          (case apply_ops env r xs w1 of
             (errs, w2) \<Rightarrow> ((case res of Inl e \<Rightarrow> [(x, e)] | Inr u \<Rightarrow> []) @ errs, w2)))"

end
