(* ===== verification/Sender.thy ===== *)
theory Sender
  imports Guard Flat Executor
begin

section \<open>Package remote: the sender\<close>

text \<open>
  \<open>internal/remote/sender.go\<close>, \<open>sender_rustfs.go\<close> and the loading and saving of \<open>state.go\<close>. What the
  sender meets outside is an argument of the environment: what dialling gives, the answer to each
  frame, the clock, the source file as it is found, the outcome of saving. \<open>sn_tick\<close> counts these
  events, \<open>sn_log\<close> is the sequence of messages put on the wire.
\<close>

datatype reply = AckOk | AckErr string | BadAck | WrongFrame byte | Lost

record dial_answer =
  da_dial :: bool
  da_hello :: "frame_in option"
  da_sent :: bool
  da_accept :: "frame_in option"

text \<open>A source file as \<open>sendFile\<close> finds it: the two \<open>stat\<close> results, whether it opens, what it reads.\<close>

record file_view =
  fv_stat0 :: "(int \<times> int) option"
  fv_open :: bool
  fv_data :: bytes
  fv_read_err :: bool
  fv_stat1 :: "(int \<times> int) option"

record sn_env =
  se_primary :: string
  se_os :: string
  se_acl_type :: string
  se_key :: string
  se_version :: string
  se_service :: string
  se_stamp :: string
  se_budget :: budget
  se_target :: rustfs_target
  se_ap :: ap_env
  se_reply :: "nat \<Rightarrow> reply"
  se_dial :: "nat \<Rightarrow> dial_answer"
  se_clock :: "nat \<Rightarrow> int"
  se_file :: "nat \<Rightarrow> string \<Rightarrow> file_view"
  se_sha :: "bytes \<Rightarrow> string"
  se_dev :: "u64 option"
  se_saves :: "nat \<Rightarrow> outcome"
  se_freeze_ok :: bool
  se_rng :: "nat \<Rightarrow> tree \<Rightarrow> tree"
  se_now :: "nat \<Rightarrow> string"

datatype sn_error =
    NotConnected
  | Transport
  | NotAnAck byte
  | UndecodableAck
  | RemoteError string
  | DialError
  | HandshakeError
  | VersionMismatch int
  | RefusedByReceiver string
  | SourceError
  | TornCopy string
  | NoSymlinks string
  | RustfsError ap_error

text \<open>How an error is written into the retry file.\<close>

definition show_error :: "sn_error \<Rightarrow> string" where
  "show_error e =
     (case e of
        NotConnected \<Rightarrow> ''not connected''
      | RemoteError m \<Rightarrow> ''remote: '' @ m
      | TornCopy q \<Rightarrow> ''torn copy: '' @ q @ '' changed during transfer, requeued''
      | _ \<Rightarrow> ''error'')"

record sender =
  sn_conn :: bool
  sn_peer :: welcome_msg
  sn_same_os :: bool
  sn_source :: u64
  sn_retry :: retry_state
  sn_baseline :: tree
  sn_markers :: markers
  sn_base_slot :: "tree slot"
  sn_retry_slot :: "retry_state slot"
  sn_source_slot :: "u64 slot"
  sn_log :: "msg list"
  sn_world :: world
  sn_tick :: nat

definition uses_rustfs :: "sn_env \<Rightarrow> bool" where
  "uses_rustfs env \<longleftrightarrow> tg_bucket (se_target env) \<noteq> []"

text \<open>\<open>Init\<close>: the state of a pair as it was saved.\<close>

definition init_sender :: "sender \<Rightarrow> sender" where
  "init_sender s =
     s\<lparr>sn_baseline := load_remote_baseline (sn_base_slot s), sn_retry := load_retry (sn_retry_slot s),
       sn_source := load_source_id (sn_source_slot s)\<rparr>"

definition tick :: "sender \<Rightarrow> sender" where
  "tick s = s\<lparr>sn_tick := Suc (sn_tick s)\<rparr>"

subsection \<open>One frame and its ack\<close>

definition roundtrip :: "sn_env \<Rightarrow> msg \<Rightarrow> sender \<Rightarrow> (sn_error + unit) \<times> sender" where
  "roundtrip env m s =
     (if \<not> sn_conn s then (Inl NotConnected, s)
      else let s1 = (tick s)\<lparr>sn_log := sn_log s @ [m]\<rparr>
           in case se_reply env (sn_tick s) of
                Lost \<Rightarrow> (Inl Transport, s1\<lparr>sn_conn := False\<rparr>)
              | WrongFrame t \<Rightarrow> (Inl (NotAnAck t), s1\<lparr>sn_conn := False\<rparr>)
              | BadAck \<Rightarrow> (Inl UndecodableAck, s1)
              | AckErr e \<Rightarrow> (Inl (RemoteError e), s1)
              | AckOk \<Rightarrow> (Inr (), s1))"

subsection \<open>Connecting\<close>

text \<open>\<open>s.peer\<close> is decoded in place, so fields the peer sends as zero keep their old value.\<close>

definition decode_peer :: "welcome_msg \<Rightarrow> welcome_msg \<Rightarrow> welcome_msg" where
  "decode_peer new cur =
     \<lparr>w_proto = (if w_proto new = 0 then w_proto cur else w_proto new),
      w_version = (if w_version new = [] then w_version cur else w_version new),
      w_os = (if w_os new = [] then w_os cur else w_os new),
      w_acl_type = (if w_acl_type new = [] then w_acl_type cur else w_acl_type new),
      w_key = (if w_key new = [] then w_key cur else w_key new)\<rparr>"

definition hello_msg :: "sn_env \<Rightarrow> msg" where
  "hello_msg env =
     MWelcome \<lparr>w_proto = proto_version, w_version = se_version env, w_os = se_os env,
       w_acl_type = se_acl_type env, w_key = se_key env\<rparr>"

definition connected :: "sn_env \<Rightarrow> sender \<Rightarrow> sender" where
  "connected env s =
     (let s1 = s\<lparr>sn_conn := True,
                 sn_same_os := (w_os (sn_peer s) = se_os env \<and> w_acl_type (sn_peer s) = se_acl_type env)\<rparr>
      in if se_service env \<noteq> []
         then s1\<lparr>sn_log := sn_log s1 @ [MLoopMarker \<lparr>lm_service = se_service env, lm_stamp = se_stamp env\<rparr>]\<rparr>
         else s1)"

definition dial :: "sn_env \<Rightarrow> sender \<Rightarrow> (sn_error + unit) \<times> sender" where
  "dial env s =
     (let a = se_dial env (sn_tick s); s0 = tick s
      in if \<not> da_dial a then (Inl DialError, s0)
         else case da_hello a of
           Some (Frame (MWelcome h)) \<Rightarrow>
             (let s1 = s0\<lparr>sn_peer := decode_peer h (sn_peer s0)\<rparr>
              in if w_proto (sn_peer s1) \<noteq> proto_version then (Inl (VersionMismatch (w_proto (sn_peer s1))), s1)
                 else let s2 = s1\<lparr>sn_log := sn_log s1 @ [hello_msg env]\<rparr>
                      in if \<not> da_sent a then (Inl Transport, s2)
                         else case da_accept a of
                           Some (Frame (MAck k)) \<Rightarrow>
                             if \<not> ack_ok k then (Inl (RefusedByReceiver (ack_err k)), s2)
                             else (Inr (), connected env s2)
                         | _ \<Rightarrow> (Inl HandshakeError, s2))
         | _ \<Rightarrow> (Inl HandshakeError, s0))"

definition connect :: "sn_env \<Rightarrow> sender \<Rightarrow> (sn_error + unit) \<times> sender" where
  "connect env s =
     (if uses_rustfs env then (Inr (), s)
      else if sn_conn s then
        (case roundtrip env MPing s of
           (Inr u, s1) \<Rightarrow> (Inr (), s1)
         | (Inl e, s1) \<Rightarrow> dial env (s1\<lparr>sn_conn := False\<rparr>))
      else dial env s)"

subsection \<open>Sending a file\<close>

text \<open>The blocks \<open>io.ReadFull\<close> delivers: full ones, then what is left.\<close>

function blocks :: "nat \<Rightarrow> bytes \<Rightarrow> bytes list" where
  "blocks n d = (if d = [] \<or> n = 0 then [] else take n d # blocks n (drop n d))"
  by pat_completeness auto
termination by (relation "measure (\<lambda>(n, d). length d)") auto

declare blocks.simps [simp del]

fun send_blocks :: "sn_env \<Rightarrow> nat \<Rightarrow> bytes list \<Rightarrow> sender \<Rightarrow> (sn_error + unit) \<times> sender" where
  "send_blocks env off [] s = (Inr (), s)"
| "send_blocks env off (d # ds) s =
     (case roundtrip env (MFileData \<lparr>fd_offset = int off, fd_hash = se_sha env d, fd_data = d\<rparr>) s of
        (Inl e, s1) \<Rightarrow> (Inl e, s1)
      | (Inr u, s1) \<Rightarrow> send_blocks env (off + length d) ds s1)"

text \<open>The final frame: the file's hash, or \<open>torn\<close> when size or time changed while it was read.\<close>

definition send_end :: "sn_env \<Rightarrow> string \<Rightarrow> file_view \<Rightarrow> sender \<Rightarrow> (sn_error + unit) \<times> sender" where
  "send_end env rel v s =
     (case fv_stat1 v of
        None \<Rightarrow> (Inl SourceError, s)
      | Some st \<Rightarrow>
          if Some st \<noteq> fv_stat0 v then (Inl (TornCopy rel), snd (roundtrip env (MFileEnd ''torn'') s))
          else roundtrip env (MFileEnd (se_sha env (fv_data v))) s)"

definition send_file :: "sn_env \<Rightarrow> string \<Rightarrow> entry \<Rightarrow> sender \<Rightarrow> (sn_error + unit) \<times> sender" where
  "send_file env rel e s =
     (let v = se_file env (sn_tick s) rel
      in case fv_stat0 v of
           None \<Rightarrow> (Inl SourceError, s)
         | Some (sz, mt) \<Rightarrow>
             if \<not> fv_open v then (Inl SourceError, s)
             else case roundtrip env (MFileBegin \<lparr>fb_path = rel, fb_size = sz, fb_mode = e_mode e, fb_mtime = e_mtime e\<rparr>) s of
               (Inl er, s1) \<Rightarrow> (Inl er, s1)
             | (Inr u, s1) \<Rightarrow>
                 (case send_blocks env 0 (blocks block_size (fv_data v)) s1 of
                    (Inl er, s2) \<Rightarrow> (Inl er, s2)
                  | (Inr u, s2) \<Rightarrow> if fv_read_err v then (Inl SourceError, s2) else send_end env rel v s2))"

subsection \<open>Sending an operation\<close>

definition tree_entry :: "tree \<Rightarrow> string \<Rightarrow> entry" where
  "tree_entry t q = (case map_of t q of None \<Rightarrow> zero_entry | Some e \<Rightarrow> e)"

definition wire_of :: "string \<Rightarrow> wire_op" where
  "wire_of q = \<lparr>wo_path = q, wo_old = [], wo_mode = 0, wo_mtime = 0, wo_link = [], wo_acl = []\<rparr>"

definition on_rclone :: "(ap_error, unit) io \<Rightarrow> sender \<Rightarrow> (sn_error + unit) \<times> sender" where
  "on_rclone m s =
     (case m (sn_world s) of
        (Inl e, w) \<Rightarrow> (Inl (RustfsError e), s\<lparr>sn_world := w\<rparr>)
      | (Inr u, w) \<Rightarrow> (Inr (), s\<lparr>sn_world := w\<rparr>))"

definition send_op_rustfs :: "sn_env \<Rightarrow> tree \<Rightarrow> op \<Rightarrow> sender \<Rightarrow> (sn_error + unit) \<times> sender" where
  "send_op_rustfs env t x s =
     (let e = tree_entry t (o_path x); loc = join_path (se_primary env) (o_path x);
          up = copy_to (se_ap env) (se_target env) loc (o_path x)
      in case o_kind x of
           OpMkdir \<Rightarrow> (Inr (), s)
         | OpRmdir \<Rightarrow> (Inr (), s)
         | OpDelete \<Rightarrow> on_rclone (delete_object (se_ap env) (se_target env) (o_path x)) s
         | OpCopy \<Rightarrow> if e_type e = TypeSymlink then (Inl (NoSymlinks (o_path x)), s) else on_rclone up s
         | OpRename \<Rightarrow>
             if e_type e = TypeDir then (Inr (), s)
             else on_rclone (seqio up (\<lambda>_. delete_object (se_ap env) (se_target env) (o_old x))) s
         | OpConflictRename \<Rightarrow> (Inr (), s))"

definition send_op :: "sn_env \<Rightarrow> tree \<Rightarrow> op \<Rightarrow> sender \<Rightarrow> (sn_error + unit) \<times> sender" where
  "send_op env t x s =
     (if uses_rustfs env then send_op_rustfs env t x s
      else let e = tree_entry t (o_path x); q = o_path x
           in case o_kind x of
                OpMkdir \<Rightarrow>
                  roundtrip env (MMkdir ((wire_of q)\<lparr>wo_mode := e_mode e, wo_mtime := e_mtime e,
                    wo_acl := (if sn_same_os s then e_acl e else [])\<rparr>)) s
              | OpRename \<Rightarrow> roundtrip env (MRename ((wire_of q)\<lparr>wo_old := o_old x\<rparr>)) s
              | OpDelete \<Rightarrow> roundtrip env (MDelete (wire_of q)) s
              | OpRmdir \<Rightarrow> roundtrip env (MRmdir (wire_of q)) s
              | OpCopy \<Rightarrow>
                  if e_type e = TypeSymlink then roundtrip env (MSymlink ((wire_of q)\<lparr>wo_link := e_link e\<rparr>)) s
                  else send_file env q e s
              | OpConflictRename \<Rightarrow> (Inr (), s))"

subsection \<open>The baseline\<close>

definition below :: "string \<Rightarrow> string \<Rightarrow> bool" where
  "below d q \<longleftrightarrow> has_prefix q (d @ ''/'')"

text \<open>A renamed directory carries its children: the loop over the map as it was before it.\<close>

definition carry :: "string \<Rightarrow> string \<Rightarrow> tree \<Rightarrow> tree" where
  "carry old new b =
     fold (\<lambda>(q, e) m.
       let np = new @ ''/'' @ trim_prefix q (old @ ''/'')
       in AList.update np (e\<lparr>e_path := np\<rparr>) (AList.delete q m))
       (filter (\<lambda>(q, e). below old q) b) b"

definition apply_to_baseline :: "tree \<Rightarrow> op \<Rightarrow> tree \<Rightarrow> tree" where
  "apply_to_baseline t x b =
     (case o_kind x of
        OpDelete \<Rightarrow> AList.delete (o_path x) b
      | OpRmdir \<Rightarrow> filter (\<lambda>(q, e). \<not> below (o_path x) q) (AList.delete (o_path x) b)
      | OpRename \<Rightarrow>
          carry (o_old x) (o_path x)
            (case map_of b (o_old x) of
               None \<Rightarrow> b
             | Some e \<Rightarrow> AList.update (o_path x) (e\<lparr>e_path := o_path x\<rparr>) (AList.delete (o_old x) b))
      | _ \<Rightarrow> (case map_of t (o_path x) of None \<Rightarrow> b | Some e \<Rightarrow> AList.update (o_path x) e b))"

subsection \<open>A pass\<close>

text \<open>Creates by ascending path (parents first), then deletes by descending path (children first).\<close>

definition pass_order :: "op list \<Rightarrow> op list" where
  "pass_order xs =
     sort_key o_path (filter (\<lambda>x. \<not> is_del x) xs) @ rev (sort_key o_path (filter is_del xs))"

definition is_blocked :: "string list \<Rightarrow> string \<Rightarrow> bool" where
  "is_blocked blocked q \<longleftrightarrow> list_ex (\<lambda>d. has_prefix q d) blocked"

definition set_retry :: "sender \<Rightarrow> retry_state \<Rightarrow> sender" where
  "set_retry s r = s\<lparr>sn_retry := r\<rparr>"

text \<open>The loop over the operations; it returns the operations that were acked and the number that failed.\<close>

fun send_loop :: "sn_env \<Rightarrow> tree \<Rightarrow> op list \<Rightarrow> string list \<Rightarrow> sender \<Rightarrow> op list \<times> nat \<times> sender" where
  "send_loop env t [] blocked s = ([], 0, s)"
| "send_loop env t (x # xs) blocked s =
     (if skip (se_clock env (sn_tick s)) (o_path x) (sn_retry s) \<or> is_blocked blocked (o_path x)
      then send_loop env t xs blocked s
      else case send_op env t x s of
        (Inl e, s1) \<Rightarrow>
          (let blocked1 = (if o_kind x = OpMkdir then blocked @ [o_path x @ ''/''] else blocked);
               s2 = set_retry s1 (fst (fail (se_clock env (sn_tick s1)) (o_path x) (show_error e) (sn_retry s1)))
           in if \<not> sn_conn s2 \<and> \<not> uses_rustfs env then ([], 1, s2)
              else case send_loop env t xs blocked1 s2 of (acked, failed, s3) \<Rightarrow> (acked, Suc failed, s3))
      | (Inr u, s1) \<Rightarrow>
          (let s2 = s1\<lparr>sn_retry := clear (o_path x) (sn_retry s1),
                       sn_baseline := apply_to_baseline t x (sn_baseline s1)\<rparr>
           in case send_loop env t xs blocked s2 of (acked, failed, s3) \<Rightarrow> (x # acked, failed, s3)))"

text \<open>\<open>resyncFolderACLs\<close>: the order is that of a range over the tree.\<close>

fun resync_acls :: "sn_env \<Rightarrow> tree \<Rightarrow> sender \<Rightarrow> bool \<times> sender" where
  "resync_acls env [] s = (True, s)"
| "resync_acls env ((q, e) # t) s =
     (if e_type e \<noteq> TypeDir \<or> e_acl e = [] then resync_acls env t s
      else case roundtrip env (MFolderACL \<lparr>fa_path = q, fa_acl_type = se_acl_type env, fa_text = e_acl e\<rparr>) s of
        (Inl er, s1) \<Rightarrow> if \<not> sn_conn s1 then (False, s1) else resync_acls env t s1
      | (Inr u, s1) \<Rightarrow> resync_acls env t s1)"

definition root_acl_msg :: "sn_env \<Rightarrow> string \<Rightarrow> msg" where
  "root_acl_msg env acl = MFolderACL \<lparr>fa_path = ''.'', fa_acl_type = se_acl_type env, fa_text = acl\<rparr>"

definition resync_folder_acls :: "sn_env \<Rightarrow> tree \<Rightarrow> string \<Rightarrow> sender \<Rightarrow> sender" where
  "resync_folder_acls env t root_acl s =
     (case resync_acls env t s of
        (False, s1) \<Rightarrow> s1
      | (True, s1) \<Rightarrow> if root_acl \<noteq> [] then snd (roundtrip env (root_acl_msg env root_acl) s1) else s1)"

text \<open>After the operations: the portable ACLs, the root's ACL, and saving.\<close>

definition push_acl_csv :: "sn_env \<Rightarrow> bytes \<Rightarrow> sender \<Rightarrow> sender" where
  "push_acl_csv env csv s = (if sn_conn s \<and> csv \<noteq> [] then snd (roundtrip env (MAclCSV csv) s) else s)"

definition push_root_acl :: "sn_env \<Rightarrow> string \<Rightarrow> sender \<Rightarrow> sender" where
  "push_root_acl env acl s =
     (if sn_conn s \<and> sn_same_os s \<and> acl \<noteq> [] then snd (roundtrip env (root_acl_msg env acl) s) else s)"

definition save_pair :: "sn_env \<Rightarrow> sender \<Rightarrow> sender" where
  "save_pair env s =
     s\<lparr>sn_base_slot := save_remote_baseline (se_saves env 1) (sn_baseline s) (sn_base_slot s),
       sn_retry_slot := fst (save_retry_file (se_saves env 2) (sn_retry s) (sn_retry_slot s))\<rparr>"

definition finish_pass :: "sn_env \<Rightarrow> string \<Rightarrow> bytes \<Rightarrow> sender \<Rightarrow> sender" where
  "finish_pass env root_acl csv s = save_pair env (push_root_acl env root_acl (push_acl_csv env csv s))"

definition pending :: "sn_env \<Rightarrow> tree \<Rightarrow> tree \<Rightarrow> op list" where
  "pending env base t = r_ops (reconcile (se_rng env) (se_now env) base t base)"

definition count_deletes :: "op list \<Rightarrow> nat" where
  "count_deletes xs = length (filter is_del xs)"

text \<open>
  \<open>Pass\<close>, in three parts: the guards before a connection is made, the budget and the operations after
  it. The first component of a result is the list of acked operations.
\<close>

definition pass_ops :: "sn_env \<Rightarrow> tree \<Rightarrow> string \<Rightarrow> string \<Rightarrow> bytes \<Rightarrow> bool \<Rightarrow> sender \<Rightarrow> op list \<times> sender" where
  "pass_ops env t reason root_acl csv approved s =
     (let xs = pending env (sn_baseline s) t;
          over = budget_check (se_budget env) (int (count_deletes xs)) (int (length (sn_baseline s)))
      in case (over, approved) of
           (Some why, False) \<Rightarrow>
             ([], if se_freeze_ok env then s\<lparr>sn_markers := freeze why (sn_markers s)\<rparr> else s)
         | _ \<Rightarrow>
             if xs = [] then
               ([], if sn_same_os s \<and> (reason = ''safety-net'' \<or> reason = ''sighup'')
                    then resync_folder_acls env t root_acl s else s)
             else (case send_loop env t (pass_order xs) [] s of
                     (acked, failed, s1) \<Rightarrow> (acked, finish_pass env root_acl csv s1)))"

definition pass_connected :: "sn_env \<Rightarrow> tree \<Rightarrow> string \<Rightarrow> string \<Rightarrow> bytes \<Rightarrow> bool \<Rightarrow> sender \<Rightarrow> op list \<times> sender" where
  "pass_connected env t reason root_acl csv approved s =
     (case check_source (se_dev env) (sn_source s) of
        Inl e \<Rightarrow> ([], s)
      | Inr dev \<Rightarrow>
          (let s1 = s\<lparr>sn_source := dev, sn_source_slot := save_source_id (se_saves env 0) dev (sn_source_slot s)\<rparr>
           in case connect env s1 of
                (Inl e, s2) \<Rightarrow> ([], s2)
              | (Inr u, s2) \<Rightarrow> pass_ops env t reason root_acl csv approved s2))"

definition pass :: "sn_env \<Rightarrow> tree \<Rightarrow> string \<Rightarrow> string \<Rightarrow> bytes \<Rightarrow> sender \<Rightarrow> op list \<times> sender" where
  "pass env t reason root_acl csv s =
     (case consume_approval (sn_markers s) of
        (approved, m) \<Rightarrow>
          (let s0 = s\<lparr>sn_markers := m\<rparr>
           in if \<not> approved \<and> frozen m then ([], s0)
              else pass_connected env t reason root_acl csv approved s0))"

end
