(* ===== verification/Executor_Correct.thy ===== *)
theory Executor_Correct
  imports Executor
begin

section \<open>What the executor does to the two trees\<close>

text \<open>
  A copy replaces its target as a whole or leaves it alone; the errors of a pass are exactly those of
  its failing operations; and a conflict on a RustFS secondary never saves the bucket's version.
\<close>

subsection \<open>Copying a file\<close>

definition holding :: "fs \<Rightarrow> path \<Rightarrow> nat \<Rightarrow> file_node \<Rightarrow> fs \<Rightarrow> bool" where
  "holding s0 tmp i h s \<longleftrightarrow>
     look s tmp = Some (NFile h) \<and> f_ino h = i \<and> only_ino s tmp i \<and> tree_ok s \<and>
     (\<forall>q. q \<noteq> tmp \<longrightarrow> look s q = look s0 q)"

lemma holding_upd:
  assumes "holding s0 tmp i h s" "\<And>f. f_ino (g f) = f_ino f"
  shows "holding s0 tmp i (g h) (upd_ino i g s)"
proof -
  have h: "look s tmp = Some (NFile h)" "f_ino h = i" "only_ino s tmp i" "tree_ok s"
    using assms(1) by (auto simp: holding_def)
  have "look (upd_ino i g s) tmp = Some (NFile (g h))" using upd_at [OF h(1)] h(2) by blast
  then show ?thesis
    using assms h upd_only [OF h(3)] only_upd [OF h(3), of g] tree_ok_upd [OF h(4)]
    by (simp add: holding_def del: look_upd_ino)
qed

lemma holding_create:
  assumes "tree_ok s" "inos_fresh s" "look s tmp = None" "dir_err s (butlast tmp) = None" "tmp \<noteq> []"
  shows "holding s tmp (fs_next s) (new_file (fs_next s) m)
    ((put_node tmp (NFile (new_file (fs_next s) m)) s)\<lparr>fs_next := Suc (fs_next s)\<rparr>)"
proof -
  let ?s1 = "(put_node tmp (NFile (new_file (fs_next s) m)) s)\<lparr>fs_next := Suc (fs_next s)\<rparr>"
  have "is_dir ?s1 q = is_dir s q" for q
    using assms(3,5) by (auto simp: is_dir_def)
  moreover have "is_dir s (butlast tmp)" using assms(4) by (simp add: dir_err_None)
  ultimately have "tree_ok ?s1" using assms(1) by (auto simp: tree_ok_def)
  moreover have "only_ino ?s1 tmp (fs_next s)"
    using assms(2,3) by (fastforce simp: only_ino_def new_file_def inos_fresh_def)
  ultimately show ?thesis by (simp add: holding_def new_file_def)
qed

lemma ap_sys_cases:
  obtains (stop) e w1 where "wrap ApIo (sys g) w = (Inl (ApIo e), w1)" "wd_fs w1 = wd_fs w"
  | (go) x w1 where "wrap ApIo (sys g) w = (Inr x, w1)" "g (wd_fs w) = Inr (x, wd_fs w1)"
proof (cases rule: sys_cases [of g w])
  case fault
  then show thesis using stop [of EIO "w\<lparr>wd_tick := Suc (wd_tick w)\<rparr>"] by (simp add: wrap_def)
next
  case (err e)
  then show thesis using stop [of e "w\<lparr>wd_tick := Suc (wd_tick w)\<rparr>"] by (simp add: wrap_def)
next
  case (ok x s)
  then show thesis using go [of x "w\<lparr>wd_tick := Suc (wd_tick w), wd_fs := s\<rparr>"] by (simp add: wrap_def)
qed

lemma cleanup_untouched:
  assumes "fst (m w) = Inl e" "holding s0 tmp i h (wd_fs (snd (m w)))" "q \<noteq> tmp"
  shows "wlook (snd (cleanup tmp m w)) q = look s0 q"
proof -
  obtain w' where m: "m w = (Inl e, w')" using assms(1) by (cases "m w") auto
  have "wlook (snd (sys (fs_remove tmp) w')) q = wlook w' q"
    using assms(2,3) m by (intro remove_file_look) (auto simp: holding_def)
  then show ?thesis using assms(2,3) m by (simp add: cleanup_def holding_def)
qed

definition copied :: "file_node \<Rightarrow> nat \<Rightarrow> file_node" where
  "copied f i = \<lparr>f_ino = i, f_data = f_data f, f_mode = perm_bits (f_mode f), f_mtime = f_mtime f\<rparr>"

text \<open>
  The steps after the temporary file exists: stopped with it still in place, or finished with the
  target replaced.
\<close>

definition copy_steps :: "file_node \<Rightarrow> path \<Rightarrow> path \<Rightarrow> nat \<Rightarrow> (ap_error, unit) io" where
  "copy_steps f tmp dst i =
     seqio (wrap ApIo (sys (fs_write_at i 0 (f_data f)))) (\<lambda>_.
     seqio (wrap ApIo (sys fs_sync)) (\<lambda>_.
     seqio (wrap ApIo (sys fs_sync)) (\<lambda>_.
     seqio (wrap ApIo (sys (fs_chtimes tmp (f_mtime f)))) (\<lambda>_.
     wrap ApIo (sys (fs_rename tmp dst))))))"

lemma copy_file_steps:
  "copy_file f tmp dst =
     seqio (wrap ApIo (sys (fs_create_trunc tmp (perm_bits (f_mode f))))) (\<lambda>i. cleanup tmp (copy_steps f tmp dst i))"
  by (simp add: copy_file_def copy_steps_def)

lemma copy_steps_outcome:
  assumes "holding s0 tmp i (new_file i (perm_bits (f_mode f))) (wd_fs w)" "dst \<noteq> tmp"
  shows "(\<exists>e h. fst (copy_steps f tmp dst i w) = Inl e \<and> holding s0 tmp i h (wd_fs (snd (copy_steps f tmp dst i w)))) \<or>
    (fst (copy_steps f tmp dst i w) = Inr () \<and>
      wlook (snd (copy_steps f tmp dst i w)) dst = Some (NFile (copied f i)) \<and>
      wlook (snd (copy_steps f tmp dst i w)) tmp = None \<and>
      (\<forall>q. q \<noteq> tmp \<and> q \<noteq> dst \<longrightarrow> wlook (snd (copy_steps f tmp dst i w)) q = look s0 q))"
proof (cases rule: ap_sys_cases [of "fs_write_at i 0 (f_data f)" w])
  case stop
  then show ?thesis using assms(1) by (auto simp: copy_steps_def seqio_def)
next
  case (go x1 w1)
  note s1 = this
  let ?h1 = "(new_file i (perm_bits (f_mode f)))\<lparr>f_data := f_data f\<rparr>"
  have h1: "holding s0 tmp i ?h1 (wd_fs w1)"
  proof (cases "f_data f = []")
    case True
    then show ?thesis using s1(2) assms(1) by (simp add: fs_write_at_def new_file_def)
  next
    case False
    then have "wd_fs w1 = upd_ino i (f_data_update (write_at_data 0 (f_data f))) (wd_fs w)"
      using s1(2) by (simp add: fs_write_at_def)
    then show ?thesis
      using holding_upd [OF assms(1), of "f_data_update (write_at_data 0 (f_data f))"]
      by (simp add: new_file_def write_at_data_def)
  qed
  show ?thesis
  proof (cases rule: ap_sys_cases [of fs_sync w1])
    case stop
    then show ?thesis using s1 h1 by (auto simp: copy_steps_def seqio_def)
  next
    case (go x2 w2)
    note s2 = this
    have w2: "wd_fs w2 = wd_fs w1" using s2(2) by (simp add: fs_sync_def)
    show ?thesis
    proof (cases rule: ap_sys_cases [of fs_sync w2])
      case stop
      then show ?thesis using s1 s2 w2 h1 by (auto simp: copy_steps_def seqio_def)
    next
      case (go x3 w3)
      note s3 = this
      have w3: "wd_fs w3 = wd_fs w1" using s3(2) w2 by (simp add: fs_sync_def)
      show ?thesis
      proof (cases rule: ap_sys_cases [of "fs_chtimes tmp (f_mtime f)" w3])
        case stop
        then show ?thesis using s1 s2 s3 w3 h1 by (auto simp: copy_steps_def seqio_def)
      next
        case (go x4 w4)
        note s4 = this
        have "look (wd_fs w1) tmp = Some (NFile ?h1)" "f_ino ?h1 = i" using h1 by (simp_all add: holding_def)
        then have "wd_fs w4 = upd_ino i (f_mtime_update (\<lambda>_. f_mtime f)) (wd_fs w1)"
          using s4(2) w3 by (simp add: fs_chtimes_def fs_on_file_def in_dir_Inr)
        then have "holding s0 tmp i (?h1\<lparr>f_mtime := f_mtime f\<rparr>) (wd_fs w4)"
          using holding_upd [OF h1, of "f_mtime_update (\<lambda>_. f_mtime f)"] by simp
        then have h4: "holding s0 tmp i (copied f i) (wd_fs w4)" by (simp add: copied_def new_file_def)
        show ?thesis
        proof (cases rule: ap_sys_cases [of "fs_rename tmp dst" w4])
          case stop
          then show ?thesis using s1 s2 s3 s4 h4 by (auto simp: copy_steps_def seqio_def)
        next
          case (go x5 w5)
          have l: "look (wd_fs w4) tmp = Some (NFile (copied f i))" "tree_ok (wd_fs w4)"
            using h4 by (simp_all add: holding_def)
          note rn = rename_file [OF go(2) l assms(2) [symmetric]]
          have "copy_steps f tmp dst i w = (Inr (), w5)"
            using s1 s2 s3 s4 go by (simp add: copy_steps_def seqio_def)
          then show ?thesis using rn h4 by (auto simp: holding_def)
        qed
      qed
    qed
  qed
qed

text \<open>
  C11. A local copy is all or nothing, whatever system calls fail: it either succeeds, and then the
  target is a file with the source's bytes, permission bits and time, the temporary file is gone and
  every other path is as it was; or it fails, and every path but the temporary file is as it was.
\<close>

theorem copy_file_atomic:
  assumes "tree_ok (wd_fs w)" "inos_fresh (wd_fs w)" "wlook w tmp = None" "tmp \<noteq> []" "dst \<noteq> tmp"
    "copy_file f tmp dst w = (r, w')"
  shows "case r of
      Inr u \<Rightarrow> replaced tmp dst (copied f (fs_next (wd_fs w))) w w'
    | Inl e \<Rightarrow> \<forall>q. q \<noteq> tmp \<longrightarrow> wlook w' q = wlook w q"
proof (cases rule: ap_sys_cases [of "fs_create_trunc tmp (perm_bits (f_mode f))" w])
  case stop
  then show ?thesis using assms(6) by (auto simp: copy_file_def seqio_def)
next
  case (go i w1)
  let ?s = "wd_fs w"
  have de: "dir_err ?s (butlast tmp) = None" and i: "i = fs_next ?s"
    and w1: "wd_fs w1 = (put_node tmp (NFile (new_file (fs_next ?s) (perm_bits (f_mode f)))) ?s)\<lparr>fs_next := Suc (fs_next ?s)\<rparr>"
    using go(2) assms(3,4) by (auto simp: fs_create_trunc_def fs_create_excl_def in_dir_Inr)
  have h: "holding ?s tmp i (new_file i (perm_bits (f_mode f))) (wd_fs w1)"
    using holding_create [OF assms(1,2,3) de assms(4)] w1 i by simp
  let ?c = "copy_steps f tmp dst i w1"
  have cf: "copy_file f tmp dst w = cleanup tmp (copy_steps f tmp dst i) w1"
    using go(1) by (simp add: copy_file_steps seqio_def)
  from copy_steps_outcome [OF h assms(5)] show ?thesis
  proof (elim disjE exE conjE)
    fix e h'
    assume e: "fst ?c = Inl e" "holding ?s tmp i h' (wd_fs (snd ?c))"
    then have "r = Inl e" using cf assms(6) by (cases ?c) (auto simp: cleanup_def)
    moreover have "q \<noteq> tmp \<Longrightarrow> wlook w' q = wlook w q" for q
      using cleanup_untouched [where m = "copy_steps f tmp dst i" and w = w1, OF e] cf assms(6) by (metis snd_conv)
    ultimately show ?thesis by simp
  next
    assume ok: "fst ?c = Inr ()" "wlook (snd ?c) dst = Some (NFile (copied f i))" "wlook (snd ?c) tmp = None"
      "\<forall>q. q \<noteq> tmp \<and> q \<noteq> dst \<longrightarrow> wlook (snd ?c) q = look ?s q"
    have "r = Inr ()" "w' = snd ?c" using ok(1) cf assms(6) by (cases ?c; auto simp: cleanup_def)+
    then show ?thesis using ok i by (simp add: replaced_def)
  qed
qed

theorem copy_file_atomic_witness:
  "replaced [''d'', ''t''] [''d'', ''x''] \<lparr>f_ino = 1, f_data = [1], f_mode = 384, f_mtime = 5\<rparr> ex_world
     (snd (copy_file \<lparr>f_ino = 0, f_data = [1], f_mode = 384, f_mtime = 5\<rparr> [''d'', ''t''] [''d'', ''x''] ex_world))"
proof -
  let ?f = "\<lparr>f_ino = 0, f_data = [1], f_mode = 384, f_mtime = 5\<rparr> :: file_node"
  have t: "tree_ok (wd_fs ex_world)" "inos_fresh (wd_fs ex_world)" "wlook ex_world [''d'', ''t''] = None"
    by (auto simp: tree_ok_def inos_fresh_def ex_world_def look_def is_dir_def split: if_splits)
  have r: "fst (copy_file ?f [''d'', ''t''] [''d'', ''x''] ex_world) = Inr ()" by code_simp
  have n: "copied ?f (fs_next (wd_fs ex_world)) = \<lparr>f_ino = 1, f_data = [1], f_mode = 384, f_mtime = 5\<rparr>"
    by code_simp
  show ?thesis
    using copy_file_atomic [OF t _ _ prod.collapse [symmetric], of "[''d'', ''x'']" ?f] r n by simp
qed

subsection \<open>A conflict on a RustFS secondary\<close>

lemma cmds_rclone [simp]:
  "wd_cmds (snd (run_rclone env args w)) = wd_cmds w @ [''rclone'' # args @ [''--no-check-certificate'']]"
  by (simp add: run_rclone_def Let_def)

lemma fst_rclone: "fst (run_rclone env args w) =
    (case ap_rclone env (args @ [''--no-check-certificate'']) of None \<Rightarrow> Inr ()
     | Some e \<Rightarrow> Inl (Rclone (args @ [''--no-check-certificate'']) e))"
  by (simp add: run_rclone_def Let_def)

definition rclone_cmd :: "string list \<Rightarrow> string list" where
  "rclone_cmd args = ''rclone'' # args @ [''--no-check-certificate'']"

lemma apply_ops_cmds:
  "wd_cmds (snd (apply_ops env r (x # xs) w)) = wd_cmds (snd (apply_ops env r xs (snd (apply_one env r x w))))"
  by (simp split: prod.splits)

text \<open>
  What a conflict on a RustFS secondary runs, whatever the commands answer: it uploads the
  primary's file of the conflict name (which the primary does not have yet), then downloads that name,
  then uploads the winner over the bucket's version. No command reads the bucket's version at its own
  path before the last one replaces it.
\<close>

theorem rustfs_conflict_commands:
  assumes "rt_kind r = ''rustfs''"
  shows "wd_cmds (snd (apply_ops env r (r_ops (conflict now q pe se empty_result)) w)) =
    (let cn = conflict_path q (now 0); loc = join_path (rt_primary r); obj = tg_object env (rt_target r);
         up = [''copyto'', loc cn, obj cn]
     in wd_cmds w @ [rclone_cmd up] @
        (if ap_rclone env (up @ [''--no-check-certificate'']) = None then [rclone_cmd [''deletefile'', obj q]] else []) @
        [rclone_cmd [''copyto'', obj cn, loc cn], rclone_cmd [''copyto'', loc q, obj q]])"
proof -
  have ren: "wd_cmds (snd (apply_one env r (mk_op OpConflictRename SideSecondary SideNone cn q t) w)) =
      wd_cmds w @ [rclone_cmd [''copyto'', join_path (rt_primary r) cn, tg_object env (rt_target r) cn]] @
      (if ap_rclone env [''copyto'', join_path (rt_primary r) cn, tg_object env (rt_target r) cn, ''--no-check-certificate''] = None
       then [rclone_cmd [''deletefile'', tg_object env (rt_target r) q]] else [])" for cn t w
    using assms
    by (auto simp: apply_one_def apply_rustfs_def Let_def seqio_def copy_to_def delete_object_def ignoring_def
        rclone_cmd_def run_rclone_def split: option.splits)
  have cp: "wd_cmds (snd (apply_one env r (mk_op OpCopy SidePrimary SideSecondary cn [] t) w)) =
      wd_cmds w @ [rclone_cmd [''copyto'', tg_object env (rt_target r) cn, join_path (rt_primary r) cn]]" for cn t w
    using assms by (simp add: apply_one_def apply_rustfs_def Let_def copy_from_def rclone_cmd_def)
  have cs: "wd_cmds (snd (apply_one env r (mk_op OpCopy SideSecondary SidePrimary q [] t) w)) =
      wd_cmds w @ [rclone_cmd [''copyto'', join_path (rt_primary r) q, tg_object env (rt_target r) q]]" for q t w
    using assms by (simp add: apply_one_def apply_rustfs_def Let_def copy_to_def rclone_cmd_def)
  show ?thesis
    by (simp add: conflict_def Let_def add_op_def set_base_def empty_result_def apply_ops_cmds ren cp cs del: apply_ops.simps)
      (simp add: ren cp cs)
qed

definition ex_ap :: ap_env where
  "ex_ap = \<lparr>ap_acl_read = (\<lambda>q ty. None), ap_acl_tool = (\<lambda>q ty t. None), ap_rclone = (\<lambda>a. None),
     ap_sha = (\<lambda>s. s), ap_rand = (\<lambda>n. ''1'')\<rparr>"

definition ex_roots :: roots where
  "ex_roots = \<lparr>rt_primary = ''/p'', rt_secondary = ''/s'', rt_acl_type = ''posix'', rt_bootstrap = [],
     rt_kind = ''rustfs'',
     rt_target = \<lparr>tg_host = ''h'', tg_port = 9, tg_bucket = ''b'', tg_access = [], tg_secret = []\<rparr>\<rparr>"

theorem rustfs_conflict_commands_witness:
  "length (wd_cmds (snd (apply_ops ex_ap ex_roots
     (r_ops (conflict (\<lambda>n. ''1'') ''a'' zero_entry zero_entry empty_result)) ex_world))) = 4"
proof -
  have k: "rt_kind ex_roots = ''rustfs''" by (simp add: ex_roots_def)
  have "wd_cmds ex_world = []" by (simp add: ex_world_def)
  then show ?thesis
    using rustfs_conflict_commands [OF k, of ex_ap "\<lambda>n. ''1''" "''a''" zero_entry zero_entry ex_world]
    by (simp add: Let_def ex_ap_def)
qed

end
