(* ===== verification/Sender_Correct.thy ===== *)
theory Sender_Correct
  imports Sender Executor_Correct
begin

section \<open>What a backup pass guarantees\<close>

text \<open>
  A tripped guard sends nothing; the recorded baseline is the old one with exactly the acked operations
  applied; operations go out in an order that never puts one behind another that needs it; a failed
  directory takes everything below it out of the pass; and what a transfer puts on the wire is the
  frame sequence the receiver installs.
\<close>

subsection \<open>What one exchange changes\<close>

lemma roundtrip_keeps [simp]:
  "sn_baseline (snd (roundtrip env m s)) = sn_baseline s"
  "sn_markers (snd (roundtrip env m s)) = sn_markers s"
  "sn_retry (snd (roundtrip env m s)) = sn_retry s"
  "sn_source (snd (roundtrip env m s)) = sn_source s"
  by (simp_all add: roundtrip_def tick_def Let_def split: reply.splits)

lemma roundtrip_result:
  "roundtrip env m s = (r, s') \<Longrightarrow>
    sn_baseline s' = sn_baseline s \<and> sn_markers s' = sn_markers s \<and> sn_retry s' = sn_retry s"
  using roundtrip_keeps [of env m s] by simp

lemma send_blocks_keeps:
  "sn_baseline (snd (send_blocks env off ds s)) = sn_baseline s \<and>
   sn_markers (snd (send_blocks env off ds s)) = sn_markers s \<and>
   sn_retry (snd (send_blocks env off ds s)) = sn_retry s"
  by (induction env off ds s rule: send_blocks.induct)
    (auto split: prod.splits sum.splits dest!: roundtrip_result)

lemma send_end_keeps:
  "sn_baseline (snd (send_end env rel v s)) = sn_baseline s \<and>
   sn_markers (snd (send_end env rel v s)) = sn_markers s \<and>
   sn_retry (snd (send_end env rel v s)) = sn_retry s"
  by (simp add: send_end_def split: option.splits)

lemma send_file_keeps:
  "sn_baseline (snd (send_file env rel e s)) = sn_baseline s \<and>
   sn_markers (snd (send_file env rel e s)) = sn_markers s \<and>
   sn_retry (snd (send_file env rel e s)) = sn_retry s"
proof -
  have b: "sn_baseline s2 = sn_baseline s1 \<and> sn_markers s2 = sn_markers s1 \<and> sn_retry s2 = sn_retry s1"
    if "send_blocks env off ds s1 = (r, s2)" for off ds s1 s2 r
    using send_blocks_keeps [of env off ds s1] that by simp
  show ?thesis
    by (auto simp: send_file_def Let_def send_end_keeps split: option.splits prod.splits sum.splits
        dest!: roundtrip_result b)
qed

lemma on_rclone_keeps:
  "sn_baseline (snd (on_rclone m s)) = sn_baseline s \<and> sn_markers (snd (on_rclone m s)) = sn_markers s \<and>
   sn_retry (snd (on_rclone m s)) = sn_retry s"
  by (simp add: on_rclone_def split: prod.splits sum.splits)

lemma send_op_keeps:
  "sn_baseline (snd (send_op env t x s)) = sn_baseline s \<and> sn_markers (snd (send_op env t x s)) = sn_markers s \<and>
   sn_retry (snd (send_op env t x s)) = sn_retry s"
  by (simp add: send_op_def send_op_rustfs_def Let_def on_rclone_keeps send_file_keeps split: op_kind.splits)

subsection \<open>The baseline\<close>

lemma send_loop_baseline:
  "send_loop env t xs blocked s = (acked, failed, s') \<Longrightarrow>
    sn_baseline s' = fold (apply_to_baseline t) acked (sn_baseline s) \<and> sn_markers s' = sn_markers s \<and>
    set acked \<subseteq> set xs"
proof (induction xs arbitrary: blocked s acked failed s')
  case Nil
  then show ?case by simp
next
  case (Cons x xs)
  obtain r s1 where r: "send_op env t x s = (r, s1)" by (cases "send_op env t x s")
  have k: "sn_baseline s1 = sn_baseline s" "sn_markers s1 = sn_markers s"
    using send_op_keeps [of env t x s] r by simp_all
  show ?case
  proof (cases "skip (se_clock env (sn_tick s)) (o_path x) (sn_retry s) \<or> is_blocked blocked (o_path x)")
    case True
    then have "send_loop env t xs blocked s = (acked, failed, s')" using Cons.prems by simp
    from Cons.IH [OF this] show ?thesis by auto
  next
    case False
    show ?thesis
    proof (cases r)
      case (Inl e)
      let ?b = "if o_kind x = OpMkdir then blocked @ [o_path x @ ''/''] else blocked"
      let ?s2 = "set_retry s1 (fst (fail (se_clock env (sn_tick s1)) (o_path x) (show_error e) (sn_retry s1)))"
      have k2: "sn_baseline ?s2 = sn_baseline s" "sn_markers ?s2 = sn_markers s"
        using k by (simp_all add: set_retry_def)
      show ?thesis
      proof (cases "\<not> sn_conn ?s2 \<and> \<not> uses_rustfs env")
        case True
        then show ?thesis using Cons.prems False r Inl k2 by (auto simp: Let_def)
      next
        case go: False
        obtain f3 where l: "send_loop env t xs ?b ?s2 = (acked, f3, s')"
          using Cons.prems False r Inl go by (auto simp: Let_def split: prod.splits)
        show ?thesis using Cons.IH [OF l] k2 by auto
      qed
    next
      case (Inr u)
      let ?s2 = "s1\<lparr>sn_retry := clear (o_path x) (sn_retry s1), sn_baseline := apply_to_baseline t x (sn_baseline s1)\<rparr>"
      obtain a3 where l: "send_loop env t xs blocked ?s2 = (a3, failed, s')" and a: "acked = x # a3"
        using Cons.prems False r Inr by (auto simp: Let_def split: prod.splits)
      show ?thesis using Cons.IH [OF l] a k by auto
    qed
  qed
qed

lemma resync_keeps: "resync_acls env t s = (b, s') \<Longrightarrow> sn_baseline s' = sn_baseline s \<and> sn_markers s' = sn_markers s"
proof (induction env t s arbitrary: b s' rule: resync_acls.induct)
  case (2 env q e t s)
  let ?m = "MFolderACL \<lparr>fa_path = q, fa_acl_type = se_acl_type env, fa_text = e_acl e\<rparr>"
  obtain r s1 where r: "roundtrip env ?m s = (r, s1)" by (cases "roundtrip env ?m s")
  show ?case
  proof (cases "e_type e \<noteq> TypeDir \<or> e_acl e = []")
    case True
    then show ?thesis using 2 by auto
  next
    case ne: False
    note k = roundtrip_result [OF r]
    show ?thesis
    proof (cases r)
      case (Inl er)
      show ?thesis
      proof (cases "sn_conn s1")
        case True
        then have "resync_acls env t s1 = (b, s')" using 2(4) ne r Inl by simp
        from 2(2) [OF ne r [symmetric] Inl _ this] True show ?thesis using k by simp
      next
        case False
        then show ?thesis using 2(4) ne r Inl k by simp
      qed
    next
      case (Inr u)
      then have "resync_acls env t s1 = (b, s')" using 2(4) ne r by simp
      from 2(3) [OF ne r [symmetric] Inr this] show ?thesis using k by simp
    qed
  qed
qed simp

lemma resync_folder_acls_keeps [simp]:
  "sn_baseline (resync_folder_acls env t acl s) = sn_baseline s"
  "sn_markers (resync_folder_acls env t acl s) = sn_markers s"
  by (auto simp: resync_folder_acls_def split: prod.splits bool.splits dest: resync_keeps)

lemma finish_pass_keeps [simp]:
  "sn_baseline (finish_pass env acl csv s) = sn_baseline s"
  "sn_markers (finish_pass env acl csv s) = sn_markers s"
  by (simp_all add: finish_pass_def save_pair_def push_root_acl_def push_acl_csv_def)

lemma dial_keeps:
  "dial env s = (r, s') \<Longrightarrow> sn_baseline s' = sn_baseline s \<and> sn_markers s' = sn_markers s \<and> sn_retry s' = sn_retry s"
  by (auto simp: dial_def tick_def connected_def Let_def
      split: if_splits option.splits frame_in.splits msg.splits)

lemma connect_keeps:
  "connect env s = (r, s') \<Longrightarrow> sn_baseline s' = sn_baseline s \<and> sn_markers s' = sn_markers s \<and> sn_retry s' = sn_retry s"
  by (fastforce simp: connect_def split: if_splits prod.splits sum.splits dest!: roundtrip_result dial_keeps)

lemma pass_ops_baseline:
  "pass_ops env t reason acl csv approved s = (acked, s') \<Longrightarrow>
    sn_baseline s' = fold (apply_to_baseline t) acked (sn_baseline s) \<and>
    set acked \<subseteq> set (pending env (sn_baseline s) t)"
  by (auto simp: pass_ops_def Let_def pass_order_def split: if_splits prod.splits option.splits bool.splits
      dest!: send_loop_baseline)


subsection \<open>Guards\<close>

fun handshake_msg :: "msg \<Rightarrow> bool" where
  "handshake_msg MPing = True"
| "handshake_msg (MWelcome h) = True"
| "handshake_msg (MLoopMarker m) = True"
| "handshake_msg m = False"

definition quiet_log :: "sender \<Rightarrow> sender \<Rightarrow> bool" where
  "quiet_log s s' \<longleftrightarrow> (\<exists>ms. sn_log s' = sn_log s @ ms \<and> list_all handshake_msg ms)"

lemma quiet_refl [simp]: "sn_log s' = sn_log s \<Longrightarrow> quiet_log s s'"
  by (simp add: quiet_log_def)

lemma quiet_trans: "quiet_log s s1 \<Longrightarrow> quiet_log s1 s2 \<Longrightarrow> quiet_log s s2"
  by (auto simp: quiet_log_def)

lemma ping_quiet: "quiet_log s (snd (roundtrip env MPing s))"
  by (auto simp: quiet_log_def roundtrip_def tick_def Let_def split: reply.splits)

lemma dial_quiet: "quiet_log s (snd (dial env s))"
  by (auto simp: quiet_log_def dial_def tick_def connected_def hello_msg_def Let_def
      split: if_splits option.splits frame_in.splits msg.splits)

lemma connect_quiet: "quiet_log s (snd (connect env s))"
proof (cases "uses_rustfs env \<or> \<not> sn_conn s")
  case True
  then show ?thesis using dial_quiet [of s env] by (auto simp: connect_def)
next
  case False
  obtain r s1 where r: "roundtrip env MPing s = (r, s1)" by (cases "roundtrip env MPing s")
  have q: "quiet_log s s1" using ping_quiet [of s env] r by simp
  have "quiet_log (s1\<lparr>sn_conn := False\<rparr>) (snd (dial env (s1\<lparr>sn_conn := False\<rparr>)))" by (rule dial_quiet)
  then have "quiet_log s1 (snd (dial env (s1\<lparr>sn_conn := False\<rparr>)))" by (simp add: quiet_log_def)
  then show ?thesis using False r q quiet_trans by (cases r) (auto simp: connect_def)
qed

text \<open>
  C9. A tripped guard sends nothing. When the pass is not approved and it is frozen, the source is not
  the recorded one, or the deletes exceed the budget, then no operation is acked, the baseline and the
  retry state stay as they were, and only handshake messages go out.
\<close>

theorem tripped_guard_sends_nothing:
  assumes "\<not> mk_approve (sn_markers s)"
    and "frozen (sn_markers s) \<or> (\<exists>e. check_source (se_dev env) (sn_source s) = Inl e) \<or>
      budget_check (se_budget env) (int (count_deletes (pending env (sn_baseline s) t)))
        (int (length (sn_baseline s))) \<noteq> None"
    and "pass env t reason acl csv s = (acked, s')"
  shows "acked = [] \<and> sn_baseline s' = sn_baseline s \<and> sn_retry s' = sn_retry s \<and> quiet_log s s'"
proof -
  have a: "consume_approval (sn_markers s) = (False, sn_markers s)"
    using assms(1) by (simp add: consume_approval_def)
  show ?thesis
  proof (cases "frozen (sn_markers s)")
    case True
    then show ?thesis using a assms(3) by (simp add: pass_def)
  next
    case False
    then have p: "pass_connected env t reason acl csv False s = (acked, s')"
      using a assms(3) by (simp add: pass_def)
    show ?thesis
    proof (cases "check_source (se_dev env) (sn_source s)")
      case (Inl e)
      then show ?thesis using p by (simp add: pass_connected_def)
    next
      case (Inr dev)
      let ?s1 = "s\<lparr>sn_source := dev, sn_source_slot := save_source_id (se_saves env 0) dev (sn_source_slot s)\<rparr>"
      obtain r s2 where c: "connect env ?s1 = (r, s2)" by (cases "connect env ?s1")
      have k: "sn_baseline s2 = sn_baseline s" "sn_retry s2 = sn_retry s"
        using connect_keeps [OF c] by simp_all
      have "quiet_log ?s1 s2" using connect_quiet [of ?s1 env] c by simp
      then have q: "quiet_log s s2" by (simp add: quiet_log_def)
      show ?thesis
      proof (cases r)
        case (Inl e)
        then show ?thesis using p Inr c k q by (simp add: pass_connected_def)
      next
        case ok: (Inr u)
        obtain why where "budget_check (se_budget env) (int (count_deletes (pending env (sn_baseline s2) t)))
            (int (length (sn_baseline s2))) = Some why"
          using assms(2) False Inr k by auto
        moreover have "pass_ops env t reason acl csv False s2 = (acked, s')"
          using p Inr c ok by (simp add: pass_connected_def)
        ultimately show ?thesis using k q
          by (auto simp: pass_ops_def Let_def quiet_log_def split: if_splits)
      qed
    qed
  qed
qed

subsection \<open>Order\<close>

definition depends :: "op \<Rightarrow> op \<Rightarrow> bool" where
  "depends y x \<longleftrightarrow>
     (is_del y \<and> \<not> is_del x) \<or>
     (\<not> is_del x \<and> \<not> is_del y \<and> below (o_path x) (o_path y)) \<or>
     (is_del x \<and> is_del y \<and> below (o_path y) (o_path x))"

lemma below_less: "below d q \<Longrightarrow> d < q"
proof -
  assume "below d q"
  then obtain r where "q = d @ CHR ''/'' # r" by (auto simp: below_def has_prefix_def prefix_def)
  then have "strict_prefix d q" by (auto simp: strict_prefix_def)
  moreover have "d \<le> d @ u" for u :: string by (induction d) auto
  ultimately show "d < q" using \<open>q = d @ CHR ''/'' # r\<close> by (simp add: less_le)
qed

text \<open>
  The operations of a pass go out in a safe order: none stands behind an operation that depends on
  it, that is, every delete follows every create, a directory is created before anything below it, and
  what is below a directory is deleted before the directory. Nothing is lost or doubled.
\<close>

theorem safe_order:
  "sorted_wrt (\<lambda>x y. \<not> depends x y) (pass_order xs) \<and> mset (pass_order xs) = mset xs"
proof -
  let ?c = "sort_key o_path (filter (\<lambda>x. \<not> is_del x) xs)" and ?d = "sort_key o_path (filter is_del xs)"
  have c: "\<forall>x \<in> set ?c. \<not> is_del x" and d: "\<forall>x \<in> set ?d. is_del x" by auto
  have sc: "sorted_wrt (\<lambda>x y. o_path x \<le> o_path y) ?c" and sd: "sorted_wrt (\<lambda>x y. o_path x \<le> o_path y) ?d"
    by (metis sorted_map sorted_sort_key)+
  have less: "\<not> below (o_path y) (o_path x)" if "o_path x \<le> o_path y" for x y
    using that below_less [of "o_path y" "o_path x"] by auto
  have "sorted_wrt (\<lambda>x y. \<not> depends x y) ?c"
  proof (rule sorted_wrt_mono_rel [OF _ sc])
    fix x y
    assume "x \<in> set ?c" "y \<in> set ?c" "o_path x \<le> o_path y"
    then have "\<not> is_del x" "\<not> is_del y" "\<not> below (o_path y) (o_path x)" using c less by blast+
    then show "\<not> depends x y" by (simp add: depends_def)
  qed
  moreover have "sorted_wrt (\<lambda>x y. \<not> depends y x) ?d"
  proof (rule sorted_wrt_mono_rel [OF _ sd])
    fix x y
    assume "x \<in> set ?d" "y \<in> set ?d" "o_path x \<le> o_path y"
    then have "is_del x" "is_del y" "\<not> below (o_path y) (o_path x)" using d less by blast+
    then show "\<not> depends y x" by (simp add: depends_def)
  qed
  then have "sorted_wrt (\<lambda>x y. \<not> depends x y) (rev ?d)" by (simp add: sorted_wrt_rev)
  moreover have "\<forall>x \<in> set ?c. \<forall>y \<in> set (rev ?d). \<not> depends x y"
    using c d unfolding depends_def by (metis set_rev)
  ultimately have "sorted_wrt (\<lambda>x y. \<not> depends x y) (pass_order xs)"
    by (simp add: pass_order_def sorted_wrt_append)
  moreover have "mset (filter (\<lambda>x. \<not> is_del x) xs) + mset (filter is_del xs) = mset xs"
    by (induction xs) auto
  then have "mset (pass_order xs) = mset xs" by (simp add: pass_order_def)
  ultimately show ?thesis by blast
qed

subsection \<open>A failed directory\<close>

lemma blocked_ignored:
  "d @ ''/'' \<in> set blocked \<Longrightarrow>
    send_loop env t xs blocked s = send_loop env t (filter (\<lambda>y. \<not> below d (o_path y)) xs) blocked s"
proof (induction xs arbitrary: blocked s)
  case (Cons x xs)
  have IH: "send_loop env t xs b u = send_loop env t (filter (\<lambda>y. \<not> below d (o_path y)) xs) b u"
    if "set blocked \<subseteq> set b" for b u
    using that Cons.prems by (intro Cons.IH) auto
  have IH1: "send_loop env t xs blocked u = send_loop env t (filter (\<lambda>y. \<not> below d (o_path y)) xs) blocked u"
    and IH2: "send_loop env t xs (blocked @ z) u =
      send_loop env t (filter (\<lambda>y. \<not> below d (o_path y)) xs) (blocked @ z) u" for u z
    by (rule IH; simp)+
  show ?case
  proof (cases "below d (o_path x)")
    case True
    then have "is_blocked blocked (o_path x)"
      using Cons.prems by (auto simp: is_blocked_def below_def list_ex_iff)
    then show ?thesis using True IH1 by simp
  next
    case False
    obtain r s1 where r: "send_op env t x s = (r, s1)" by (cases "send_op env t x s")
    show ?thesis using False r by (cases r) (simp_all add: Let_def IH1 IH2)
  qed
qed simp

text \<open>
  A directory that cannot be created takes everything below it out of the pass: once its mkdir
  fails, the loop runs exactly as if no operation below it were in the list.
\<close>

theorem failed_mkdir_blocks_children:
  assumes "o_kind x = OpMkdir" "send_op env t x s = (Inl e, s1)"
    "\<not> skip (se_clock env (sn_tick s)) (o_path x) (sn_retry s)" "\<not> is_blocked blocked (o_path x)"
  shows "send_loop env t (x # xs) blocked s =
    send_loop env t (x # filter (\<lambda>y. \<not> below (o_path x) (o_path y)) xs) blocked s"
proof -
  have "send_loop env t xs (blocked @ [o_path x @ ''/'']) u =
      send_loop env t (filter (\<lambda>y. \<not> below (o_path x) (o_path y)) xs) (blocked @ [o_path x @ ''/'']) u" for u
    by (rule blocked_ignored) simp
  then show ?thesis using assms by (simp add: Let_def)
qed

subsection \<open>A file from one end to the other\<close>

definition all_ok :: "sn_env \<Rightarrow> bool" where
  "all_ok env \<longleftrightarrow> (\<forall>n. se_reply env n = AckOk)"

definition logged :: "sender \<Rightarrow> msg list \<Rightarrow> sender" where
  "logged s ms = s\<lparr>sn_tick := sn_tick s + length ms, sn_log := sn_log s @ ms\<rparr>"

lemma logged_sel [simp]:
  "sn_conn (logged s ms) = sn_conn s" "sn_log (logged s ms) = sn_log s @ ms"
  "logged (logged s ms) ns = logged s (ms @ ns)" "logged s [] = s"
  by (simp_all add: logged_def add.assoc)

lemma roundtrip_ok: "all_ok env \<Longrightarrow> sn_conn s \<Longrightarrow> roundtrip env m s = (Inr (), logged s [m])"
  by (simp add: roundtrip_def all_ok_def tick_def logged_def Let_def)

fun block_msgs :: "(bytes \<Rightarrow> string) \<Rightarrow> nat \<Rightarrow> bytes list \<Rightarrow> msg list" where
  "block_msgs h off [] = []"
| "block_msgs h off (d # ds) =
     MFileData \<lparr>fd_offset = int off, fd_hash = h d, fd_data = d\<rparr> # block_msgs h (off + length d) ds"

lemma block_frames_msgs: "block_frames renv off ds = map Frame (block_msgs (rv_sha renv) off ds)"
  by (induction ds arbitrary: off) simp_all

lemma length_block_msgs [simp]: "length (block_msgs h off ds) = length ds"
  by (induction ds arbitrary: off) simp_all

lemma send_blocks_ok:
  "all_ok env \<Longrightarrow> sn_conn s \<Longrightarrow> send_blocks env off ds s = (Inr (), logged s (block_msgs (se_sha env) off ds))"
  by (induction ds arbitrary: off s) (simp_all add: roundtrip_ok)

lemma blocks_concat: "0 < n \<Longrightarrow> concat (blocks n d) = d"
proof (induction n d rule: blocks.induct)
  case (1 n d)
  show ?case
  proof (cases "d = []")
    case False
    then have "concat (blocks n d) = take n d @ concat (blocks n (drop n d))"
      using 1(2) by (subst blocks.simps) simp
    then show ?thesis using 1 False by simp
  qed (simp add: blocks.simps)
qed

lemma blocks_bound: "x \<in> set (blocks n d) \<Longrightarrow> x \<noteq> [] \<and> length x \<le> n"
proof (induction n d rule: blocks.induct)
  case (1 n d)
  show ?case
  proof (cases "d = [] \<or> n = 0")
    case True
    then show ?thesis using 1(2) by (simp add: blocks.simps [of n d])
  next
    case False
    then have "blocks n d = take n d # blocks n (drop n d)" by (simp add: blocks.simps [of n d])
    then show ?thesis using 1 False by auto
  qed
qed

definition stable :: "file_view \<Rightarrow> bool" where
  "stable v \<longleftrightarrow> fv_stat0 v \<noteq> None \<and> fv_stat1 v = fv_stat0 v \<and> fv_open v \<and> \<not> fv_read_err v"

definition begin_msg :: "string \<Rightarrow> entry \<Rightarrow> int \<Rightarrow> file_begin" where
  "begin_msg rel e sz = \<lparr>fb_path = rel, fb_size = sz, fb_mode = e_mode e, fb_mtime = e_mtime e\<rparr>"

lemma send_file_start:
  assumes "all_ok env" "sn_conn s" "fv_stat0 (se_file env (sn_tick s) rel) = Some (sz, mt)"
    "fv_open (se_file env (sn_tick s) rel)" "\<not> fv_read_err (se_file env (sn_tick s) rel)"
  shows "send_file env rel e s =
    send_end env rel (se_file env (sn_tick s) rel)
      (logged s (MFileBegin (begin_msg rel e sz) #
        block_msgs (se_sha env) 0 (blocks block_size (fv_data (se_file env (sn_tick s) rel)))))"
  using assms by (simp add: send_file_def Let_def roundtrip_ok send_blocks_ok begin_msg_def)


text \<open>
  C10. A torn copy takes the receiver down: when the source's size or time changes while it is read, the
  sender reports the operation as failed and closes the transfer with the hash \<open>torn\<close>; a receiver in
  the middle of that transfer, on which no call fails, panics on it instead of refusing the file.
\<close>

theorem torn_copy_panics_receiver:
  assumes "all_ok env" "sn_conn s" "fv_stat0 (se_file env (sn_tick s) rel) = Some (sz, mt)"
    "fv_open (se_file env (sn_tick s) rel)" "\<not> fv_read_err (se_file env (sn_tick s) rel)"
    "fv_stat1 (se_file env (sn_tick s) rel) = Some st" "st \<noteq> (sz, mt)"
    "quiet (cn_world c)" "cn_tmp c = Some (i, tmp)" "12 \<le> length (rv_sha renv (cn_hashed c))"
  shows "(\<exists>ms. send_file env rel e s = (Inl (TornCopy rel), logged s (ms @ [MFileEnd ''torn'']))) \<and>
    snd (snd (session renv [Frame (MFileEnd ''torn'')] c))"
proof -
  have snd: "\<exists>ms. send_file env rel e s = (Inl (TornCopy rel), logged s (ms @ [MFileEnd ''torn'']))"
    using send_file_start [OF assms(1-5)] assms(1,2,3,6,7)
    by (intro exI [of _ "MFileBegin (begin_msg rel e sz) #
        block_msgs (se_sha env) 0 (blocks block_size (fv_data (se_file env (sn_tick s) rel)))"])
      (simp add: send_end_def roundtrip_ok)
  let ?w = "cn_world c"
  have "rv_sha renv (cn_hashed c) \<noteq> ''torn''" using assms(10) by auto
  then have "fst (finish_body renv tmp (cn_path c) (cn_meta c) (cn_hashed c) ''torn'' ?w) =
      Inl (FileHashMismatch (rv_sha renv (cn_hashed c)) ''torn'')"
    using assms(8) by (simp add: finish_body_def seqio_def fs_sync_def fail_with_def wrap_quiet [of _ fs_sync])
  then have "fst (finish_file renv tmp (cn_path c) (cn_meta c) (cn_hashed c) ''torn'' ?w) = Panicked"
    by (cases "finish_body renv tmp (cn_path c) (cn_meta c) (cn_hashed c) ''torn'' ?w") (simp add: finish_file_def)
  then have "fst (end_file renv ''torn'' c) = None"
    using assms(9) by (cases "finish_file renv tmp (cn_path c) (cn_meta c) (cn_hashed c) ''torn'' ?w")
      (simp add: end_file_def)
  then show ?thesis using snd by (cases "end_file renv ''torn'' c") simp
qed

subsection \<open>A concrete pair\<close>

definition ex_view :: file_view where
  "ex_view = \<lparr>fv_stat0 = Some (3, 9), fv_open = True, fv_data = [1, 2, 3], fv_read_err = False, fv_stat1 = Some (3, 9)\<rparr>"

definition ex_sn_env :: sn_env where
  "ex_sn_env = \<lparr>se_primary = ''/p'', se_os = ''linux'', se_acl_type = ''posix'', se_key = ''k'', se_version = ''v'',
     se_service = [], se_stamp = [], se_budget = \<lparr>max_count = 1, max_percent = 0\<rparr>,
     se_target = \<lparr>tg_host = [], tg_port = 0, tg_bucket = [], tg_access = [], tg_secret = []\<rparr>, se_ap = ex_ap,
     se_reply = (\<lambda>n. AckOk),
     se_dial = (\<lambda>n. \<lparr>da_dial = False, da_hello = None, da_sent = False, da_accept = None\<rparr>),
     se_clock = (\<lambda>n. 0), se_file = (\<lambda>n q. ex_view), se_sha = rv_sha ex_env, se_dev = Some 7,
     se_saves = (\<lambda>n. AllOk), se_freeze_ok = True, se_rng = (\<lambda>n m. m), se_now = (\<lambda>n. ''1'')\<rparr>"

definition ex_sender :: sender where
  "ex_sender = \<lparr>sn_conn = True,
     sn_peer = \<lparr>w_proto = 1, w_version = [], w_os = [], w_acl_type = [], w_key = []\<rparr>, sn_same_os = False,
     sn_source = 7, sn_retry = [],
     sn_baseline = [(''a'', zero_entry\<lparr>e_type := TypeFile\<rparr>), (''b'', zero_entry\<lparr>e_type := TypeFile\<rparr>)],
     sn_markers = \<lparr>mk_freeze = None, mk_approve = False\<rparr>,
     sn_base_slot = \<lparr>sl_final = Missing, sl_tmp = Missing\<rparr>, sn_retry_slot = \<lparr>sl_final = Missing, sl_tmp = Missing\<rparr>,
     sn_source_slot = \<lparr>sl_final = Missing, sl_tmp = Missing\<rparr>, sn_log = [],
     sn_world = ex_world, sn_tick = 0\<rparr>"

theorem tripped_guard_sends_nothing_witness:
  "fst (pass ex_sn_env [] ''event'' [] [] ex_sender) = [] \<and>
   quiet_log ex_sender (snd (pass ex_sn_env [] ''event'' [] [] ex_sender))"
proof -
  have a: "\<not> mk_approve (sn_markers ex_sender)" by (simp add: ex_sender_def)
  have "budget_check (se_budget ex_sn_env) (int (count_deletes (pending ex_sn_env (sn_baseline ex_sender) [])))
      (int (length (sn_baseline ex_sender))) \<noteq> None"
    by code_simp
  then show ?thesis
    using tripped_guard_sends_nothing [OF a _ prod.collapse [symmetric], of ex_sn_env "[]"] by blast
qed

theorem failed_mkdir_blocks_children_witness:
  "send_loop (ex_sn_env\<lparr>se_reply := \<lambda>n. AckErr []\<rparr>) []
     [mk_op OpMkdir SideSecondary SidePrimary ''d'' [] TypeDir, mk_op OpCopy SideSecondary SidePrimary ''d/f'' [] TypeFile]
     [] ex_sender =
   send_loop (ex_sn_env\<lparr>se_reply := \<lambda>n. AckErr []\<rparr>) []
     [mk_op OpMkdir SideSecondary SidePrimary ''d'' [] TypeDir] [] ex_sender"
proof -
  let ?env = "ex_sn_env\<lparr>se_reply := \<lambda>n. AckErr []\<rparr>"
  let ?x = "mk_op OpMkdir SideSecondary SidePrimary ''d'' [] TypeDir"
  let ?y = "mk_op OpCopy SideSecondary SidePrimary ''d/f'' [] TypeFile"
  have "fst (send_op ?env [] ?x ex_sender) = Inl (RemoteError [])"
    by (simp add: send_op_def uses_rustfs_def ex_sn_env_def roundtrip_def ex_sender_def Let_def)
  then have s: "send_op ?env [] ?x ex_sender = (Inl (RemoteError []), snd (send_op ?env [] ?x ex_sender))"
    by (metis prod.collapse)
  have "skip (se_clock ?env (sn_tick ex_sender)) (o_path ?x) (sn_retry ex_sender) = False"
    by (simp add: skip_def ex_sender_def)
  then show ?thesis
    using failed_mkdir_blocks_children [OF _ s, of "[]" "[?y]"]
    by (simp add: is_blocked_def below_def has_prefix_def)
qed


theorem torn_copy_panics_receiver_witness:
  "snd (snd (session ex_env [Frame (MFileEnd ''torn'')] ex_conn))"
proof -
  let ?env = "ex_sn_env\<lparr>se_file := \<lambda>n q. ex_view\<lparr>fv_stat1 := Some (4, 9)\<rparr>\<rparr>"
  have ok: "all_ok ?env" "sn_conn ex_sender" "fv_stat0 (se_file ?env (sn_tick ex_sender) ''a'') = Some (3, 9)"
    "fv_open (se_file ?env (sn_tick ex_sender) ''a'')" "\<not> fv_read_err (se_file ?env (sn_tick ex_sender) ''a'')"
    "fv_stat1 (se_file ?env (sn_tick ex_sender) ''a'') = Some (4, 9)"
    by (simp_all add: all_ok_def ex_sn_env_def ex_sender_def ex_view_def)
  have c: "quiet (cn_world ex_conn)" "cn_tmp ex_conn = Some (1, [''d'', ''.cs-sync.tmp.1''])"
    "12 \<le> length (rv_sha ex_env (cn_hashed ex_conn))"
    by (simp_all add: quiet_def ex_conn_def ex_world_def ex_env_def)
  show ?thesis using torn_copy_panics_receiver [OF ok _ c] by simp
qed

end
