(* ===== verification/Zfs.thy ===== *)
theory Zfs
  imports GoStrings Wire
begin

section \<open>ZFS replication: one cycle on one host\<close>

text \<open>
  \<open>zfs.go\<close>, with \<open>frozenVal\<close> of \<open>freezebin.go\<close> and the configuration properties of \<open>pveconf.go\<close>.
  The programs it runs (\<open>zfs\<close>, \<open>cs-freeze4snap\<close>) are not part of the repository: the model records
  every command in \<open>zw_log\<close>, and the answer to the \<open>n\<close>-th command is an argument of the environment,
  any text with success or failure. So what is proved of the commands holds whatever \<open>zfs\<close> answers.
\<close>

text \<open>The frames of a LAN pair (\<open>internal/wire/zfs.go\<close>; the handshake frames are those of the file sync).\<close>

record zfs_snap_ref =
  zr_slot :: string
  zr_guid :: string

record zfs_hello =
  zh_nr :: string
  zh_fs_guid :: string
  zh_snaps :: "zfs_snap_ref list"
  zh_recursive :: bool
  zh_conf_only :: bool
  zh_conf :: "(string, string) amap"

record zfs_plan =
  zp_kind :: string
  zp_base :: string
  zp_token :: string
  zp_msg :: string

record zfs_done =
  zd_ok :: bool
  zd_err :: string
  zd_new_guid :: string

record zfs_rotate =
  zt_app :: bool
  zt_consistent :: string
  zt_conf :: "(string, string) amap"

datatype zframe =
    ZWelcome welcome_msg
  | ZAck ack
  | ZPing
  | ZHello zfs_hello
  | ZPlan zfs_plan
  | ZChunk bytes
  | ZDone zfs_done
  | ZRotate zfs_rotate
  | ZUndecodable byte
  | ZOther byte

text \<open>
  What a cycle does to the outside: \<open>zfs\<close> with its arguments, \<open>zfs send | zfs recv\<close>, the freeze
  tool, \<open>zfs send\<close> into and \<open>zfs recv\<close> from the connection, and a frame sent.
\<close>

datatype zcmd =
    Zfs "string list"
  | Pipe "string list" "string list"
  | Tool "string list"
  | Stream "string list"
  | Sink "string list" "bytes list"
  | SendFrame zframe

record zsnap =
  zs_full :: string
  zs_slot :: string
  zs_guid :: string
  zs_created :: int

record zcfg =
  zc_primary :: string
  zc_backup :: string
  zc_nr :: string
  zc_prefix :: string
  zc_versions :: bool
  zc_keep_hours :: int
  zc_keep_days :: int
  zc_rollback_auto :: bool
  zc_service :: string
  zc_freeze :: string
  zc_freeze_bin :: string
  zc_freeze_args :: "string list"
  zc_recursive :: bool
  zc_pve :: bool
  zc_remote :: string
  zc_key :: string

text \<open>
  The answers of the programs, the clock (seconds, minute of the day, date, and \<open>time.Parse("15:04", _)\<close>),
  the guest strategies in a \<open>cs-freeze4snap\<close> report (\<open>None\<close>: no JSON object), the encoded VM
  configuration for a kind and an id, the order of a \<open>range\<close> over a map, and how many chunk
  properties of one dataset are looked at (\<open>get_conf_fuel\<close> below: the number does not matter
  once a property is unset). For a LAN pair: whether a frame goes out; the chunks \<open>zfs send\<close>
  delivers and whether it exits well; whether \<open>zfs recv\<close> starts, the chunk on which a write to it
  fails, if any, and whether it exits well; and the version and the platform that a welcome names.
\<close>

record zenv =
  ze_zfs :: "nat \<Rightarrow> string \<times> bool"
  ze_pipe :: "nat \<Rightarrow> bool"
  ze_tool :: "nat \<Rightarrow> string \<times> bool"
  ze_now :: "nat \<Rightarrow> int"
  ze_mmdd :: "int \<Rightarrow> string"
  ze_hh :: "int \<Rightarrow> string"
  ze_today :: "nat \<Rightarrow> string"
  ze_minute :: "nat \<Rightarrow> nat"
  ze_hhmm :: "string \<Rightarrow> nat option"
  ze_guests :: "string \<Rightarrow> string list option"
  ze_conf :: "string \<Rightarrow> string \<Rightarrow> string option"
  ze_order :: "nat \<Rightarrow> (string, string) amap \<Rightarrow> (string, string) amap"
  ze_chunks :: nat
  ze_net_ok :: "nat \<Rightarrow> bool"
  ze_stream :: "nat \<Rightarrow> bytes list \<times> bool"
  ze_sink :: "nat \<Rightarrow> bool \<times> nat option \<times> bool"
  ze_version :: string
  ze_os :: string

text \<open>What a cycle changes: the log, the approval files of the service, the fields of \<open>zcfg\<close> that vary, and
  the frames that the other end has sent and this end has not read yet (none: the connection is lost).\<close>

record zw =
  zw_log :: "zcmd list"
  zw_blocked :: "string option"
  zw_approve :: "string option"
  zw_status :: string
  zw_tried :: string
  zw_last_full :: bool
  zw_seen :: "(string, string) amap option"
  zw_inbox :: "zframe list"

datatype zerr =
    ZfsFailed "string list"
  | SendRecvFailed
  | ToolFailed
  | NoNewSnapshot
  | WrongTarget string string
  | NoCommonBase
  | NotConfirmed
  | UnknownBase string
  | SlicePanic
  | NetFailed
  | BadFrame
  | ProtoMismatch
  | Refused string
  | StreamFailed
  | BackupSaid string

type_synonym 'a z = "zw \<Rightarrow> 'a \<times> zw"

definition zret :: "'a \<Rightarrow> 'a z" where
  "zret x w = (x, w)"

definition zseq :: "'a z \<Rightarrow> ('a \<Rightarrow> 'b z) \<Rightarrow> 'b z" where
  "zseq m f w = (case m w of (x, w') \<Rightarrow> f x w')"

text \<open>Stop at an error, as \<open>if err != nil { return err }\<close> does.\<close>

definition ztry :: "(zerr + 'a) z \<Rightarrow> ('a \<Rightarrow> (zerr + 'b) z) \<Rightarrow> (zerr + 'b) z" where
  "ztry m f = zseq m (\<lambda>r. case r of Inl e \<Rightarrow> zret (Inl e) | Inr x \<Rightarrow> f x)"

definition issue :: "zcmd \<Rightarrow> zw \<Rightarrow> zw" where
  "issue c w = w\<lparr>zw_log := zw_log w @ [c]\<rparr>"

definition zfs_run :: "zenv \<Rightarrow> string list \<Rightarrow> (zerr + string) z" where
  "zfs_run env args w =
     (case ze_zfs env (length (zw_log w)) of
        (out, ok) \<Rightarrow> (if ok then Inr (trim_space out) else Inl (ZfsFailed args), issue (Zfs args) w))"

definition zdo :: "zenv \<Rightarrow> string list \<Rightarrow> unit z" where
  "zdo env args = zseq (zfs_run env args) (\<lambda>_. zret ())"

definition zfs_exists :: "zenv \<Rightarrow> string \<Rightarrow> bool z" where
  "zfs_exists env ds =
     zseq (zfs_run env [''list'', ''-H'', ''-o'', ''name'', ds]) (\<lambda>r. zret (case r of Inl e \<Rightarrow> False | Inr x \<Rightarrow> True))"

definition zfs_get :: "zenv \<Rightarrow> string \<Rightarrow> string \<Rightarrow> string z" where
  "zfs_get env p ds =
     zseq (zfs_run env [''get'', ''-H'', ''-o'', ''value'', p, ds]) (\<lambda>r. zret (case r of Inl e \<Rightarrow> [] | Inr x \<Rightarrow> x))"

definition pipe_send_recv :: "zenv \<Rightarrow> string list \<Rightarrow> string list \<Rightarrow> (zerr + unit) z" where
  "pipe_send_recv env snd_args rcv_args w =
     (if ze_pipe env (length (zw_log w)) then Inr () else Inl SendRecvFailed, issue (Pipe snd_args rcv_args) w)"

definition send_args :: "zcfg \<Rightarrow> string list \<Rightarrow> string list" where
  "send_args c a = (if zc_recursive c then [''send'', ''-R''] @ a else [''send''] @ a)"

fun is_zfs_mode :: "string list \<Rightarrow> bool" where
  "is_zfs_mode [] \<longleftrightarrow> False"
| "is_zfs_mode (a # as) \<longleftrightarrow>
     ((a = ''--mode'' \<or> a = ''-mode'') \<and> as \<noteq> [] \<and> hd as = ''zfs'') \<or>
     a = ''--mode=zfs'' \<or> a = ''-mode=zfs'' \<or> is_zfs_mode as"

subsection \<open>Snapshots\<close>

text \<open>\<open>strconv.ParseInt\<close> with its error dropped: 0 for no number, the nearest bound for one out of range.\<close>

definition parse_int :: "string \<Rightarrow> int" where
  "parse_int s =
     (case atoi s of
        Some v \<Rightarrow> v
      | None \<Rightarrow>
          let neg = (s \<noteq> [] \<and> hd s = CHR ''-''); ds = (if s \<noteq> [] \<and> (hd s = CHR ''-'' \<or> hd s = CHR ''+'') then tl s else s)
          in if ds = [] \<or> \<not> list_all is_digit ds then 0 else if neg then int_min else int_max)"

definition parse_snap :: "string \<Rightarrow> string \<Rightarrow> zsnap option" where
  "parse_snap pfx ln =
     (case split_on CHR 0x09 (trim_space ln) of
        f0 # f1 # f2 # fs \<Rightarrow>
          (case str_index CHR ''@'' f0 of
             None \<Rightarrow> None
           | Some i \<Rightarrow>
               (let nm = drop (i + 1) f0
                in if \<not> has_prefix nm pfx then None
                   else Some \<lparr>zs_full = f0, zs_slot = drop (length pfx) nm, zs_guid = f1, zs_created = parse_int f2\<rparr>))
      | _ \<Rightarrow> None)"

definition parse_snaps :: "string \<Rightarrow> string \<Rightarrow> zsnap list" where
  "parse_snaps pfx out = List.map_filter (parse_snap pfx) (split_on CHR 0x0A out)"

definition list_snaps :: "zenv \<Rightarrow> zcfg \<Rightarrow> string \<Rightarrow> (zerr + zsnap list) z" where
  "list_snaps env c ds =
     ztry (zfs_run env [''list'', ''-H'', ''-p'', ''-t'', ''snapshot'', ''-d'', ''1'', ''-o'', ''name,guid,creation'',
       ''-s'', ''createtxg'', ds]) (\<lambda>out. zret (Inr (parse_snaps (zc_prefix c) out)))"

definition find_slot :: "zsnap list \<Rightarrow> string \<Rightarrow> zsnap option" where
  "find_slot l slot = find (\<lambda>s. zs_slot s = slot) l"

definition snap_name :: "zcfg \<Rightarrow> string \<Rightarrow> string \<Rightarrow> string" where
  "snap_name c ds slot = ds @ ''@'' @ zc_prefix c @ slot"

definition rename_slot :: "zenv \<Rightarrow> zcfg \<Rightarrow> string \<Rightarrow> string \<Rightarrow> string \<Rightarrow> (zerr + unit) z" where
  "rename_slot env c ds a b =
     ztry (zfs_run env ((if zc_recursive c then [''rename'', ''-r''] else [''rename'']) @
       [snap_name c ds a, snap_name c ds b])) (\<lambda>_. zret (Inr ()))"

definition destroy_snap :: "zenv \<Rightarrow> zcfg \<Rightarrow> string \<Rightarrow> (zerr + string) z" where
  "destroy_snap env c full =
     zfs_run env (if zc_recursive c then [''destroy'', ''-r'', full] else [''destroy'', full])"

definition zdestroy :: "zenv \<Rightarrow> zcfg \<Rightarrow> string \<Rightarrow> (zerr + unit) z" where
  "zdestroy env c full = ztry (destroy_snap env c full) (\<lambda>_. zret (Inr ()))"

subsection \<open>Blocking and approval\<close>

definition set_blocked :: "zcfg \<Rightarrow> string \<Rightarrow> string \<Rightarrow> unit z" where
  "set_blocked c base newest w =
     ((), if zc_service c \<noteq> [] then w\<lparr>zw_blocked := Some (base @ '' '' @ newest @ [CHR 0x0A])\<rparr> else w)"

definition clear_blocked :: "zcfg \<Rightarrow> unit z" where
  "clear_blocked c w = ((), if zc_service c \<noteq> [] then w\<lparr>zw_blocked := None\<rparr> else w)"

definition approved :: "zcfg \<Rightarrow> string \<Rightarrow> string \<Rightarrow> zw \<Rightarrow> bool" where
  "approved c base newest w \<longleftrightarrow>
     zc_service c \<noteq> [] \<and>
     (case zw_approve w of
        None \<Rightarrow> False
      | Some b \<Rightarrow> (case str_fields b of f0 # f1 # fs \<Rightarrow> f0 = base \<and> f1 = newest | _ \<Rightarrow> False))"

definition drop_approval :: "zcfg \<Rightarrow> unit z" where
  "drop_approval c w = ((), if zc_service c \<noteq> [] then w\<lparr>zw_approve := None\<rparr> else w)"

definition set_status :: "string \<Rightarrow> unit z" where
  "set_status s w = ((), w\<lparr>zw_status := s\<rparr>)"

definition frozen_val :: "string \<Rightarrow> bool" where
  "frozen_val v \<longleftrightarrow> v = ''app'' \<or> v = ''paused''"

subsection \<open>What has changed, and keeping a received tree closed\<close>

definition changed :: "zenv \<Rightarrow> zcfg \<Rightarrow> bool z" where
  "changed env c =
     (let p = ''written@'' @ zc_prefix c @ ''n0''
      in if \<not> zc_recursive c then
           zseq (zfs_run env [''get'', ''-H'', ''-p'', ''-o'', ''value'', p, zc_primary c])
             (\<lambda>r. zret (case r of Inl e \<Rightarrow> True | Inr v \<Rightarrow> trim_space v \<noteq> ''0''))
         else
           zseq (zfs_run env [''get'', ''-H'', ''-p'', ''-r'', ''-t'', ''filesystem,volume'', ''-o'', ''value'', p, zc_primary c])
             (\<lambda>r. zret (case r of Inl e \<Rightarrow> True | Inr out \<Rightarrow> list_ex (\<lambda>v. v \<noteq> ''0'' \<and> v \<noteq> ''-'') (str_fields out))))"

definition fix_one :: "zenv \<Rightarrow> string \<Rightarrow> string \<Rightarrow> string \<Rightarrow> unit z" where
  "fix_one env ds ro cm =
     zseq (if ro \<noteq> ''on'' then zdo env [''set'', ''readonly=on'', ds] else zret ()) (\<lambda>_.
     if cm \<noteq> ''noauto'' then zdo env [''set'', ''canmount=noauto'', ds] else zret ())"

fun fix_lines :: "zenv \<Rightarrow> string list \<Rightarrow> unit z" where
  "fix_lines env [] w = zret () w"
| "fix_lines env (ln # lns) w =
     zseq (case split_on CHR 0x09 (trim_space ln) of f0 # f1 # f2 # fs \<Rightarrow> fix_one env f0 f1 f2 | _ \<Rightarrow> zret ())
       (\<lambda>_. fix_lines env lns) w"

definition fix_tree :: "zenv \<Rightarrow> string \<Rightarrow> unit z" where
  "fix_tree env ds =
     zseq (zfs_run env [''list'', ''-r'', ''-H'', ''-o'', ''name,readonly,canmount'', ds])
       (\<lambda>r. case r of Inl e \<Rightarrow> zret () | Inr out \<Rightarrow> fix_lines env (split_on CHR 0x0A out))"

subsection \<open>Rotation\<close>

definition expired :: "zcfg \<Rightarrow> int \<Rightarrow> zsnap \<Rightarrow> bool" where
  "expired c now s \<longleftrightarrow>
     (has_prefix (zs_slot s) ''kh'' \<and> now - zs_created s > zc_keep_hours c * 3600) \<or>
     ((has_prefix (zs_slot s) ''kd'' \<or> has_prefix (zs_slot s) ''kf'') \<and>
       now - zs_created s > zc_keep_days c * 86400)"

fun destroy_all :: "zenv \<Rightarrow> zcfg \<Rightarrow> zsnap list \<Rightarrow> unit z" where
  "destroy_all env c [] w = zret () w"
| "destroy_all env c (s # l) w = zseq (destroy_snap env c (zs_full s)) (\<lambda>_. destroy_all env c l) w"

definition prune :: "zenv \<Rightarrow> zcfg \<Rightarrow> string \<Rightarrow> unit z" where
  "prune env c ds =
     zseq (list_snaps env c ds) (\<lambda>r w.
       case r of
         Inl e \<Rightarrow> zret () w
       | Inr l \<Rightarrow> destroy_all env c (filter (expired c (ze_now env (length (zw_log w)))) l) w)"

text \<open>What becomes of the old \<open>n1\<close>: kept under the day's or hour's name if that is free, or destroyed.\<close>

definition retire_n1 :: "zenv \<Rightarrow> zcfg \<Rightarrow> string \<Rightarrow> bool \<Rightarrow> zsnap list \<Rightarrow> (zerr + unit) z" where
  "retire_n1 env c ds keep l =
     (case find_slot l ''n1'' of
        None \<Rightarrow> zret (Inr ())
      | Some n1 \<Rightarrow>
          (let mmdd = ze_mmdd env (zs_created n1);
               kd = ''kd'' @ mmdd; kh = ''kh'' @ mmdd @ ze_hh env (zs_created n1); kf = ''kf'' @ mmdd
           in zseq (zfs_get env ''cs:consistent'' (zs_full n1)) (\<lambda>v.
              if frozen_val v \<and> find_slot l kf = None then rename_slot env c ds ''n1'' kf
              else if keep \<and> find_slot l kd = None then rename_slot env c ds ''n1'' kd
              else if keep \<and> find_slot l kh = None then rename_slot env c ds ''n1'' kh
              else zdestroy env c (zs_full n1))))"

definition rotate :: "zenv \<Rightarrow> zcfg \<Rightarrow> string \<Rightarrow> bool \<Rightarrow> (zerr + unit) z" where
  "rotate env c ds keep =
     ztry (list_snaps env c ds) (\<lambda>l.
       if find_slot l ''new'' = None then zret (Inl NoNewSnapshot)
       else ztry (retire_n1 env c ds keep l) (\<lambda>_.
            ztry (if find_slot l ''n0'' \<noteq> None then rename_slot env c ds ''n0'' ''n1'' else zret (Inr ())) (\<lambda>_.
            ztry (rename_slot env c ds ''new'' ''n0'') (\<lambda>_.
            zseq (prune env c ds) (\<lambda>_.
            zseq (clear_blocked c) (\<lambda>_. zret (Inr ())))))))"

text \<open>A snapshot that may be there is destroyed; the error is the result, as at the end of \<open>recoverCycle\<close>.\<close>

definition destroy_opt :: "zenv \<Rightarrow> zcfg \<Rightarrow> zsnap option \<Rightarrow> (zerr + unit) z" where
  "destroy_opt env c x = (case x of None \<Rightarrow> zret (Inr ()) | Some s \<Rightarrow> zdestroy env c (zs_full s))"

definition recover_cycle :: "zenv \<Rightarrow> zcfg \<Rightarrow> (zerr + unit) z" where
  "recover_cycle env c =
     ztry (list_snaps env c (zc_primary c)) (\<lambda>pl.
     let pn = find_slot pl ''new''
     in zseq (zfs_exists env (zc_backup c)) (\<lambda>ex.
        if \<not> ex then destroy_opt env c pn
        else ztry (list_snaps env c (zc_backup c)) (\<lambda>bl.
          case find_slot bl ''new'' of
            None \<Rightarrow> destroy_opt env c pn
          | Some bn \<Rightarrow>
              if (case pn of None \<Rightarrow> False | Some p \<Rightarrow> zs_guid p = zs_guid bn) then
                ztry (rotate env c (zc_primary c) (zc_versions c)) (\<lambda>_. rotate env c (zc_backup c) True)
              else if list_ex (\<lambda>p. zs_guid p = zs_guid bn \<and> zs_slot p = ''n0'') pl then
                rotate env c (zc_backup c) True
              else ztry (zdestroy env c (zs_full bn)) (\<lambda>_. destroy_opt env c pn))))"

subsection \<open>Proxmox configurations as properties\<close>

definition conf_chunk :: nat where "conf_chunk = 6000"

definition conf_prop :: "nat \<Rightarrow> string" where
  "conf_prop i = (if i = 0 then ''cs:pveconf'' else ''cs:pveconf.'' @ nat_str i)"

definition join_ds :: "string \<Rightarrow> string \<Rightarrow> string" where
  "join_ds base rel = (if rel = [] then base else base @ ''/'' @ rel)"

definition unset :: "string \<Rightarrow> bool" where
  "unset v \<longleftrightarrow> v = [] \<or> v = ''-''"

fun get_conf_from :: "zenv \<Rightarrow> string \<Rightarrow> nat \<Rightarrow> nat \<Rightarrow> string z" where
  "get_conf_from env target 0 i w = zret [] w"
| "get_conf_from env target (Suc n) i w =
     zseq (zfs_get env (conf_prop i) target) (\<lambda>v.
       if unset v then zret [] else zseq (get_conf_from env target n (i + 1)) (\<lambda>r. zret (v @ r))) w"

definition get_conf_prop :: "zenv \<Rightarrow> string \<Rightarrow> string z" where
  "get_conf_prop env target = get_conf_from env target (ze_chunks env) 0"

function conf_pieces :: "string \<Rightarrow> string list" where
  "conf_pieces enc = (if enc = [] then [] else take conf_chunk enc # conf_pieces (drop conf_chunk enc))"
  by pat_completeness auto
termination by (relation "measure length") (auto simp: conf_chunk_def)

declare conf_pieces.simps [simp del]

fun set_pieces :: "zenv \<Rightarrow> string \<Rightarrow> nat \<Rightarrow> string list \<Rightarrow> (zerr + unit) z" where
  "set_pieces env target i [] w = zret (Inr ()) w"
| "set_pieces env target i (p # ps) w =
     ztry (zfs_run env [''set'', conf_prop i @ ''='' @ p, target]) (\<lambda>_. set_pieces env target (i + 1) ps) w"

fun drop_old_chunks :: "zenv \<Rightarrow> string \<Rightarrow> nat \<Rightarrow> nat \<Rightarrow> unit z" where
  "drop_old_chunks env target 0 i w = zret () w"
| "drop_old_chunks env target (Suc n) i w =
     zseq (zfs_get env (conf_prop i) target) (\<lambda>v.
       if unset v then zret ()
       else zseq (zdo env [''inherit'', conf_prop i, target]) (\<lambda>_. drop_old_chunks env target n (i + 1))) w"

definition set_conf_prop :: "zenv \<Rightarrow> string \<Rightarrow> string \<Rightarrow> (zerr + unit) z" where
  "set_conf_prop env target enc =
     ztry (set_pieces env target 0 (conf_pieces enc)) (\<lambda>_.
       if CHR ''@'' \<in> set target then zret (Inr ())
       else zseq (drop_old_chunks env target (ze_chunks env) (length (conf_pieces enc))) (\<lambda>_. zret (Inr ())))"

text \<open>\<open>diskRe\<close>: \<open>^(vm|subvol|base)-(\d+)-disk-\d+\<close>, with its two groups.\<close>

definition disk_tail :: "string \<Rightarrow> string option" where
  "disk_tail s =
     (let ds = takeWhile is_digit s; r = dropWhile is_digit s
      in if ds \<noteq> [] \<and> has_prefix r ''-disk-'' \<and> takeWhile is_digit (drop 6 r) \<noteq> [] then Some ds else None)"

definition disk_re :: "string \<Rightarrow> (string \<times> string) option" where
  "disk_re s =
     (if has_prefix s ''vm-'' then map_option (Pair ''vm'') (disk_tail (drop 3 s))
      else if has_prefix s ''subvol-'' then map_option (Pair ''subvol'') (disk_tail (drop 7 s))
      else if has_prefix s ''base-'' then map_option (Pair ''base'') (disk_tail (drop 5 s))
      else None)"

definition last_elem :: "string \<Rightarrow> string" where
  "last_elem n = (case last_index CHR ''/'' n of None \<Rightarrow> n | Some i \<Rightarrow> drop (i + 1) n)"

fun confs_of :: "zenv \<Rightarrow> zcfg \<Rightarrow> string list \<Rightarrow> (string, string) amap \<Rightarrow> (string, string) amap" where
  "confs_of env c [] m = m"
| "confs_of env c (n # ns) m =
     (case disk_re (last_elem n) of
        None \<Rightarrow> confs_of env c ns m
      | Some (k, i) \<Rightarrow>
          (case ze_conf env (if k = ''subvol'' then ''lxc'' else ''qemu'') i of
             None \<Rightarrow> confs_of env c ns m
           | Some enc \<Rightarrow> confs_of env c ns (AList.update (trim_prefix (trim_prefix n (zc_primary c)) ''/'') enc m)))"

definition pve_confs :: "zenv \<Rightarrow> zcfg \<Rightarrow> (string, string) amap z" where
  "pve_confs env c =
     zseq (if zc_recursive c then
             zseq (zfs_run env [''list'', ''-r'', ''-H'', ''-o'', ''name'', ''-t'', ''filesystem,volume'', zc_primary c])
               (\<lambda>r. zret (case r of Inl e \<Rightarrow> [zc_primary c] | Inr out \<Rightarrow> str_fields out))
           else zret [zc_primary c])
       (\<lambda>names. zret (confs_of env c names []))"

definition confs_if_on :: "zenv \<Rightarrow> zcfg \<Rightarrow> (string, string) amap z" where
  "confs_if_on env c = (if zc_pve c then pve_confs env c else zret [])"

fun read_seen :: "zenv \<Rightarrow> zcfg \<Rightarrow> (string, string) amap \<Rightarrow> (string, string) amap \<Rightarrow> (string, string) amap z" where
  "read_seen env c [] seen w = zret seen w"
| "read_seen env c ((rel, enc) # m) seen w =
     zseq (get_conf_prop env (join_ds (zc_primary c) rel)) (\<lambda>v.
       read_seen env c m (if v = [] then seen else AList.update rel v seen)) w"

definition set_seen :: "(string, string) amap \<Rightarrow> unit z" where
  "set_seen m w = ((), w\<lparr>zw_seen := Some m\<rparr>)"

definition conf_delta :: "zenv \<Rightarrow> zcfg \<Rightarrow> (string, string) amap z" where
  "conf_delta env c =
     (if \<not> zc_pve c then zret []
      else zseq (pve_confs env c) (\<lambda>cur w.
        zseq (case zw_seen w of
                Some seen \<Rightarrow> zret seen
              | None \<Rightarrow> zseq (read_seen env c (ze_order env (length (zw_log w)) cur) []) (\<lambda>seen.
                          zseq (set_seen seen) (\<lambda>_. zret seen)))
          (\<lambda>seen. zret (filter (\<lambda>(rel, enc). (case map_of seen rel of None \<Rightarrow> [] | Some v \<Rightarrow> v) \<noteq> enc) cur)) w))"

definition conf_mark_seen :: "(string, string) amap \<Rightarrow> unit z" where
  "conf_mark_seen m w =
     ((), w\<lparr>zw_seen := Some (fold (\<lambda>(k, v). AList.update k v) m (case zw_seen w of None \<Rightarrow> [] | Some s \<Rightarrow> s))\<rparr>)"

fun apply_each :: "zenv \<Rightarrow> string \<Rightarrow> (string, string) amap \<Rightarrow> string \<Rightarrow> unit z" where
  "apply_each env base [] snap w = zret () w"
| "apply_each env base ((rel, enc) # m) snap w =
     zseq (set_conf_prop env (join_ds base rel) enc) (\<lambda>_.
     zseq (if snap \<noteq> [] then set_conf_prop env (join_ds base rel @ ''@'' @ snap) enc else zret (Inr ())) (\<lambda>_.
     apply_each env base m snap)) w"

definition apply_confs :: "zenv \<Rightarrow> string \<Rightarrow> (string, string) amap \<Rightarrow> string \<Rightarrow> unit z" where
  "apply_confs env base confs snap w = apply_each env base (ze_order env (length (zw_log w)) confs) snap w"

definition conf_only_local :: "zenv \<Rightarrow> zcfg \<Rightarrow> unit z" where
  "conf_only_local env c =
     zseq (conf_delta env c) (\<lambda>d.
       if d = [] then zret ()
       else zseq (apply_confs env (zc_primary c) d []) (\<lambda>_.
            zseq (zfs_exists env (zc_backup c)) (\<lambda>ex.
            zseq (if ex then apply_confs env (zc_backup c) d [] else zret ()) (\<lambda>_.
            conf_mark_seen d))))"

subsection \<open>Taking the snapshot\<close>

text \<open>
  \<open>strings.Contains\<close>, and \<open>consistencyOf\<close> on the guest strategies of the report.
\<close>

definition contains :: "string \<Rightarrow> string \<Rightarrow> bool" where
  "contains s t \<longleftrightarrow> sublist t s"

definition frozen_strategy :: "string \<Rightarrow> bool" where
  "frozen_strategy s \<longleftrightarrow>
     s = ''qga'' \<or> s = ''fsfreeze'' \<or> s = ''cgroup'' \<or> s = ''esxi-quiesce'' \<or> s = ''esxi-mem'' \<or>
     contains s ''mem'' \<or> contains s ''vmstate''"

fun consistency_loop :: "string list \<Rightarrow> string \<Rightarrow> string" where
  "consistency_loop [] res = res"
| "consistency_loop (s # ss) res =
     (if s = ''qmp-pause'' then consistency_loop ss ''paused''
      else if frozen_strategy s then consistency_loop ss res
      else [])"

definition consistency_of :: "zenv \<Rightarrow> string \<Rightarrow> string" where
  "consistency_of env out =
     (case ze_guests env out of None \<Rightarrow> [] | Some gs \<Rightarrow> if gs = [] then [] else consistency_loop gs ''app'')"

definition freeze_due :: "zenv \<Rightarrow> zcfg \<Rightarrow> bool z" where
  "freeze_due env c w =
     (zc_freeze c \<noteq> [] \<and> zw_tried w \<noteq> ze_today env (length (zw_log w)) \<and>
      (case ze_hhmm env (zc_freeze c) of None \<Rightarrow> False | Some t \<Rightarrow> t \<le> ze_minute env (length (zw_log w))), w)"

definition mark_tried :: "zenv \<Rightarrow> unit z" where
  "mark_tried env w = ((), w\<lparr>zw_tried := ze_today env (length (zw_log w))\<rparr>)"

definition tool_run :: "zenv \<Rightarrow> string list \<Rightarrow> (zerr + string) z" where
  "tool_run env args w =
     (case ze_tool env (length (zw_log w)) of
        (out, ok) \<Rightarrow> (if ok then Inr out else Inl ToolFailed, issue (Tool args) w))"

definition snapshot_rec :: "zenv \<Rightarrow> zcfg \<Rightarrow> string \<Rightarrow> (zerr + string) z" where
  "snapshot_rec env c full = zfs_run env (if zc_recursive c then [''snapshot'', ''-r'', full] else [''snapshot'', full])"

definition plain_snapshot :: "zenv \<Rightarrow> zcfg \<Rightarrow> string \<Rightarrow> (zerr + string) z" where
  "plain_snapshot env c full = ztry (snapshot_rec env c full) (\<lambda>_. zret (Inr []))"

definition take_snapshot :: "zenv \<Rightarrow> zcfg \<Rightarrow> string \<Rightarrow> (zerr + string) z" where
  "take_snapshot env c full =
     zseq (freeze_due env c) (\<lambda>due.
       if \<not> due then plain_snapshot env c full
       else zseq (mark_tried env) (\<lambda>_.
         case str_index CHR ''@'' full of
           None \<Rightarrow> zret (Inl SlicePanic)
         | Some i \<Rightarrow>
             zseq (tool_run env ([zc_freeze_bin c, ''snap'', ''--dataset'', take i full, ''--name'', drop (i + 1) full,
               ''--recursive='' @ (if zc_recursive c then ''true'' else ''false'')] @ zc_freeze_args c)) (\<lambda>r.
               case r of
                 Inr out \<Rightarrow> zret (Inr (consistency_of env out))
               | Inl e \<Rightarrow> zseq (destroy_snap env c full) (\<lambda>_. plain_snapshot env c full))))"

subsection \<open>The cycle\<close>

definition parse_keep_step :: "string \<Rightarrow> int \<times> int \<Rightarrow> int \<times> int" where
  "parse_keep_step p k =
     (let kv = trim_space p
      in case str_index CHR '':'' kv of
           None \<Rightarrow> k
         | Some i \<Rightarrow>
             (case atoi (drop (i + 1) kv) of
                None \<Rightarrow> k
              | Some n \<Rightarrow> if take i kv = ''hours'' then (n, snd k) else if take i kv = ''days'' then (fst k, n) else k))"

definition parse_keep :: "string \<Rightarrow> int \<times> int \<Rightarrow> int \<times> int" where
  "parse_keep s k = fold parse_keep_step (split_on CHR '','' s) k"

text \<open>The newest of \<open>pl\<close> whose guid the backup has.\<close>

definition common_base :: "zsnap list \<Rightarrow> zsnap list \<Rightarrow> zsnap option" where
  "common_base pl bl = find (\<lambda>p. zs_guid p \<in> set (map zs_guid bl)) (rev pl)"

definition fail_cycle :: "zenv \<Rightarrow> zcfg \<Rightarrow> zerr option \<Rightarrow> (bool \<times> zerr option) z" where
  "fail_cycle env c e =
     zseq (destroy_snap env c (snap_name c (zc_primary c) ''new'')) (\<lambda>_. zret (False, e))"

definition send_full :: "zenv \<Rightarrow> zcfg \<Rightarrow> (zerr option + unit) z" where
  "send_full env c =
     zseq (pipe_send_recv env (send_args c [snap_name c (zc_primary c) ''new'']) [''recv'', ''-s'', ''-u'', zc_backup c])
       (\<lambda>r. case r of
          Inl e \<Rightarrow> zret (Inl (Some e))
        | Inr _ \<Rightarrow>
            zseq (zdo env [''set'', ''readonly=on'', zc_backup c]) (\<lambda>_.
            zseq (zdo env [''set'', ''canmount=noauto'', zc_backup c]) (\<lambda>_.
            zseq (zfs_get env ''guid'' (zc_primary c)) (\<lambda>g.
            zseq (zdo env [''set'', ''cs:sync='' @ zc_nr c @ '':'' @ g, zc_backup c]) (\<lambda>_.
            zseq (if zc_recursive c then fix_tree env (zc_backup c) else zret ()) (\<lambda>_. zret (Inr ())))))))"

definition resume_receive :: "zenv \<Rightarrow> zcfg \<Rightarrow> unit z" where
  "resume_receive env c =
     zseq (zfs_get env ''receive_resume_token'' (zc_backup c)) (\<lambda>tok.
       if tok \<noteq> [] \<and> tok \<noteq> ''-'' then
         zseq (pipe_send_recv env [''send'', ''-t'', tok] [''recv'', ''-s'', ''-u'', zc_backup c]) (\<lambda>r.
           case r of Inr _ \<Rightarrow> zret () | Inl e \<Rightarrow> zdo env [''recv'', ''-A'', zc_backup c])
       else zret ())"

definition send_from_base :: "zenv \<Rightarrow> zcfg \<Rightarrow> zsnap \<Rightarrow> (zerr option + unit) z" where
  "send_from_base env c base =
     zseq (pipe_send_recv env (send_args c [''-i'', zs_full base, snap_name c (zc_primary c) ''new''])
             [''recv'', ''-s'', ''-F'', ''-u'', zc_backup c])
       (\<lambda>r. case r of
          Inl e \<Rightarrow> zret (Inl (Some e))
        | Inr _ \<Rightarrow>
            zseq (if zc_recursive c then fix_tree env (zc_backup c) else zret ()) (\<lambda>_.
            zseq (drop_approval c) (\<lambda>_. zret (Inr ()))))"

definition block_rollback :: "zcfg \<Rightarrow> zsnap \<Rightarrow> zsnap \<Rightarrow> (zerr option + unit) z" where
  "block_rollback c base newest =
     zseq (set_blocked c (zs_guid base) (zs_guid newest)) (\<lambda>_.
     zseq (set_status (''blocked: rollback needed (base '' @ zs_slot base @ '', newest on backup '' @
       zs_slot newest @ '') - approve in frontend'')) (\<lambda>_. zret (Inl None)))"

definition send_or_block :: "zenv \<Rightarrow> zcfg \<Rightarrow> zsnap \<Rightarrow> zsnap \<Rightarrow> (zerr option + unit) z" where
  "send_or_block env c base newest w =
     (if zs_guid base \<noteq> zs_guid newest \<and> \<not> zc_rollback_auto c \<and> \<not> approved c (zs_guid base) (zs_guid newest) w
      then block_rollback c base newest w else send_from_base env c base w)"

definition send_inc :: "zenv \<Rightarrow> zcfg \<Rightarrow> zsnap list \<Rightarrow> (zerr option + unit) z" where
  "send_inc env c pl =
     zseq (resume_receive env c) (\<lambda>_.
     zseq (zfs_get env ''guid'' (zc_primary c)) (\<lambda>g.
     zseq (zfs_get env ''cs:sync'' (zc_backup c)) (\<lambda>have.
       if have \<noteq> zc_nr c @ '':'' @ g then zret (Inl (Some (WrongTarget have (zc_nr c @ '':'' @ g))))
       else zseq (list_snaps env c (zc_backup c)) (\<lambda>r. case r of
           Inl e \<Rightarrow> zret (Inl (Some e))
         | Inr bl \<Rightarrow>
             (case common_base pl bl of
                None \<Rightarrow> zret (Inl (Some NoCommonBase))
              | Some base \<Rightarrow> send_or_block env c base (last bl))))))"

text \<open>After the transfer: the confirmation by guid, the properties of both snapshots, and the rotation.\<close>

definition confirm :: "zenv \<Rightarrow> zcfg \<Rightarrow> (zsnap \<times> zsnap) option z" where
  "confirm env c =
     zseq (list_snaps env c (zc_primary c)) (\<lambda>pr.
     zseq (list_snaps env c (zc_backup c)) (\<lambda>br. zret (
       case (case pr of Inl e \<Rightarrow> None | Inr pl \<Rightarrow> find_slot pl ''new'', br) of
         (Some pn, Inr bl) \<Rightarrow>
           (case find_slot bl ''new'' of
              None \<Rightarrow> None
            | Some bn \<Rightarrow> if zs_guid bn = zs_guid pn then Some (pn, bn) else None)
       | _ \<Rightarrow> None)))"

definition mark_consistent :: "zenv \<Rightarrow> string \<Rightarrow> string \<Rightarrow> unit z" where
  "mark_consistent env cons full =
     (if cons \<noteq> [] then zdo env [''set'', ''cs:consistent='' @ cons, full] else zret ())"

definition rotate_both :: "zenv \<Rightarrow> zcfg \<Rightarrow> (bool \<times> zerr option) z" where
  "rotate_both env c =
     zseq (rotate env c (zc_primary c) (zc_versions c)) (\<lambda>r. case r of
       Inl e \<Rightarrow> zret (True, Some e)
     | Inr _ \<Rightarrow> zseq (rotate env c (zc_backup c) True) (\<lambda>r. zret (True, case r of Inl e \<Rightarrow> Some e | Inr _ \<Rightarrow> None)))"

definition finish_cycle :: "zenv \<Rightarrow> zcfg \<Rightarrow> string \<Rightarrow> (string, string) amap \<Rightarrow> (bool \<times> zerr option) z" where
  "finish_cycle env c cons confs =
     zseq (confirm env c) (\<lambda>x. case x of
       None \<Rightarrow> fail_cycle env c (Some NotConfirmed)
     | Some (pn, bn) \<Rightarrow>
         zseq (mark_consistent env cons (zs_full pn)) (\<lambda>_.
         zseq (mark_consistent env cons (zs_full bn)) (\<lambda>_.
         zseq (if confs \<noteq> [] then
                 zseq (apply_confs env (zc_primary c) confs (zc_prefix c @ ''new'')) (\<lambda>_.
                 zseq (apply_confs env (zc_backup c) confs (zc_prefix c @ ''new'')) (\<lambda>_.
                 conf_mark_seen confs))
               else zret ()) (\<lambda>_.
         rotate_both env c))))"

definition set_last_full :: "bool \<Rightarrow> unit z" where
  "set_last_full b w = ((), w\<lparr>zw_last_full := b\<rparr>)"

definition replicate_new :: "zenv \<Rightarrow> zcfg \<Rightarrow> zsnap list \<Rightarrow> string \<Rightarrow> (bool \<times> zerr option) z" where
  "replicate_new env c pl cons =
     zseq (confs_if_on env c) (\<lambda>confs.
     zseq (zfs_exists env (zc_backup c)) (\<lambda>ex1.
     zseq (set_last_full (\<not> ex1)) (\<lambda>_.
     zseq (zfs_exists env (zc_backup c)) (\<lambda>ex2.
     zseq (if \<not> ex2 then send_full env c else send_inc env c pl) (\<lambda>r.
       case r of Inl e \<Rightarrow> fail_cycle env c e | Inr _ \<Rightarrow> finish_cycle env c cons confs)))))"

definition cycle_body :: "zenv \<Rightarrow> zcfg \<Rightarrow> zsnap list \<Rightarrow> (bool \<times> zerr option) z" where
  "cycle_body env c pl =
     zseq (if find_slot pl ''n0'' \<noteq> None then zseq (changed env c) (\<lambda>b. zret (\<not> b)) else zret False) (\<lambda>idle.
       if idle then zseq (conf_only_local env c) (\<lambda>_. zret (False, None))
       else zseq (take_snapshot env c (snap_name c (zc_primary c) ''new'')) (\<lambda>r. case r of
           Inl e \<Rightarrow> zret (False, Some e)
         | Inr cons \<Rightarrow> replicate_new env c pl cons))"

definition cycle :: "zenv \<Rightarrow> zcfg \<Rightarrow> (bool \<times> zerr option) z" where
  "cycle env c =
     zseq (recover_cycle env c) (\<lambda>r. case r of
       Inl e \<Rightarrow> zret (False, Some e)
     | Inr _ \<Rightarrow>
         zseq (list_snaps env c (zc_primary c)) (\<lambda>r. case r of
           Inl e \<Rightarrow> zret (False, Some e)
         | Inr pl \<Rightarrow> cycle_body env c pl))"

end
