(* ===== verification/Zfs_Correct.thy ===== *)
theory Zfs_Correct
  imports Zfs
begin

section \<open>What a replication cycle may do\<close>

text \<open>
  Every command of a cycle is one of a short list (\<open>allowed\<close>), whatever \<open>zfs\<close> answers; in
  particular only snapshots with the prefix of the service are destroyed or renamed. And a receive
  with \<open>-F\<close>, which rolls the backup back, is only issued when the newest common snapshot is the
  newest of the backup, or the rollback was released. The locale \<open>zfs_inv\<close> carries both: what is
  kept by the commands and by the updates of the other state is kept by every operation.
\<close>

subsection \<open>Commands\<close>

definition snap_ds :: "string \<Rightarrow> string" where
  "snap_ds full = takeWhile (\<lambda>x. x \<noteq> CHR ''@'') full"

definition own_snap :: "zcfg \<Rightarrow> string \<Rightarrow> bool" where
  "own_snap c full \<longleftrightarrow>
     CHR ''@'' \<in> set full \<and> has_prefix (drop (length (snap_ds full) + 1) full) (zc_prefix c)"

definition plain_names :: "zcfg \<Rightarrow> bool" where
  "plain_names c \<longleftrightarrow> CHR ''@'' \<notin> set (zc_primary c) \<and> CHR ''@'' \<notin> set (zc_backup c)"

definition opt_r :: "string list \<Rightarrow> string list" where
  "opt_r as = (if as \<noteq> [] \<and> hd as = ''-r'' then tl as else as)"

definition own_ds :: "zcfg \<Rightarrow> string \<Rightarrow> bool" where
  "own_ds c ds \<longleftrightarrow> ds = zc_primary c \<or> ds = zc_backup c"

definition own_renaming :: "zcfg \<Rightarrow> string \<Rightarrow> string \<Rightarrow> bool" where
  "own_renaming c a b \<longleftrightarrow> own_snap c a \<and> own_snap c b \<and> snap_ds a = snap_ds b \<and> own_ds c (snap_ds a)"

definition own_property :: "string \<Rightarrow> bool" where
  "own_property kv \<longleftrightarrow> kv = ''readonly=on'' \<or> kv = ''canmount=noauto'' \<or> has_prefix kv ''cs:''"

definition allowed_args :: "zcfg \<Rightarrow> string list \<Rightarrow> bool" where
  "allowed_args c args =
     (case args of
        [] \<Rightarrow> False
      | v # r \<Rightarrow>
          v = ''list'' \<or> v = ''get'' \<or>
          (v = ''destroy'' \<and> (case opt_r r of [s] \<Rightarrow> own_snap c s | _ \<Rightarrow> False)) \<or>
          (v = ''rename'' \<and> (case opt_r r of [a, b] \<Rightarrow> own_renaming c a b | _ \<Rightarrow> False)) \<or>
          (v = ''snapshot'' \<and> opt_r r = [snap_name c (zc_primary c) ''new'']) \<or>
          (v = ''set'' \<and> (case r of [kv, t] \<Rightarrow> own_property kv | _ \<Rightarrow> False)) \<or>
          (v = ''inherit'' \<and> (case r of [p, t] \<Rightarrow> has_prefix p ''cs:pveconf'' | _ \<Rightarrow> False)) \<or>
          (v = ''recv'' \<and> r = [''-A'', zc_backup c]))"

definition allowed :: "zcfg \<Rightarrow> zcmd \<Rightarrow> bool" where
  "allowed c cmd =
     (case cmd of
        Zfs args \<Rightarrow> allowed_args c args
      | Pipe s r \<Rightarrow> s \<noteq> [] \<and> hd s = ''send'' \<and>
          (r = [''recv'', ''-s'', ''-u'', zc_backup c] \<or> r = [''recv'', ''-s'', ''-F'', ''-u'', zc_backup c])
      | Tool args \<Rightarrow> take 6 args =
          [zc_freeze_bin c, ''snap'', ''--dataset'', zc_primary c, ''--name'', zc_prefix c @ ''new'']
      | Stream s \<Rightarrow> s \<noteq> [] \<and> hd s = ''send''
      | Sink r ds \<Rightarrow>
          r = [''recv'', ''-s'', ''-u'', zc_backup c] \<or> r = [''recv'', ''-s'', ''-F'', ''-u'', zc_backup c]
      | SendFrame f \<Rightarrow> True)"

definition forced :: "zcmd \<Rightarrow> bool" where
  "forced cmd =
     (case cmd of Pipe s r \<Rightarrow> ''-F'' \<in> set (butlast r) | Sink r ds \<Rightarrow> ''-F'' \<in> set (butlast r) | _ \<Rightarrow> False)"

text \<open>The list is exact for datasets with a legal name, one without \<open>@\<close>.\<close>

definition permitted :: "zcfg \<Rightarrow> zcmd \<Rightarrow> bool" where
  "permitted c cmd \<longleftrightarrow> (plain_names c \<longrightarrow> allowed c cmd)"

lemma permittedI [intro]: "(plain_names c \<Longrightarrow> allowed c cmd) \<Longrightarrow> permitted c cmd"
  by (simp add: permitted_def)

lemma snap_ds_cut: "CHR ''@'' \<notin> set d \<Longrightarrow> snap_ds (d @ CHR ''@'' # n) = d"
  unfolding snap_ds_def by (subst takeWhile_append2) auto

lemma own_snap_name: "CHR ''@'' \<notin> set d \<Longrightarrow> own_snap c (snap_name c d x)"
  by (simp add: own_snap_def snap_name_def snap_ds_cut)

lemma snap_name_option: "snap_name c d x \<noteq> ''-r''"
proof
  assume "snap_name c d x = ''-r''"
  then have "CHR ''@'' \<in> set (''-r'' :: string)" by (metis in_set_conv_decomp append_Cons append_Nil snap_name_def)
  then show False by simp
qed

lemma snap_ds_name: "CHR ''@'' \<notin> set d \<Longrightarrow> snap_ds (snap_name c d x) = d"
  by (simp add: snap_name_def snap_ds_cut)

lemma parse_snap_own: "parse_snap (zc_prefix c) ln = Some s \<Longrightarrow> own_snap c (zs_full s)"
  apply (clarsimp simp: parse_snap_def split: list.splits option.splits if_splits)
  apply (elim str_index_SomeE)
  apply (auto simp: own_snap_def snap_ds_cut split: if_splits)
  done

lemma parse_snaps_own: "s \<in> set (parse_snaps (zc_prefix c) out) \<Longrightarrow> own_snap c (zs_full s)"
  by (auto simp: parse_snaps_def map_filter_def parse_snap_own)

subsection \<open>The chunk loop ends at the first unset property\<close>

lemma get_conf_fuel:
  assumes "k < n" and "\<And>x ok. ze_zfs env (length (zw_log w) + k) = (x, ok) \<Longrightarrow> ok \<Longrightarrow> unset (trim_space x)"
  shows "get_conf_from env t (n + m) i w = get_conf_from env t n i w"
  using assms
proof (induction k arbitrary: n i w)
  case 0
  then obtain n' where "n = Suc n'" by (cases n) auto
  with 0(2) show ?case
    by (auto simp: zseq_def zfs_get_def zfs_run_def unset_def zret_def split: prod.split)
next
  case (Suc k)
  then obtain n' where n: "n = Suc n'" "k < n'" by (cases n) auto
  show ?case
    using n Suc.IH [OF n(2), of "issue (Zfs [''get'', ''-H'', ''-o'', ''value'', conf_prop i, t]) w" "i + 1"] Suc.prems(2)
    by (auto simp: zseq_def zfs_get_def zfs_run_def zret_def issue_def split: prod.split)
qed

subsection \<open>What every operation keeps\<close>

definition pres :: "(zw \<Rightarrow> bool) \<Rightarrow> 'a z \<Rightarrow> ('a \<Rightarrow> bool) \<Rightarrow> bool" where
  "pres Inv m Q \<longleftrightarrow> (\<forall>w. Inv w \<longrightarrow> Inv (snd (m w)) \<and> Q (fst (m w)))"

lemma pres_ret: "Q x \<Longrightarrow> pres Inv (zret x) Q"
  by (simp add: pres_def zret_def)

lemma pres_weaken: "pres Inv m Q \<Longrightarrow> (\<And>x. Q x \<Longrightarrow> R x) \<Longrightarrow> pres Inv m R"
  by (auto simp: pres_def)

lemma pres_any: "pres Inv m Q \<Longrightarrow> pres Inv m (\<lambda>_. True)"
  by (auto simp: pres_def)

lemma pres_seq:
  assumes "pres Inv m Q" and "\<And>x. Q x \<Longrightarrow> pres Inv (f x) R"
  shows "pres Inv (zseq m f) R"
  using assms by (fastforce simp: pres_def zseq_def split: prod.split)

lemma pres_eta: "pres Inv m Q \<Longrightarrow> pres Inv (\<lambda>w. m w) Q"
  by simp

lemma pres_if: "(b \<Longrightarrow> pres Inv m Q) \<Longrightarrow> (\<not> b \<Longrightarrow> pres Inv n Q) \<Longrightarrow> pres Inv (if b then m else n) Q"
  by simp

lemma pres_option: "(x = None \<Longrightarrow> pres Inv m Q) \<Longrightarrow> (\<And>y. x = Some y \<Longrightarrow> pres Inv (f y) Q) \<Longrightarrow>
    pres Inv (case x of None \<Rightarrow> m | Some y \<Rightarrow> f y) Q"
  by (cases x) auto

lemma pres_sum: "(\<And>e. x = Inl e \<Longrightarrow> pres Inv (m e) Q) \<Longrightarrow> (\<And>y. x = Inr y \<Longrightarrow> pres Inv (f y) Q) \<Longrightarrow>
    pres Inv (case x of Inl e \<Rightarrow> m e | Inr y \<Rightarrow> f y) Q"
  by (cases x) auto

lemma pres_cong: "(\<And>w. m w = n w) \<Longrightarrow> pres Inv n Q \<Longrightarrow> pres Inv m Q"
  by (simp add: pres_def)

definition presT :: "(zw \<Rightarrow> bool) \<Rightarrow> 'a z \<Rightarrow> bool" where
  "presT Inv m \<longleftrightarrow> pres Inv m (\<lambda>_. True)"

named_theorems presT_intros \<open>what keeps an invariant, operation by operation\<close>

lemma presT_I: "pres Inv m Q \<Longrightarrow> presT Inv m"
  by (auto simp: presT_def intro: pres_weaken)

lemma presT_D: "presT Inv m \<Longrightarrow> Inv w \<Longrightarrow> Inv (snd (m w))"
  by (simp add: presT_def pres_def)

lemma presT_ret [presT_intros]: "presT Inv (zret x)"
  by (simp add: presT_def pres_ret)

lemma presT_seq [presT_intros]: "presT Inv m \<Longrightarrow> (\<And>x. presT Inv (f x)) \<Longrightarrow> presT Inv (zseq m f)"
  unfolding presT_def by (rule pres_seq)

lemma presT_try [presT_intros]: "presT Inv m \<Longrightarrow> (\<And>x. presT Inv (f x)) \<Longrightarrow> presT Inv (ztry m f)"
  unfolding ztry_def by (auto intro!: presT_seq presT_ret split: sum.split)

lemma presT_if [presT_intros]:
  "(b \<Longrightarrow> presT Inv m) \<Longrightarrow> (\<not> b \<Longrightarrow> presT Inv n) \<Longrightarrow> presT Inv (if b then m else n)"
  by simp

lemma presT_option [presT_intros]:
  "(x = None \<Longrightarrow> presT Inv m) \<Longrightarrow> (\<And>y. x = Some y \<Longrightarrow> presT Inv (f y)) \<Longrightarrow>
   presT Inv (case x of None \<Rightarrow> m | Some y \<Rightarrow> f y)"
  by (cases x) auto

lemma presT_sum [presT_intros]:
  "(\<And>e. x = Inl e \<Longrightarrow> presT Inv (m e)) \<Longrightarrow> (\<And>y. x = Inr y \<Longrightarrow> presT Inv (f y)) \<Longrightarrow>
   presT Inv (case x of Inl e \<Rightarrow> m e | Inr y \<Rightarrow> f y)"
  by (cases x) auto

lemma presT_prod [presT_intros]:
  "(\<And>a b. x = (a, b) \<Longrightarrow> presT Inv (f a b)) \<Longrightarrow> presT Inv (case x of (a, b) \<Rightarrow> f a b)"
  by (cases x) auto

lemma presT_let [presT_intros]: "(\<And>y. y = x \<Longrightarrow> presT Inv (f y)) \<Longrightarrow> presT Inv (let y = x in f y)"
  by simp

lemma presT_try_with:
  assumes "pres Inv m (\<lambda>r. \<forall>y. r = Inr y \<longrightarrow> Q y)" and "\<And>y. Q y \<Longrightarrow> presT Inv (f y)"
  shows "presT Inv (ztry m f)"
  unfolding ztry_def presT_def
  by (rule pres_seq, rule assms(1)) (use assms(2) in \<open>auto simp: presT_def intro: pres_ret split: sum.split\<close>)

lemma presT_seq_with:
  assumes "pres Inv m Q" and "\<And>y. Q y \<Longrightarrow> presT Inv (f y)"
  shows "presT Inv (zseq m f)"
  using assms unfolding presT_def by (rule pres_seq)

lemma presT_cong: "(\<And>w. m w = n w) \<Longrightarrow> presT Inv n \<Longrightarrow> presT Inv m"
  by (simp add: presT_def pres_def)

lemma presT_point: "(\<And>w. Inv w \<Longrightarrow> Inv (snd (m w))) \<Longrightarrow> presT Inv m"
  by (simp add: presT_def pres_def)

locale zfs_inv =
  fixes c :: zcfg and Inv :: "zw \<Rightarrow> bool"
  assumes inv_issue: "Inv w \<Longrightarrow> permitted c cmd \<Longrightarrow> \<not> forced cmd \<Longrightarrow> Inv (issue cmd w)"
    and inv_blocked: "Inv w \<Longrightarrow> Inv (w\<lparr>zw_blocked := b\<rparr>)"
    and inv_status: "Inv w \<Longrightarrow> Inv (w\<lparr>zw_status := s\<rparr>)"
    and inv_tried: "Inv w \<Longrightarrow> Inv (w\<lparr>zw_tried := s\<rparr>)"
    and inv_last_full: "Inv w \<Longrightarrow> Inv (w\<lparr>zw_last_full := f\<rparr>)"
    and inv_seen: "Inv w \<Longrightarrow> Inv (w\<lparr>zw_seen := m\<rparr>)"
    and inv_inbox: "Inv w \<Longrightarrow> Inv (w\<lparr>zw_inbox := tl (zw_inbox w)\<rparr>)"
begin

lemma run_keeps: "permitted c (Zfs args) \<Longrightarrow> presT Inv (zfs_run env args)"
  by (auto simp: presT_def pres_def zfs_run_def forced_def intro: inv_issue split: prod.split)

lemma do_keeps: "permitted c (Zfs args) \<Longrightarrow> presT Inv (zdo env args)"
  unfolding zdo_def by (intro presT_intros run_keeps)

lemma pipe_keeps: "permitted c (Pipe s r) \<Longrightarrow> \<not> forced (Pipe s r) \<Longrightarrow> presT Inv (pipe_send_recv env s r)"
  by (auto simp: presT_def pres_def pipe_send_recv_def intro: inv_issue split: prod.split)

lemma tool_keeps: "permitted c (Tool args) \<Longrightarrow> presT Inv (tool_run env args)"
  by (auto simp: presT_def pres_def tool_run_def forced_def intro: inv_issue split: prod.split)

lemma exists_keeps [presT_intros]: "presT Inv (zfs_exists env ds)"
  unfolding zfs_exists_def by (intro presT_intros run_keeps) (simp add: permitted_def allowed_def allowed_args_def)

lemma get_keeps [presT_intros]: "presT Inv (zfs_get env p ds)"
  unfolding zfs_get_def by (intro presT_intros run_keeps) (simp add: permitted_def allowed_def allowed_args_def)

lemma list_keeps [presT_intros]: "presT Inv (list_snaps env c' ds)"
  unfolding list_snaps_def by (intro presT_intros run_keeps) (simp add: permitted_def allowed_def allowed_args_def)

lemma list_own: "pres Inv (list_snaps env c ds) (\<lambda>r. \<forall>l. r = Inr l \<longrightarrow> (\<forall>s\<in>set l. own_snap c (zs_full s)))"
proof -
  have "presT Inv (list_snaps env c ds)" by (rule list_keeps)
  moreover have "\<forall>s\<in>set l. own_snap c (zs_full s)" if "fst (list_snaps env c ds w) = Inr l" for w l
    using that by (auto simp: list_snaps_def ztry_def zseq_def zret_def parse_snaps_own split: prod.splits sum.splits)
  ultimately show ?thesis by (simp add: presT_def pres_def)
qed

lemma destroy_keeps: "(plain_names c \<Longrightarrow> own_snap c full) \<Longrightarrow> presT Inv (destroy_snap env c full)"
  unfolding destroy_snap_def
  by (intro run_keeps) (auto simp: permitted_def allowed_def allowed_args_def opt_r_def own_snap_def)

lemma zdestroy_keeps: "(plain_names c \<Longrightarrow> own_snap c full) \<Longrightarrow> presT Inv (zdestroy env c full)"
  unfolding zdestroy_def by (intro presT_intros destroy_keeps)

lemma own_new: "plain_names c \<Longrightarrow> own_snap c (snap_name c (zc_primary c) x)"
  by (simp add: plain_names_def own_snap_name)

lemma rename_keeps: "own_ds c ds \<Longrightarrow> presT Inv (rename_slot env c ds a b)"
  unfolding rename_slot_def
  by (intro presT_intros run_keeps)
    (auto simp: permitted_def allowed_def allowed_args_def opt_r_def own_renaming_def plain_names_def own_ds_def
      own_snap_name snap_ds_name snap_name_option)

lemma blocked_keeps [presT_intros]: "presT Inv (set_blocked c' b n)"
  by (rule presT_point) (auto simp: set_blocked_def inv_blocked)

lemma unblock_keeps [presT_intros]: "presT Inv (clear_blocked c')"
  by (rule presT_point) (auto simp: clear_blocked_def inv_blocked)

lemma status_keeps [presT_intros]: "presT Inv (set_status s)"
  by (rule presT_point) (auto simp: set_status_def inv_status)

lemma last_full_keeps [presT_intros]: "presT Inv (set_last_full b)"
  by (rule presT_point) (auto simp: set_last_full_def inv_last_full)

lemma seen_keeps [presT_intros]: "presT Inv (set_seen m)"
  by (rule presT_point) (auto simp: set_seen_def inv_seen)

lemma mark_seen_keeps [presT_intros]: "presT Inv (conf_mark_seen m)"
  by (rule presT_point) (auto simp: conf_mark_seen_def inv_seen)

lemma tried_keeps [presT_intros]: "presT Inv (mark_tried env)"
  by (rule presT_point) (auto simp: mark_tried_def inv_tried)

lemma due_keeps [presT_intros]: "presT Inv (freeze_due env c')"
  by (rule presT_point) (auto simp: freeze_due_def)

lemma set_keeps: "own_property kv \<Longrightarrow> presT Inv (zdo env [''set'', kv, t])"
  by (intro do_keeps) (simp add: permitted_def allowed_def allowed_args_def)

lemma fix_lines_keeps: "presT Inv (fix_lines env lns)"
proof (induction lns)
  case Nil
  show ?case by (rule presT_cong [OF fix_lines.simps(1)]) (rule presT_ret)
next
  case (Cons ln lns)
  have one: "presT Inv (fix_one env f0 f1 f2)" for f0 f1 f2
    unfolding fix_one_def by (intro presT_intros set_keeps) (auto simp: own_property_def)
  show ?case
    by (rule presT_cong [OF fix_lines.simps(2)], rule presT_seq)
      (auto intro: one presT_ret Cons split: list.split)
qed

lemma fix_tree_keeps [presT_intros]: "presT Inv (fix_tree env ds)"
  unfolding fix_tree_def
  by (intro presT_intros run_keeps fix_lines_keeps) (simp add: permitted_def allowed_def allowed_args_def)

lemma destroy_all_keeps: "\<forall>s\<in>set l. own_snap c (zs_full s) \<Longrightarrow> presT Inv (destroy_all env c l)"
proof (induction l)
  case Nil
  show ?case by (rule presT_cong [OF destroy_all.simps(1)]) (rule presT_ret)
next
  case (Cons s l)
  show ?case
    by (rule presT_cong [OF destroy_all.simps(2)]) (use Cons in \<open>auto intro!: presT_intros destroy_keeps\<close>)
qed

lemma prune_keeps [presT_intros]: "presT Inv (prune env c ds)"
  unfolding prune_def
proof (rule presT_seq_with [OF list_own])
  fix r :: "zerr + zsnap list"
  assume r: "\<forall>l. r = Inr l \<longrightarrow> (\<forall>s\<in>set l. own_snap c (zs_full s))"
  show "presT Inv (\<lambda>w. case r of Inl e \<Rightarrow> zret () w
      | Inr l \<Rightarrow> destroy_all env c (filter (expired c (ze_now env (length (zw_log w)))) l) w)"
  proof (rule presT_point)
    fix w assume w: "Inv w"
    show "Inv (snd (case r of Inl e \<Rightarrow> zret () w
      | Inr l \<Rightarrow> destroy_all env c (filter (expired c (ze_now env (length (zw_log w)))) l) w))"
      using r w by (auto simp: zret_def intro!: presT_D [OF destroy_all_keeps] split: sum.split)
  qed
qed

lemma find_slot_own: "find_slot l x = Some s \<Longrightarrow> \<forall>s\<in>set l. own_snap c (zs_full s) \<Longrightarrow> own_snap c (zs_full s)"
  by (metis find_slot_def find_Some_iff nth_mem)

lemma retire_keeps:
  "own_ds c ds \<Longrightarrow> \<forall>s\<in>set l. own_snap c (zs_full s) \<Longrightarrow> presT Inv (retire_n1 env c ds keep l)"
  unfolding retire_n1_def Let_def
  by (intro presT_intros rename_keeps zdestroy_keeps) (auto dest: find_slot_own)

lemma rotate_keeps: "own_ds c ds \<Longrightarrow> presT Inv (rotate env c ds keep)"
  unfolding rotate_def
  by (rule presT_try_with [OF list_own]) (intro presT_intros retire_keeps rename_keeps, auto)

lemma destroy_opt_keeps: "\<forall>s. x = Some s \<longrightarrow> own_snap c (zs_full s) \<Longrightarrow> presT Inv (destroy_opt env c x)"
  unfolding destroy_opt_def by (intro presT_intros zdestroy_keeps) auto

lemma own_ds_both: "own_ds c (zc_primary c)" "own_ds c (zc_backup c)"
  by (auto simp: own_ds_def)

lemma recover_keeps [presT_intros]: "presT Inv (recover_cycle env c)"
  unfolding recover_cycle_def Let_def
  apply (rule presT_try_with [OF list_own])
  apply (rule presT_seq [OF exists_keeps], rule presT_if)
   apply (rule destroy_opt_keeps, use find_slot_own in blast)
  apply (rule presT_try_with [OF list_own])
  apply (intro presT_intros rotate_keeps own_ds_both destroy_opt_keeps zdestroy_keeps; use find_slot_own in blast)
  done

lemma conf_prop_own: "has_prefix (conf_prop i) ''cs:pveconf''"
  by (auto simp: conf_prop_def has_prefix_def prefix_def)

lemma conf_set_own: "own_property (conf_prop i @ ''='' @ p)"
  by (auto simp: own_property_def conf_prop_def has_prefix_def prefix_def)

lemma get_conf_keeps: "presT Inv (get_conf_from env t n i)"
proof (induction n arbitrary: i)
  case 0
  show ?case by (rule presT_cong [OF get_conf_from.simps(1)]) (rule presT_ret)
next
  case (Suc n)
  show ?case by (rule presT_cong [OF get_conf_from.simps(2)]) (intro presT_intros Suc)
qed

lemma get_conf_prop_keeps [presT_intros]: "presT Inv (get_conf_prop env t)"
  unfolding get_conf_prop_def by (rule get_conf_keeps)

lemma set_pieces_keeps: "presT Inv (set_pieces env t i ps)"
proof (induction ps arbitrary: i)
  case Nil
  show ?case by (rule presT_cong [OF set_pieces.simps(1)]) (rule presT_ret)
next
  case (Cons p ps)
  show ?case
    by (rule presT_cong [OF set_pieces.simps(2)], intro presT_intros run_keeps Cons)
      (use conf_set_own [of i p] in \<open>simp add: permitted_def allowed_def allowed_args_def\<close>)
qed

lemma drop_chunks_keeps: "presT Inv (drop_old_chunks env t n i)"
proof (induction n arbitrary: i)
  case 0
  show ?case by (rule presT_cong [OF drop_old_chunks.simps(1)]) (rule presT_ret)
next
  case (Suc n)
  show ?case
    by (rule presT_cong [OF drop_old_chunks.simps(2)], intro presT_intros do_keeps Suc)
      (use conf_prop_own in \<open>simp add: permitted_def allowed_def allowed_args_def\<close>)
qed

lemma set_conf_keeps [presT_intros]: "presT Inv (set_conf_prop env t enc)"
  unfolding set_conf_prop_def by (intro presT_intros set_pieces_keeps drop_chunks_keeps)

lemma pve_confs_keeps [presT_intros]: "presT Inv (pve_confs env c')"
  unfolding pve_confs_def by (intro presT_intros run_keeps) (simp add: permitted_def allowed_def allowed_args_def)

lemma confs_if_on_keeps [presT_intros]: "presT Inv (confs_if_on env c')"
  unfolding confs_if_on_def by (intro presT_intros)

lemma read_seen_keeps: "presT Inv (read_seen env c' m seen)"
proof (induction m arbitrary: seen)
  case Nil
  show ?case by (rule presT_cong [OF read_seen.simps(1)]) (rule presT_ret)
next
  case (Cons x m)
  show ?case
    by (cases x, simp only:, rule presT_cong [OF read_seen.simps(2)], intro presT_intros Cons)
qed

lemma conf_delta_keeps [presT_intros]: "presT Inv (conf_delta env c')"
proof -
  have one: "presT Inv (zseq (case seen of Some s \<Rightarrow> zret s
      | None \<Rightarrow> zseq (read_seen env c' (ze_order env n cur) []) (\<lambda>s. zseq (set_seen s) (\<lambda>_. zret s))) f)"
    if "\<And>s. presT Inv (f s)" for seen n and cur :: "(string, string) amap" and f :: "_ \<Rightarrow> (string, string) amap z"
    by (intro presT_intros read_seen_keeps that)
  show ?thesis
    unfolding conf_delta_def
    by (intro presT_intros) (rule presT_point, rule presT_D [OF one], intro presT_intros)
qed

lemma apply_each_keeps: "presT Inv (apply_each env base m snap)"
proof (induction m)
  case Nil
  show ?case by (rule presT_cong [OF apply_each.simps(1)]) (rule presT_ret)
next
  case (Cons x m)
  show ?case
    by (cases x, simp only:, rule presT_cong [OF apply_each.simps(2)], intro presT_intros Cons)
qed

lemma apply_confs_keeps [presT_intros]: "presT Inv (apply_confs env base m snap)"
  by (rule presT_point) (auto simp: apply_confs_def intro: presT_D [OF apply_each_keeps])

lemma conf_only_keeps [presT_intros]: "presT Inv (conf_only_local env c')"
  unfolding conf_only_local_def by (intro presT_intros)

lemma changed_keeps [presT_intros]: "presT Inv (changed env c')"
  unfolding changed_def Let_def
  by (intro presT_intros run_keeps) (simp_all add: permitted_def allowed_def allowed_args_def)

lemma snapshot_keeps: "presT Inv (plain_snapshot env c (snap_name c (zc_primary c) ''new''))"
  unfolding plain_snapshot_def snapshot_rec_def
  by (intro presT_intros run_keeps) (auto simp: permitted_def allowed_def allowed_args_def opt_r_def snap_name_option)

lemma tool_permitted:
  assumes "str_index CHR ''@'' (snap_name c (zc_primary c) ''new'') = Some i"
  shows "permitted c (Tool ([zc_freeze_bin c, ''snap'', ''--dataset'', take i (snap_name c (zc_primary c) ''new''),
    ''--name'', drop (i + 1) (snap_name c (zc_primary c) ''new''), r] @ as))"
proof
  assume "plain_names c"
  then have "i = length (zc_primary c)"
    using assms by (simp add: snap_name_def plain_names_def str_index_cut)
  then show "allowed c (Tool ([zc_freeze_bin c, ''snap'', ''--dataset'', take i (snap_name c (zc_primary c) ''new''),
    ''--name'', drop (i + 1) (snap_name c (zc_primary c) ''new''), r] @ as))"
    by (simp add: allowed_def snap_name_def)
qed

lemma take_snapshot_keeps [presT_intros]: "presT Inv (take_snapshot env c (snap_name c (zc_primary c) ''new''))"
  unfolding take_snapshot_def
  by (intro presT_intros snapshot_keeps tool_keeps destroy_keeps own_new) (rule tool_permitted)

lemma fail_keeps [presT_intros]: "presT Inv (fail_cycle env c e)"
  unfolding fail_cycle_def by (intro presT_intros destroy_keeps own_new)

lemma send_full_keeps [presT_intros]: "presT Inv (send_full env c)"
  unfolding send_full_def
  by (intro presT_intros pipe_keeps set_keeps)
    (auto simp: permitted_def allowed_def forced_def send_args_def own_property_def has_prefix_def prefix_def)

lemma resume_keeps [presT_intros]: "presT Inv (resume_receive env c)"
  unfolding resume_receive_def
  by (intro presT_intros pipe_keeps do_keeps) (auto simp: permitted_def allowed_def allowed_args_def forced_def)

lemma mark_consistent_keeps: "presT Inv (mark_consistent env cons full)"
  unfolding mark_consistent_def
  by (intro presT_intros set_keeps) (auto simp: own_property_def has_prefix_def prefix_def)

lemma confirm_keeps [presT_intros]: "presT Inv (confirm env c)"
  unfolding confirm_def by (intro presT_intros)

lemma rotate_both_keeps [presT_intros]: "presT Inv (rotate_both env c)"
  unfolding rotate_both_def by (intro presT_intros rotate_keeps own_ds_both)

lemma block_keeps [presT_intros]: "presT Inv (block_rollback c base newest)"
  unfolding block_rollback_def by (intro presT_intros)

lemma finish_keeps [presT_intros]: "presT Inv (finish_cycle env c cons confs)"
  unfolding finish_cycle_def by (intro presT_intros mark_consistent_keeps)

end

text \<open>With the forced receive and the one-shot approval: the whole cycle.\<close>

locale zfs_inv_all = zfs_inv +
  assumes inv_forced: "Inv w \<Longrightarrow> permitted c cmd \<Longrightarrow> Inv (issue cmd w)"
    and inv_approve: "Inv w \<Longrightarrow> Inv (w\<lparr>zw_approve := a\<rparr>)"
begin

lemma pipe_all_keeps: "permitted c (Pipe s r) \<Longrightarrow> presT Inv (pipe_send_recv env s r)"
  by (auto simp: presT_def pres_def pipe_send_recv_def intro: inv_forced split: prod.split)

lemma drop_approval_keeps [presT_intros]: "presT Inv (drop_approval c')"
  by (rule presT_point) (auto simp: drop_approval_def inv_approve)

lemma send_from_base_keeps: "presT Inv (send_from_base env c base)"
  unfolding send_from_base_def
  by (intro presT_intros pipe_all_keeps) (auto simp: permitted_def allowed_def send_args_def)

lemma send_or_block_keeps [presT_intros]: "presT Inv (send_or_block env c base newest)"
  by (rule presT_point)
    (simp add: send_or_block_def presT_D [OF send_from_base_keeps] presT_D [OF block_keeps])

lemma send_inc_keeps [presT_intros]: "presT Inv (send_inc env c pl)"
  unfolding send_inc_def by (intro presT_intros)

lemma cycle_keeps: "presT Inv (cycle env c)"
  unfolding cycle_def cycle_body_def replicate_new_def by (intro presT_intros)

end

subsection \<open>The commands of a cycle\<close>

definition only_permitted :: "zcfg \<Rightarrow> zcmd list \<Rightarrow> zw \<Rightarrow> bool" where
  "only_permitted c L w \<longleftrightarrow> (\<exists>cs. zw_log w = L @ cs \<and> list_all (permitted c) cs)"

lemma only_permitted_start: "only_permitted c (zw_log w) w"
  by (auto simp: only_permitted_def)

interpretation footprint: zfs_inv_all c "only_permitted c L" for c L
  by unfold_locales (auto simp: only_permitted_def issue_def)

definition ex_zcfg :: zcfg where
  "ex_zcfg = \<lparr>zc_primary = ''tank/a'', zc_backup = ''tank/b'', zc_nr = ''1'', zc_prefix = ''sync_1_77_'',
     zc_versions = True, zc_keep_hours = 24, zc_keep_days = 30, zc_rollback_auto = False, zc_service = ''s1'',
     zc_freeze = [], zc_freeze_bin = [], zc_freeze_args = [], zc_recursive = False, zc_pve = False,
     zc_remote = [], zc_key = []\<rparr>"

definition ex_zw :: zw where
  "ex_zw = \<lparr>zw_log = [], zw_blocked = None, zw_approve = None, zw_status = [], zw_tried = [],
     zw_last_full = False, zw_seen = None, zw_inbox = []\<rparr>"

text \<open>Both sides hold \<open>n0\<close> with guid 11, the primary has changed, and everything succeeds.\<close>

definition ex_answer :: "nat \<Rightarrow> string" where
  "ex_answer i =
     (let tab = [CHR 0x09]; nl = [CHR 0x0A];
          a0 = ''tank/a@sync_1_77_n0'' @ tab @ ''11'' @ tab @ ''100'';
          a1 = ''tank/a@sync_1_77_new'' @ tab @ ''12'' @ tab @ ''200'';
          b0 = ''tank/b@sync_1_77_n0'' @ tab @ ''11'' @ tab @ ''100'';
          b1 = ''tank/b@sync_1_77_new'' @ tab @ ''12'' @ tab @ ''200''
      in if i = 0 \<or> i = 3 then a0 else if i = 2 \<or> i = 11 then b0 else if i = 4 then ''8192''
         else if i = 8 then ''-'' else if i = 9 then ''77'' else if i = 10 then ''1:77''
         else if i = 13 \<or> i = 15 \<or> i = 18 then a0 @ nl @ a1 else if i = 14 \<or> i = 19 then b0 @ nl @ b1 else [])"

definition ex_zenv :: zenv where
  "ex_zenv = \<lparr>ze_zfs = (\<lambda>i. (ex_answer i, True)), ze_pipe = (\<lambda>i. True), ze_tool = (\<lambda>i. ([], True)),
     ze_now = (\<lambda>i. 300), ze_mmdd = (\<lambda>t. ''0101''), ze_hh = (\<lambda>t. ''00''), ze_today = (\<lambda>i. ''20260101''),
     ze_minute = (\<lambda>i. 0), ze_hhmm = (\<lambda>s. None), ze_guests = (\<lambda>s. None), ze_conf = (\<lambda>k i. None),
     ze_order = (\<lambda>i m. m), ze_chunks = 8, ze_net_ok = (\<lambda>i. True), ze_stream = (\<lambda>i. ([[1, 2], [3]], True)),
     ze_sink = (\<lambda>i. (True, None, True)), ze_version = ''3'', ze_os = ''linux''\<rparr>"

subsection \<open>When a receive is forced\<close>

definition list_args :: "string \<Rightarrow> string list" where
  "list_args ds = [''list'', ''-H'', ''-p'', ''-t'', ''snapshot'', ''-d'', ''1'', ''-o'', ''name,guid,creation'',
     ''-s'', ''createtxg'', ds]"

text \<open>The snapshots of \<open>ds\<close> in the answer to the \<open>i\<close>-th command, if that was the question.\<close>

definition listed_at :: "zenv \<Rightarrow> zcfg \<Rightarrow> zcmd list \<Rightarrow> nat \<Rightarrow> string \<Rightarrow> zsnap list \<Rightarrow> bool" where
  "listed_at env c L i ds l \<longleftrightarrow>
     i < length L \<and> L ! i = Zfs (list_args ds) \<and> snd (ze_zfs env i) \<and>
     l = parse_snaps (zc_prefix c) (trim_space (fst (ze_zfs env i)))"

definition released :: "zenv \<Rightarrow> zcfg \<Rightarrow> zw \<Rightarrow> zcmd list \<Rightarrow> zcmd \<Rightarrow> bool" where
  "released env c w0 L cmd \<longleftrightarrow>
     (\<exists>i j pl bl base.
        length (zw_log w0) \<le> i \<and> i < j \<and> listed_at env c L i (zc_primary c) pl \<and> listed_at env c L j (zc_backup c) bl \<and>
        common_base pl bl = Some base \<and>
        cmd = Pipe (send_args c [''-i'', zs_full base, snap_name c (zc_primary c) ''new''])
                [''recv'', ''-s'', ''-F'', ''-u'', zc_backup c] \<and>
        (zs_guid base = zs_guid (last bl) \<or> zc_rollback_auto c \<or> approved c (zs_guid base) (zs_guid (last bl)) w0))"

definition only_released :: "zenv \<Rightarrow> zcfg \<Rightarrow> zw \<Rightarrow> zw \<Rightarrow> bool" where
  "only_released env c w0 w \<longleftrightarrow>
     prefix (zw_log w0) (zw_log w) \<and>
     (\<forall>k < length (zw_log w). length (zw_log w0) \<le> k \<longrightarrow> forced (zw_log w ! k) \<longrightarrow>
        released env c w0 (take k (zw_log w)) (zw_log w ! k))"

text \<open>Before that command: nothing forced, the approval as it was, and the commands \<open>L\<close> behind us.\<close>

definition unforced :: "zw \<Rightarrow> zcmd list \<Rightarrow> zw \<Rightarrow> bool" where
  "unforced w0 L w \<longleftrightarrow>
     (\<exists>cs. zw_log w = zw_log w0 @ cs \<and> list_all (\<lambda>x. \<not> forced x) cs) \<and> zw_approve w = zw_approve w0 \<and>
     prefix L (zw_log w)"

interpretation quiet: zfs_inv c "unforced w0 L" for c w0 L
  by unfold_locales (auto simp: unforced_def issue_def)

lemma only_released_issue:
  assumes "only_released env c w0 w" and "forced cmd \<Longrightarrow> released env c w0 (zw_log w) cmd"
  shows "only_released env c w0 (issue cmd w)"
  using assms by (auto simp: only_released_def issue_def nth_append less_Suc_eq prefix_def)

interpretation guarded: zfs_inv c "only_released env c' w0" for c env c' w0
  by unfold_locales (blast intro: only_released_issue, simp_all add: only_released_def)

lemma unforced_released: "unforced w0 L w \<Longrightarrow> only_released env c w0 w"
  by (auto simp: unforced_def only_released_def nth_append list_all_length split: if_splits)

lemma list_snaps_run:
  assumes "list_snaps env c ds w = (r, w')"
  shows "w' = issue (Zfs (list_args ds)) w"
    and "r = Inr l \<Longrightarrow> listed_at env c (zw_log w') (length (zw_log w)) ds l"
  using assms
  by (auto simp: list_snaps_def ztry_def zseq_def zret_def zfs_run_def listed_at_def list_args_def issue_def
      split: prod.splits if_splits)

lemma listed_at_later: "listed_at env c L i ds l \<Longrightarrow> prefix L L' \<Longrightarrow> listed_at env c L' i ds l"
  by (auto simp: listed_at_def prefix_def nth_append)

lemma drop_approval_released [presT_intros]: "presT (only_released env c w0) (drop_approval c')"
  by (rule presT_point) (auto simp: only_released_def drop_approval_def)

lemma send_from_base_released:
  assumes "only_released env c w0 w"
    and "released env c w0 (zw_log w) (Pipe (send_args c [''-i'', zs_full base, snap_name c (zc_primary c) ''new''])
             [''recv'', ''-s'', ''-F'', ''-u'', zc_backup c])"
  shows "only_released env c w0 (snd (send_from_base env c base w))"
proof -
  define p where "p = Pipe (send_args c [''-i'', zs_full base, snap_name c (zc_primary c) ''new''])
             [''recv'', ''-s'', ''-F'', ''-u'', zc_backup c]"
  define f where "f r = (case r of Inl e \<Rightarrow> zret (Inl (Some e))
        | Inr _ \<Rightarrow> zseq (if zc_recursive c then fix_tree env (zc_backup c) else zret ()) (\<lambda>_.
            zseq (drop_approval c) (\<lambda>_. zret (Inr ()))))" for r :: "zerr + unit"
  have 1: "only_released env c w0 (issue p w)"
    using assms by (auto intro: only_released_issue simp: p_def)
  have "presT (only_released env c w0) (f r)" for r
    unfolding f_def by (intro presT_intros)
  then have "only_released env c w0 (snd (f r (issue p w)))" for r
    using 1 by (rule presT_D)
  then show ?thesis
    by (simp add: send_from_base_def pipe_send_recv_def zseq_def p_def f_def)
qed

text \<open>A step from one condition on the state to another.\<close>

definition trip :: "(zw \<Rightarrow> bool) \<Rightarrow> 'a z \<Rightarrow> (zw \<Rightarrow> bool) \<Rightarrow> bool" where
  "trip P m Q \<longleftrightarrow> (\<forall>w. P w \<longrightarrow> Q (snd (m w)))"

lemma trip_pres: "presT P m \<Longrightarrow> trip P m P"
  by (simp add: trip_def presT_def pres_def)

lemma trip_weak: "trip P m Q \<Longrightarrow> (\<And>w. Q w \<Longrightarrow> R w) \<Longrightarrow> trip P m R"
  by (simp add: trip_def)

lemma trip_seq: "trip P m Q \<Longrightarrow> (\<And>x. trip Q (f x) R) \<Longrightarrow> trip P (zseq m f) R"
  by (fastforce simp: trip_def zseq_def split: prod.split)

lemma trip_keep: "presT P m \<Longrightarrow> (\<And>x. trip P (f x) R) \<Longrightarrow> trip P (zseq m f) R"
  by (rule trip_seq [OF trip_pres])

lemma trip_ret: "(\<And>w. P w \<Longrightarrow> Q w) \<Longrightarrow> trip P (zret x) Q"
  by (simp add: trip_def zret_def)

text \<open>Reading a snapshot list extends what is known of the log.\<close>

lemma trip_list:
  assumes "\<And>e L'. trip (unforced w0 L') (f (Inl e)) R"
    and "\<And>l n L'. listed_at env c L' n ds l \<Longrightarrow> length (zw_log w0) \<le> n \<Longrightarrow> length L \<le> n \<Longrightarrow> prefix L L' \<Longrightarrow>
           trip (unforced w0 L') (f (Inr l)) R"
  shows "trip (unforced w0 L) (zseq (list_snaps env c ds) f) R"
  unfolding trip_def
proof (intro allI impI)
  fix w assume w: "unforced w0 L w"
  obtain r w' where m: "list_snaps env c ds w = (r, w')"
    by (cases "list_snaps env c ds w")
  have "unforced w0 L w'"
    using presT_D [OF quiet.list_keeps w, of env c ds] m by simp
  then have w': "unforced w0 (zw_log w') w'"
    by (simp add: unforced_def)
  have len: "length (zw_log w0) \<le> length (zw_log w)" "length L \<le> length (zw_log w)" "prefix L (zw_log w')"
    using w \<open>unforced w0 L w'\<close> by (auto simp: unforced_def prefix_length_le)
  show "R (snd (zseq (list_snaps env c ds) f w))"
  proof (cases r)
    case (Inl e)
    then show ?thesis using assms(1) w' m by (simp add: zseq_def trip_def)
  next
    case (Inr l)
    then show ?thesis
      using assms(2) [OF list_snaps_run(2) [OF m Inr] len] w' m by (simp add: zseq_def trip_def)
  qed
qed

lemma send_or_block_released:
  assumes "listed_at env c L i (zc_primary c) pl" and "listed_at env c L j (zc_backup c) bl"
    and "length (zw_log w0) \<le> i" and "i < j" and "common_base pl bl = Some base"
  shows "trip (unforced w0 L) (send_or_block env c base (last bl)) (only_released env c w0)"
  unfolding trip_def
proof (intro allI impI)
  fix w assume w: "unforced w0 L w"
  have r: "only_released env c w0 w"
    using w by (rule unforced_released)
  have a: "approved c x y w \<longleftrightarrow> approved c x y w0" for x y
    using w by (simp add: unforced_def approved_def)
  have p: "prefix L (zw_log w)" using w by (simp add: unforced_def)
  show "only_released env c w0 (snd (send_or_block env c base (last bl) w))"
  proof (cases "zs_guid base \<noteq> zs_guid (last bl) \<and> \<not> zc_rollback_auto c \<and> \<not> approved c (zs_guid base) (zs_guid (last bl)) w")
    case True
    then show ?thesis using presT_D [OF guarded.block_keeps r] by (simp add: send_or_block_def)
  next
    case False
    then have "released env c w0 (zw_log w) (Pipe (send_args c [''-i'', zs_full base, snap_name c (zc_primary c) ''new''])
             [''recv'', ''-s'', ''-F'', ''-u'', zc_backup c])"
      unfolding released_def a using assms listed_at_later [OF _ p] by blast
    then show ?thesis
      using False send_from_base_released [OF r] by (auto simp: send_or_block_def)
  qed
qed

lemma trip_if: "trip P m R \<Longrightarrow> trip P n R \<Longrightarrow> trip P (if b then m else n) R"
  by simp

lemma choose_base_released:
  assumes "listed_at env c L i (zc_primary c) pl" and "length (zw_log w0) \<le> i"
    and "listed_at env c L' n (zc_backup c) bl" and "length L \<le> n" and "prefix L L'"
  shows "trip (unforced w0 L')
     (case common_base pl bl of None \<Rightarrow> zret (Inl (Some NoCommonBase)) | Some base \<Rightarrow> send_or_block env c base (last bl))
     (only_released env c w0)"
proof -
  have "i < n" using assms(1,4) by (simp add: listed_at_def)
  then show ?thesis
    using send_or_block_released [OF listed_at_later [OF assms(1,5)] assms(3,2)]
    by (auto intro: trip_ret unforced_released split: option.split)
qed

lemma send_inc_released:
  assumes "listed_at env c L i (zc_primary c) pl" and "length (zw_log w0) \<le> i"
  shows "trip (unforced w0 L) (send_inc env c pl) (only_released env c w0)"
  unfolding send_inc_def
  apply (rule trip_keep [OF quiet.resume_keeps], rule trip_keep [OF quiet.get_keeps],
    rule trip_keep [OF quiet.get_keeps], rule trip_if)
   apply (rule trip_ret, erule unforced_released)
  apply (rule trip_list; simp)
   apply (rule trip_ret, erule unforced_released)
  apply (rule choose_base_released [OF assms]; assumption)
  done

lemma send_full_quiet: "trip (unforced w0 L) (send_full env c) (only_released env c w0)"
  by (rule trip_weak [OF trip_pres [OF quiet.send_full_keeps] unforced_released])

lemma replicate_new_released:
  assumes "listed_at env c L i (zc_primary c) pl" and "length (zw_log w0) \<le> i"
  shows "trip (unforced w0 L) (replicate_new env c pl cons) (only_released env c w0)"
  unfolding replicate_new_def
  apply (rule trip_keep [OF quiet.confs_if_on_keeps], rule trip_keep [OF quiet.exists_keeps],
    rule trip_keep [OF quiet.last_full_keeps], rule trip_keep [OF quiet.exists_keeps])
  apply (rule trip_seq, rule trip_if, rule send_full_quiet, rule send_inc_released [OF assms])
  apply (rule trip_pres, intro presT_intros)
  done

lemma cycle_body_released:
  assumes "listed_at env c L i (zc_primary c) pl" and "length (zw_log w0) \<le> i"
  shows "trip (unforced w0 L) (cycle_body env c pl) (only_released env c w0)"
proof -
  have idle: "presT (unforced w0 L)
      (if find_slot pl ''n0'' \<noteq> None then zseq (changed env c) (\<lambda>b. zret (\<not> b)) else zret False)"
    by (intro presT_intros)
  have conf: "presT (unforced w0 L) (zseq (conf_only_local env c) (\<lambda>_. zret (False, None :: zerr option)))"
    by (intro presT_intros)
  show ?thesis
    unfolding cycle_body_def
    apply (rule trip_keep [OF idle], rule trip_if)
     apply (rule trip_weak [OF trip_pres [OF conf] unforced_released], assumption)
    apply (rule trip_keep [OF quiet.take_snapshot_keeps])
    subgoal for _ r
      using replicate_new_released [OF assms]
      by (auto intro!: trip_ret elim: unforced_released split: sum.split)
    done
qed

lemma cycle_released: "trip (unforced w0 (zw_log w0)) (cycle env c) (only_released env c w0)"
  unfolding cycle_def
  apply (rule trip_keep [OF quiet.recover_keeps])
  subgoal for r
    apply (cases r; simp)
     apply (rule trip_ret, erule unforced_released)
    apply (rule trip_list; simp)
     apply (rule trip_ret, erule unforced_released)
    by (rule cycle_body_released)
  done

text \<open>
  C17. A receive with \<open>-F\<close> rolls the backup back to the base of the stream. A cycle issues one only
  after it has listed the snapshots of the primary and then those of the backup, and the base is the
  newest snapshot of the primary that the backup holds; and this base is the newest snapshot of the
  backup, or rollbacks are automatic, or the frontend had released exactly this pair of guids before
  the cycle started. So no snapshot of the backup newer than the base is lost unasked.
\<close>

theorem forced_receive_released:
  assumes "k < length (zw_log (snd (cycle env c w)))" and "length (zw_log w) \<le> k"
    and "forced (zw_log (snd (cycle env c w)) ! k)"
  shows "released env c w (take k (zw_log (snd (cycle env c w)))) (zw_log (snd (cycle env c w)) ! k)"
proof -
  have "unforced w (zw_log w) w" by (simp add: unforced_def)
  then have "only_released env c w (snd (cycle env c w))"
    using cycle_released by (auto simp: trip_def)
  with assms show ?thesis by (simp add: only_released_def)
qed

lemma forced_receive_released_witness:
  "forced (zw_log (snd (cycle ex_zenv ex_zcfg ex_zw)) ! 12) \<and>
   released ex_zenv ex_zcfg ex_zw (take 12 (zw_log (snd (cycle ex_zenv ex_zcfg ex_zw))))
     (zw_log (snd (cycle ex_zenv ex_zcfg ex_zw)) ! 12)"
proof -
  have l: "length (zw_log (snd (cycle ex_zenv ex_zcfg ex_zw))) = 23"
    and f: "forced (zw_log (snd (cycle ex_zenv ex_zcfg ex_zw)) ! 12)" by code_simp+
  have "length (zw_log ex_zw) = 0" by (simp add: ex_zw_def)
  then show ?thesis using forced_receive_released [of 12 ex_zenv ex_zcfg ex_zw] l f by simp
qed

end
