(* ===== verification/Zfs_Net.thy ===== *)
theory Zfs_Net
  imports Zfs
begin

section \<open>ZFS replication over the network\<close>

text \<open>
  \<open>zfsnet.go\<close>: the cycle of the primary (\<open>cycleRemote\<close>) and the listener of the backup
  (\<open>zfsRecv.handle\<close>). Frames sent are part of the log; the frames the other end has sent wait in
  \<open>zw_inbox\<close>, any list, and reading past its end is a lost connection. \<open>Recv\<close> with its loop over
  pings needs no fuel: every frame read shortens the inbox, and the loops are bounded by its length
  (\<open>handle_fuel\<close>, \<open>take_chunks_fuel\<close>: one more step changes nothing).
\<close>

definition net_recv :: "zframe option z" where
  "net_recv w = (case zw_inbox w of [] \<Rightarrow> (None, w\<lparr>zw_inbox := tl (zw_inbox w)\<rparr>)
                 | f # fs \<Rightarrow> (Some f, w\<lparr>zw_inbox := tl (zw_inbox w)\<rparr>))"

definition net_send :: "zenv \<Rightarrow> zframe \<Rightarrow> (zerr + unit) z" where
  "net_send env f w = (if ze_net_ok env (length (zw_log w)) then Inr () else Inl NetFailed, issue (SendFrame f) w)"

definition net_tell :: "zenv \<Rightarrow> zframe \<Rightarrow> unit z" where
  "net_tell env f = zseq (net_send env f) (\<lambda>_. zret ())"

subsection \<open>The primary\<close>

definition zfs_dial :: "zenv \<Rightarrow> zcfg \<Rightarrow> (zerr + unit) z" where
  "zfs_dial env c =
     zseq net_recv (\<lambda>x. case x of
       Some (ZWelcome p) \<Rightarrow>
         if w_proto p \<noteq> proto_version then zret (Inl ProtoMismatch)
         else ztry (net_send env (ZWelcome \<lparr>w_proto = proto_version, w_version = ze_version env, w_os = ze_os env,
             w_acl_type = [], w_key = zc_key c\<rparr>)) (\<lambda>_.
           zseq net_recv (\<lambda>y. case y of
             Some (ZAck a) \<Rightarrow> if ack_ok a then zret (Inr ()) else zret (Inl (Refused (ack_err a)))
           | _ \<Rightarrow> zret (Inl BadFrame)))
     | _ \<Rightarrow> zret (Inl BadFrame))"

fun send_chunks :: "zenv \<Rightarrow> bytes list \<Rightarrow> (zerr + unit) z" where
  "send_chunks env [] w = zret (Inr ()) w"
| "send_chunks env (d # ds) w = ztry (net_send env (ZChunk d)) (\<lambda>_. send_chunks env ds) w"

definition stream_to :: "zenv \<Rightarrow> string list \<Rightarrow> (zerr + unit) z" where
  "stream_to env args w =
     (case ze_stream env (length (zw_log w)) of (ds, ok) \<Rightarrow>
        ztry (send_chunks env (filter (\<lambda>d. d \<noteq> []) ds)) (\<lambda>_.
          if ok then net_send env (ZChunk []) else zret (Inl StreamFailed)) (issue (Stream args) w))"

definition recv_done :: "(zerr + zfs_done) z" where
  "recv_done =
     zseq net_recv (\<lambda>x. case x of
       None \<Rightarrow> zret (Inl NetFailed)
     | Some f \<Rightarrow> (case f of ZDone d \<Rightarrow> zret (if zd_ok d then Inr d else Inl (BackupSaid (zd_err d))) | _ \<Rightarrow> zret (Inl BadFrame)))"

definition opt_err :: "zerr + 'a \<Rightarrow> zerr option" where
  "opt_err r = (case r of Inl e \<Rightarrow> Some e | Inr _ \<Rightarrow> None)"

definition hello_of :: "zcfg \<Rightarrow> string \<Rightarrow> zsnap list \<Rightarrow> zfs_hello" where
  "hello_of c g pl = \<lparr>zh_nr = zc_nr c, zh_fs_guid = g, zh_snaps = map (\<lambda>s. \<lparr>zr_slot = zs_slot s, zr_guid = zs_guid s\<rparr>) pl,
     zh_recursive = zc_recursive c, zh_conf_only = False, zh_conf = []\<rparr>"

definition conf_only_remote :: "zenv \<Rightarrow> zcfg \<Rightarrow> (zerr + unit) z" where
  "conf_only_remote env c =
     zseq (conf_delta env c) (\<lambda>d.
       if d = [] then zret (Inr ())
       else ztry (zfs_dial env c) (\<lambda>_.
            zseq (zfs_get env ''guid'' (zc_primary c)) (\<lambda>g.
            ztry (net_send env (ZHello \<lparr>zh_nr = zc_nr c, zh_fs_guid = g, zh_snaps = [], zh_recursive = zc_recursive c,
                zh_conf_only = True, zh_conf = d\<rparr>)) (\<lambda>_.
            ztry recv_done (\<lambda>_.
            zseq (apply_confs env (zc_primary c) d []) (\<lambda>_.
            zseq (conf_mark_seen d) (\<lambda>_. zret (Inr ()))))))))"

text \<open>After the transfer was confirmed: the properties, the own rotation, and the request to rotate.\<close>

definition remote_finish ::
  "zenv \<Rightarrow> zcfg \<Rightarrow> string \<Rightarrow> (string, string) amap \<Rightarrow> zsnap \<Rightarrow> (bool \<times> zerr option) z" where
  "remote_finish env c cons confs pn =
     zseq (mark_consistent env cons (zs_full pn)) (\<lambda>_.
     zseq (if confs \<noteq> [] then
             zseq (apply_confs env (zc_primary c) confs (zc_prefix c @ ''new'')) (\<lambda>_. conf_mark_seen confs)
           else zret ()) (\<lambda>_.
     zseq (rotate env c (zc_primary c) (zc_versions c)) (\<lambda>r. case r of
       Inl e \<Rightarrow> zret (True, Some e)
     | Inr _ \<Rightarrow>
         zseq (net_send env (ZRotate \<lparr>zt_app = (cons = ''app''), zt_consistent = cons, zt_conf = confs\<rparr>)) (\<lambda>r. case r of
           Inl e \<Rightarrow> zret (True, Some e)
         | Inr _ \<Rightarrow> zseq recv_done (\<lambda>r. zret (True, opt_err r))))))"

definition remote_confirm ::
  "zenv \<Rightarrow> zcfg \<Rightarrow> string \<Rightarrow> (string, string) amap \<Rightarrow> zfs_done \<Rightarrow> (bool \<times> zerr option) z" where
  "remote_confirm env c cons confs d =
     zseq (list_snaps env c (zc_primary c)) (\<lambda>r.
       case (case r of Inl e \<Rightarrow> None | Inr pl2 \<Rightarrow> find_slot pl2 ''new'') of
         None \<Rightarrow> fail_cycle env c (Some NotConfirmed)
       | Some pn \<Rightarrow>
           if zs_guid pn \<noteq> zd_new_guid d then fail_cycle env c (Some NotConfirmed)
           else remote_finish env c cons confs pn)"

definition remote_args :: "zcfg \<Rightarrow> zsnap list \<Rightarrow> zfs_plan \<Rightarrow> string list option" where
  "remote_args c pl plan =
     (let pnew = snap_name c (zc_primary c) ''new''
      in if zp_kind plan = ''inc'' then
           map_option (\<lambda>base. send_args c [''-i'', zs_full base, pnew]) (find (\<lambda>p. zs_guid p = zp_base plan) (rev pl))
         else Some (send_args c [pnew]))"

definition remote_transfer :: "zenv \<Rightarrow> zcfg \<Rightarrow> zsnap list \<Rightarrow> zfs_plan \<Rightarrow> string \<Rightarrow> (bool \<times> zerr option) z" where
  "remote_transfer env c pl plan cons =
     zseq (confs_if_on env c) (\<lambda>confs.
     zseq (set_last_full (zp_kind plan \<noteq> ''inc'')) (\<lambda>_.
     case remote_args c pl plan of
       None \<Rightarrow> fail_cycle env c (Some (UnknownBase (zp_base plan)))
     | Some args \<Rightarrow>
         zseq (stream_to env args) (\<lambda>r. case r of
           Inl e \<Rightarrow> fail_cycle env c (Some e)
         | Inr _ \<Rightarrow> zseq recv_done (\<lambda>r. case r of
             Inl e \<Rightarrow> fail_cycle env c (Some e)
           | Inr d \<Rightarrow> remote_confirm env c cons confs d))))"

definition remote_plan :: "zenv \<Rightarrow> zcfg \<Rightarrow> zsnap list \<Rightarrow> zfs_plan \<Rightarrow> (bool \<times> zerr option) z" where
  "remote_plan env c pl plan =
     (if zp_kind plan = ''error'' then zret (False, Some (BackupSaid (zp_msg plan)))
      else if zp_kind plan = ''blocked'' then zseq (set_status (''blocked: '' @ zp_msg plan)) (\<lambda>_. zret (False, None))
      else if zp_kind plan = ''rotate'' then
        zseq (rotate env c (zc_primary c) (zc_versions c)) (\<lambda>r. zret (False, opt_err r))
      else if zp_kind plan = ''resume'' then
        zseq (stream_to env [''send'', ''-t'', zp_token plan]) (\<lambda>r. case r of
          Inl e \<Rightarrow> zret (False, Some e)
        | Inr _ \<Rightarrow> zseq recv_done (\<lambda>r. zret (False, opt_err r)))
      else
        zseq (case find_slot pl ''new'' of None \<Rightarrow> zret () | Some pn \<Rightarrow> zseq (destroy_snap env c (zs_full pn)) (\<lambda>_. zret ()))
          (\<lambda>_. zseq (take_snapshot env c (snap_name c (zc_primary c) ''new'')) (\<lambda>r. case r of
             Inl e \<Rightarrow> zret (False, Some e)
           | Inr cons \<Rightarrow> remote_transfer env c pl plan cons)))"

definition remote_talk :: "zenv \<Rightarrow> zcfg \<Rightarrow> zsnap list \<Rightarrow> (bool \<times> zerr option) z" where
  "remote_talk env c pl =
     zseq (zfs_dial env c) (\<lambda>r. case r of
       Inl e \<Rightarrow> zret (False, Some e)
     | Inr _ \<Rightarrow>
         zseq (zfs_get env ''guid'' (zc_primary c)) (\<lambda>g.
         zseq (net_send env (ZHello (hello_of c g pl))) (\<lambda>r. case r of
           Inl e \<Rightarrow> zret (False, Some e)
         | Inr _ \<Rightarrow> zseq net_recv (\<lambda>x. case x of
             None \<Rightarrow> zret (False, Some BadFrame)
           | Some f \<Rightarrow> (case f of ZPlan plan \<Rightarrow> remote_plan env c pl plan | _ \<Rightarrow> zret (False, Some BadFrame))))))"

definition cycle_remote :: "zenv \<Rightarrow> zcfg \<Rightarrow> (bool \<times> zerr option) z" where
  "cycle_remote env c =
     zseq (list_snaps env c (zc_primary c)) (\<lambda>r. case r of
       Inl e \<Rightarrow> zret (False, Some e)
     | Inr pl \<Rightarrow>
         zseq (if find_slot pl ''n0'' \<noteq> None \<and> find_slot pl ''new'' = None
               then zseq (changed env c) (\<lambda>b. zret (\<not> b)) else zret False) (\<lambda>idle.
           if idle then zseq (conf_only_remote env c) (\<lambda>r. zret (False, opt_err r))
           else remote_talk env c pl))"

text \<open>\<open>cycle\<close> as the main loop calls it.\<close>

definition run_cycle :: "zenv \<Rightarrow> zcfg \<Rightarrow> (bool \<times> zerr option) z" where
  "run_cycle env c = (if zc_remote c \<noteq> [] then cycle_remote env c else cycle env c)"

subsection \<open>The backup\<close>

record zfs_recv =
  rr_dataset :: string
  rr_nr :: string
  rr_key :: string
  rr_service :: string
  rr_rollback_auto :: bool
  rr_keep_hours :: int
  rr_keep_days :: int

definition recv_cfg :: "zfs_recv \<Rightarrow> zfs_hello \<Rightarrow> zcfg" where
  "recv_cfg rv h = \<lparr>zc_primary = [], zc_backup = rr_dataset rv, zc_nr = zh_nr h,
     zc_prefix = ''sync_'' @ zh_nr h @ ''_'' @ zh_fs_guid h @ ''_'', zc_versions = False,
     zc_keep_hours = rr_keep_hours rv, zc_keep_days = rr_keep_days rv, zc_rollback_auto = rr_rollback_auto rv,
     zc_service = rr_service rv, zc_freeze = [], zc_freeze_bin = [], zc_freeze_args = [],
     zc_recursive = zh_recursive h, zc_pve = False, zc_remote = [], zc_key = []\<rparr>"

definition simple_plan :: "string \<Rightarrow> string \<Rightarrow> zfs_plan" where
  "simple_plan k m = \<lparr>zp_kind = k, zp_base = [], zp_token = [], zp_msg = m\<rparr>"

definition plan_error :: "string \<Rightarrow> zfs_plan z" where
  "plan_error m = zret (simple_plan ''error'' m)"

text \<open>The text of an error; what it says does not matter to the plan.\<close>

definition err_text :: "zerr \<Rightarrow> string" where
  "err_text e = (case e of ZfsFailed args \<Rightarrow> ''zfs '' @ join_with CHR '' '' args | NoNewSnapshot \<Rightarrow> ''no new snapshot'' | _ \<Rightarrow> ''error'')"

definition hello_base :: "zfs_hello \<Rightarrow> zsnap list \<Rightarrow> string" where
  "hello_base h bl =
     (case find (\<lambda>s. zr_slot s \<noteq> ''new'' \<and> zr_guid s \<in> set (map zs_guid bl)) (rev (zh_snaps h)) of
        None \<Rightarrow> [] | Some s \<Rightarrow> zr_guid s)"

definition choose_base :: "zcfg \<Rightarrow> zfs_hello \<Rightarrow> zsnap list \<Rightarrow> zfs_plan z" where
  "choose_base c h bl w =
     (if bl = [] then plan_error ''backup dataset has no sync snapshots (rebase needed)'' w
      else let base = hello_base h bl; newest = zs_guid (last bl)
      in if base = [] then plan_error ''no common base snapshot'' w
         else if base \<noteq> newest \<and> \<not> zc_rollback_auto c \<and> \<not> approved c base newest w then
           zseq (set_blocked c base newest) (\<lambda>_. zret (simple_plan ''blocked''
             ''rollback needed (newest snapshot on backup is newer than the common base) - approve in frontend'')) w
         else zret \<lparr>zp_kind = ''inc'', zp_base = base, zp_token = [], zp_msg = []\<rparr> w)"

text \<open>The slot the primary has for a guid: the last one of its list.\<close>

definition hello_slot :: "zfs_hello \<Rightarrow> string \<Rightarrow> string" where
  "hello_slot h g = (case find (\<lambda>s. zr_guid s = g) (rev (zh_snaps h)) of None \<Rightarrow> [] | Some s \<Rightarrow> zr_slot s)"

definition relist_and_choose :: "zenv \<Rightarrow> zcfg \<Rightarrow> zfs_hello \<Rightarrow> zfs_plan z" where
  "relist_and_choose env c h =
     zseq (list_snaps env c (zc_backup c)) (\<lambda>r. case r of
       Inl e \<Rightarrow> plan_error (err_text e) | Inr bl \<Rightarrow> choose_base c h bl)"

definition settle_new :: "zenv \<Rightarrow> zcfg \<Rightarrow> zfs_hello \<Rightarrow> zsnap \<Rightarrow> zfs_plan z" where
  "settle_new env c h bn =
     (if hello_slot h (zs_guid bn) = ''new'' then
        zseq (rotate env c (zc_backup c) True) (\<lambda>r. case r of
          Inl e \<Rightarrow> plan_error (err_text e) | Inr _ \<Rightarrow> zret (simple_plan ''rotate'' []))
      else if hello_slot h (zs_guid bn) = ''n0'' then
        zseq (rotate env c (zc_backup c) True) (\<lambda>r. case r of
          Inl e \<Rightarrow> plan_error (err_text e) | Inr _ \<Rightarrow> relist_and_choose env c h)
      else zseq (destroy_snap env c (zs_full bn)) (\<lambda>_. relist_and_choose env c h))"

definition plan_from_snaps :: "zenv \<Rightarrow> zcfg \<Rightarrow> zfs_hello \<Rightarrow> zfs_plan z" where
  "plan_from_snaps env c h =
     zseq (list_snaps env c (zc_backup c)) (\<lambda>r. case r of
       Inl e \<Rightarrow> plan_error (err_text e)
     | Inr bl \<Rightarrow> (case find_slot bl ''new'' of None \<Rightarrow> choose_base c h bl | Some bn \<Rightarrow> settle_new env c h bn))"

definition plan_backup :: "zenv \<Rightarrow> zcfg \<Rightarrow> zfs_hello \<Rightarrow> zfs_plan z" where
  "plan_backup env c h =
     zseq (zfs_exists env (zc_backup c)) (\<lambda>ex.
       if \<not> ex then zret (simple_plan ''full'' [])
       else zseq (zfs_get env ''cs:sync'' (zc_backup c)) (\<lambda>have.
         if have \<noteq> zh_nr h @ '':'' @ zh_fs_guid h then plan_error (''cs:sync='' @ have)
         else zseq (zfs_get env ''receive_resume_token'' (zc_backup c)) (\<lambda>tok.
           if tok \<noteq> [] \<and> tok \<noteq> ''-'' \<and> \<not> zc_recursive c then
             zret \<lparr>zp_kind = ''resume'', zp_base = [], zp_token = tok, zp_msg = []\<rparr>
           else zseq (if tok \<noteq> [] \<and> tok \<noteq> ''-'' then zdo env [''recv'', ''-A'', zc_backup c] else zret ())
             (\<lambda>_. plan_from_snaps env c h))))"

text \<open>
  The chunks of a stream up to the empty one or a write that fails; \<open>False\<close> if the connection was
  lost or another frame came. \<open>n\<close> bounds the frames read.
\<close>

fun take_chunks :: "nat option \<Rightarrow> nat \<Rightarrow> bytes list \<Rightarrow> (bool \<times> bytes list) z" where
  "take_chunks bad 0 acc w = zret (False, acc) w"
| "take_chunks bad (Suc n) acc w =
     zseq net_recv (\<lambda>x. case x of
       Some (ZChunk d) \<Rightarrow>
         if d = [] \<or> bad = Some (length acc) then zret (True, acc) else take_chunks bad n (acc @ [d])
     | _ \<Rightarrow> zret (False, acc)) w"

definition after_receive :: "zenv \<Rightarrow> zfs_recv \<Rightarrow> zcfg \<Rightarrow> zfs_hello \<Rightarrow> zfs_plan \<Rightarrow> unit z" where
  "after_receive env rv c h plan =
     zseq (if zp_kind plan = ''full'' then
             zseq (zdo env [''set'', ''readonly=on'', zc_backup c]) (\<lambda>_.
             zseq (zdo env [''set'', ''canmount=noauto'', zc_backup c]) (\<lambda>_.
             zdo env [''set'', ''cs:sync='' @ zh_nr h @ '':'' @ zh_fs_guid h, zc_backup c]))
           else zret ()) (\<lambda>_.
     zseq (if zc_recursive c then fix_tree env (zc_backup c) else zret ()) (\<lambda>_.
     zseq (if zp_kind plan = ''inc'' then drop_approval c else zret ()) (\<lambda>_.
     zseq (list_snaps env c (zc_backup c)) (\<lambda>r.
     net_tell env (ZDone \<lparr>zd_ok = True, zd_err = [],
       zd_new_guid = (case r of Inl e \<Rightarrow> [] | Inr bl \<Rightarrow> (case find_slot bl ''new'' of None \<Rightarrow> [] | Some bn \<Rightarrow> zs_guid bn))\<rparr>)))))"

definition sink_done :: "string list \<Rightarrow> bytes list \<Rightarrow> unit z" where
  "sink_done args ds w = ((), issue (Sink args ds) w)"

definition failed_done :: "string \<Rightarrow> zframe" where
  "failed_done e = ZDone \<lparr>zd_ok = False, zd_err = e, zd_new_guid = []\<rparr>"

definition sink_args :: "zcfg \<Rightarrow> zfs_plan \<Rightarrow> string list" where
  "sink_args c plan =
     (if zp_kind plan = ''inc'' then [''recv'', ''-s'', ''-F'', ''-u'', zc_backup c] else [''recv'', ''-s'', ''-u'', zc_backup c])"

definition finish_receive :: "zenv \<Rightarrow> zfs_recv \<Rightarrow> zcfg \<Rightarrow> zfs_hello \<Rightarrow> zfs_plan \<Rightarrow> bool \<Rightarrow> bool \<times> bytes list \<Rightarrow> unit z" where
  "finish_receive env rv c h plan ok r =
     zseq (sink_done (sink_args c plan) (snd r)) (\<lambda>_.
       if \<not> fst r then zret ()
       else if ok then after_receive env rv c h plan
       else net_tell env (failed_done ''zfs recv''))"

definition receive_stream :: "zenv \<Rightarrow> zfs_recv \<Rightarrow> zcfg \<Rightarrow> zfs_hello \<Rightarrow> zfs_plan \<Rightarrow> unit z" where
  "receive_stream env rv c h plan w =
     (case ze_sink env (length (zw_log w)) of (started, bad, ok) \<Rightarrow>
        if \<not> started then net_tell env (failed_done ''start'') w
        else zseq (take_chunks bad (Suc (length (zw_inbox w))) []) (finish_receive env rv c h plan ok) w)"

text \<open>
  \<open>hello\<close> is declared outside the loop, and \<open>gob\<close> leaves a field alone that the message does not
  carry, that is one with the zero value, and adds to a map. (References to snapshots are taken
  whole: within one the same would hold for an empty slot or guid.)
\<close>

definition decode_hello :: "zfs_hello \<Rightarrow> zfs_hello \<Rightarrow> zfs_hello" where
  "decode_hello old new =
     \<lparr>zh_nr = (if zh_nr new = [] then zh_nr old else zh_nr new),
      zh_fs_guid = (if zh_fs_guid new = [] then zh_fs_guid old else zh_fs_guid new),
      zh_snaps = (if zh_snaps new = [] then zh_snaps old else zh_snaps new),
      zh_recursive = (zh_recursive old \<or> zh_recursive new),
      zh_conf_only = (zh_conf_only old \<or> zh_conf_only new),
      zh_conf = fold (\<lambda>(k, v). AList.update k v) (zh_conf new) (zh_conf old)\<rparr>"

definition handle_conf_only :: "zenv \<Rightarrow> zfs_recv \<Rightarrow> zfs_hello \<Rightarrow> unit z" where
  "handle_conf_only env rv h =
     (if zh_nr h \<noteq> rr_nr rv then net_tell env (failed_done ''nr mismatch'')
      else zseq (zfs_exists env (zc_backup (recv_cfg rv h))) (\<lambda>ex.
        if \<not> ex then net_tell env (failed_done ''backup dataset does not exist yet'')
        else zseq (apply_confs env (zc_backup (recv_cfg rv h)) (zh_conf h) []) (\<lambda>_.
             net_tell env (ZDone \<lparr>zd_ok = True, zd_err = [], zd_new_guid = []\<rparr>))))"

definition follow_plan :: "zenv \<Rightarrow> zfs_recv \<Rightarrow> zcfg \<Rightarrow> zfs_hello \<Rightarrow> zfs_plan \<Rightarrow> unit z" where
  "follow_plan env rv c h plan =
     (if zp_kind plan \<in> {''full'', ''inc'', ''resume''} then receive_stream env rv c h plan
      else if zp_kind plan = ''blocked'' then set_status (''blocked: '' @ zp_msg plan)
      else if zp_kind plan = ''error'' then set_status (''error: '' @ zp_msg plan)
      else zret ())"

definition handle_hello :: "zenv \<Rightarrow> zfs_recv \<Rightarrow> zfs_hello \<Rightarrow> unit z" where
  "handle_hello env rv h =
     (let c = recv_cfg rv h
      in zseq (plan_backup env c h) (\<lambda>plan.
         zseq (net_tell env (ZPlan plan)) (\<lambda>_. follow_plan env rv c h plan)))"

definition refuse_nr :: "zenv \<Rightarrow> zfs_recv \<Rightarrow> zfs_hello \<Rightarrow> unit z" where
  "refuse_nr env rv h =
     (let plan = simple_plan ''error'' (''nr mismatch: primary '' @ zh_nr h @ '', backup service '' @ rr_nr rv)
      in zseq (net_tell env (ZPlan plan)) (\<lambda>_. set_status (''error: '' @ zp_msg plan)))"

definition handle_rotate :: "zenv \<Rightarrow> zcfg option \<Rightarrow> zfs_rotate \<Rightarrow> unit z" where
  "handle_rotate env cur r =
     (case cur of
        None \<Rightarrow> net_tell env (failed_done ''rotate without hello'')
      | Some c \<Rightarrow>
          zseq (list_snaps env c (zc_backup c)) (\<lambda>l.
            case (case l of Inl e \<Rightarrow> None | Inr bl \<Rightarrow> find_slot bl ''new'') of
              None \<Rightarrow> net_tell env (failed_done ''no new snapshot to rotate'')
            | Some bn \<Rightarrow>
                zseq (mark_consistent env (if zt_consistent r = [] \<and> zt_app r then ''app'' else zt_consistent r) (zs_full bn)) (\<lambda>_.
                zseq (if zt_conf r \<noteq> [] then apply_confs env (zc_backup c) (zt_conf r) (zc_prefix c @ ''new'') else zret ()) (\<lambda>_.
                zseq (rotate env c (zc_backup c) True) (\<lambda>x. case x of
                  Inl e \<Rightarrow> net_tell env (failed_done (err_text e))
                | Inr _ \<Rightarrow> zseq (set_status ''ok'') (\<lambda>_.
                    net_tell env (ZDone \<lparr>zd_ok = True, zd_err = [], zd_new_guid = []\<rparr>)))))))"

definition no_rotate :: zfs_rotate where
  "no_rotate = \<lparr>zt_app = False, zt_consistent = [], zt_conf = []\<rparr>"

definition no_hello :: zfs_hello where
  "no_hello = \<lparr>zh_nr = [], zh_fs_guid = [], zh_snaps = [], zh_recursive = False, zh_conf_only = False, zh_conf = []\<rparr>"

fun handle_loop :: "zenv \<Rightarrow> zfs_recv \<Rightarrow> nat \<Rightarrow> zcfg option \<Rightarrow> zfs_hello \<Rightarrow> unit z" where
  "handle_loop env rv 0 cur h w = zret () w"
| "handle_loop env rv (Suc n) cur h w =
     zseq net_recv (\<lambda>x. case x of
       None \<Rightarrow> zret ()
     | Some f \<Rightarrow> (case f of
         ZPing \<Rightarrow> zseq (net_tell env (ZAck (mk_ack True []))) (\<lambda>_. handle_loop env rv n cur h)
       | ZHello m \<Rightarrow>
           (let h' = decode_hello h m
            in if zh_conf_only h' then zseq (handle_conf_only env rv h') (\<lambda>_. handle_loop env rv n cur h')
               else if zh_nr h' \<noteq> rr_nr rv then zseq (refuse_nr env rv h') (\<lambda>_. handle_loop env rv n cur h')
               else zseq (handle_hello env rv h') (\<lambda>_. handle_loop env rv n (Some (recv_cfg rv h')) h'))
       | ZRotate r \<Rightarrow> zseq (handle_rotate env cur r) (\<lambda>_. handle_loop env rv n cur h)
       | ZUndecodable t \<Rightarrow>
           if t = zfs_frame_code TZfsHello then zret ()
           else if t = zfs_frame_code TZfsRotate then zseq (handle_rotate env cur no_rotate) (\<lambda>_. handle_loop env rv n cur h)
           else handle_loop env rv n cur h
       | _ \<Rightarrow> handle_loop env rv n cur h)) w"

definition zfs_handle :: "zenv \<Rightarrow> zfs_recv \<Rightarrow> unit z" where
  "zfs_handle env rv =
     zseq (net_send env (ZWelcome \<lparr>w_proto = proto_version, w_version = ze_version env, w_os = ze_os env,
         w_acl_type = [], w_key = []\<rparr>)) (\<lambda>r. case r of
       Inl e \<Rightarrow> zret ()
     | Inr _ \<Rightarrow> zseq net_recv (\<lambda>x. case x of
         Some (ZWelcome m) \<Rightarrow>
           if w_proto m \<noteq> proto_version \<or> w_key m \<noteq> rr_key rv then
             net_tell env (ZAck (mk_ack False ''protocol version or transfer key mismatch''))
           else zseq (net_tell env (ZAck (mk_ack True []))) (\<lambda>_ w.
             handle_loop env rv (Suc (length (zw_inbox w))) None no_hello w)
       | _ \<Rightarrow> zret ()))"

end
