(* ===== verification/Zfs_Net_Correct.thy ===== *)
theory Zfs_Net_Correct
  imports Zfs_Correct Zfs_Net
begin

section \<open>What the two ends of a LAN pair may do\<close>

text \<open>
  The invariants of \<open>zfs_inv_all\<close> extend to the operations that talk to the other end, so the list
  of allowed commands holds for the remote cycle and for the listener, whatever frames arrive. The
  plan of the backup is released like the forced receive of the local cycle, and a peer that does
  not know the key starts no command.
\<close>

lemma presT_frame [presT_intros]:
  assumes "\<And>m. f = ZWelcome m \<Longrightarrow> presT Inv (a m)" "\<And>m. f = ZAck m \<Longrightarrow> presT Inv (b m)" "f = ZPing \<Longrightarrow> presT Inv p"
    "\<And>m. f = ZHello m \<Longrightarrow> presT Inv (h m)" "\<And>m. f = ZPlan m \<Longrightarrow> presT Inv (q m)" "\<And>m. f = ZChunk m \<Longrightarrow> presT Inv (k m)"
    "\<And>m. f = ZDone m \<Longrightarrow> presT Inv (d m)" "\<And>m. f = ZRotate m \<Longrightarrow> presT Inv (r m)"
    "\<And>m. f = ZUndecodable m \<Longrightarrow> presT Inv (u m)" "\<And>m. f = ZOther m \<Longrightarrow> presT Inv (t m)"
  shows "presT Inv (case f of ZWelcome m \<Rightarrow> a m | ZAck m \<Rightarrow> b m | ZPing \<Rightarrow> p | ZHello m \<Rightarrow> h m | ZPlan m \<Rightarrow> q m
    | ZChunk m \<Rightarrow> k m | ZDone m \<Rightarrow> d m | ZRotate m \<Rightarrow> r m | ZUndecodable m \<Rightarrow> u m | ZOther m \<Rightarrow> t m)"
  using assms by (cases f) auto

context zfs_inv
begin

lemma recv_keeps [presT_intros]: "presT Inv net_recv"
proof (rule presT_point)
  fix w assume "Inv w"
  then have "Inv (w\<lparr>zw_inbox := tl (zw_inbox w)\<rparr>)" by (rule inv_inbox)
  then show "Inv (snd (net_recv w))" by (cases "zw_inbox w") (simp_all add: net_recv_def)
qed

lemma send_keeps [presT_intros]: "presT Inv (net_send env f)"
  by (rule presT_point) (simp add: net_send_def inv_issue permitted_def allowed_def forced_def)

lemma tell_keeps [presT_intros]: "presT Inv (net_tell env f)"
  unfolding net_tell_def by (intro presT_intros)

lemma zfs_dial_keeps [presT_intros]: "presT Inv (zfs_dial env c')"
  unfolding zfs_dial_def by (intro presT_intros)

lemma send_chunks_keeps: "presT Inv (send_chunks env ds)"
proof (induction ds)
  case Nil
  show ?case by (rule presT_cong [OF send_chunks.simps(1)]) (rule presT_ret)
next
  case (Cons d ds)
  show ?case by (rule presT_cong [OF send_chunks.simps(2)]) (intro presT_intros Cons)
qed

lemma stream_keeps:
  assumes "args \<noteq> []" "hd args = ''send''"
  shows "presT Inv (stream_to env args)"
proof (rule presT_point)
  fix w assume "Inv w"
  then have w: "Inv (issue (Stream args) w)"
    using assms by (intro inv_issue) (auto simp: permitted_def allowed_def forced_def)
  obtain ds ok where st: "ze_stream env (length (zw_log w)) = (ds, ok)"
    by (cases "ze_stream env (length (zw_log w))")
  have "presT Inv (ztry (send_chunks env (filter (\<lambda>d. d \<noteq> []) ds))
     (\<lambda>_. if ok then net_send env (ZChunk []) else zret (Inl StreamFailed)))"
    by (intro presT_intros send_chunks_keeps)
  then show "Inv (snd (stream_to env args w))"
    using w by (simp only: stream_to_def st prod.case presT_D)
qed

lemma done_keeps [presT_intros]: "presT Inv recv_done"
  unfolding recv_done_def by (intro presT_intros)

lemma conf_remote_keeps [presT_intros]: "presT Inv (conf_only_remote env c')"
  unfolding conf_only_remote_def by (intro presT_intros)

lemma remote_finish_keeps [presT_intros]: "presT Inv (remote_finish env c cons confs pn)"
  unfolding remote_finish_def by (intro presT_intros mark_consistent_keeps rotate_keeps own_ds_both)

lemma remote_confirm_keeps [presT_intros]: "presT Inv (remote_confirm env c cons confs d)"
  unfolding remote_confirm_def by (intro presT_intros)

lemma remote_args_send: "remote_args c pl plan = Some args \<Longrightarrow> args \<noteq> [] \<and> hd args = ''send''"
  by (auto simp: remote_args_def send_args_def Let_def split: if_splits)

lemma remote_transfer_keeps [presT_intros]: "presT Inv (remote_transfer env c pl plan cons)"
  unfolding remote_transfer_def by (intro presT_intros stream_keeps) (auto dest: remote_args_send)

lemma remote_plan_keeps: "\<forall>s\<in>set pl. own_snap c (zs_full s) \<Longrightarrow> presT Inv (remote_plan env c pl plan)"
  unfolding remote_plan_def
  by (intro presT_intros stream_keeps rotate_keeps own_ds_both destroy_keeps) (auto dest: find_slot_own)

lemma remote_talk_keeps: "\<forall>s\<in>set pl. own_snap c (zs_full s) \<Longrightarrow> presT Inv (remote_talk env c pl)"
  unfolding remote_talk_def by (intro presT_intros remote_plan_keeps)

lemma cycle_remote_keeps: "presT Inv (cycle_remote env c)"
  unfolding cycle_remote_def
proof (rule presT_seq_with [OF list_own])
  fix r :: "zerr + zsnap list"
  assume "\<forall>l. r = Inr l \<longrightarrow> (\<forall>s\<in>set l. own_snap c (zs_full s))"
  then show "presT Inv (case r of Inl e \<Rightarrow> zret (False, Some e)
     | Inr pl \<Rightarrow> zseq (if find_slot pl ''n0'' \<noteq> None \<and> find_slot pl ''new'' = None
               then zseq (changed env c) (\<lambda>b. zret (\<not> b)) else zret False) (\<lambda>idle.
           if idle then zseq (conf_only_remote env c) (\<lambda>r. zret (False, opt_err r))
           else remote_talk env c pl))"
    by (intro presT_intros remote_talk_keeps) auto
qed

end

context zfs_inv
begin

lemma plan_error_keeps [presT_intros]: "presT Inv (plan_error m)"
  unfolding plan_error_def by (intro presT_intros)

lemma choose_base_keeps [presT_intros]: "presT Inv (choose_base c' h bl)"
proof (rule presT_point)
  fix w assume w: "Inv w"
  have b: "presT Inv (zseq (set_blocked c' x y) (\<lambda>_. zret (p :: zfs_plan)))" for x y p
    by (intro presT_intros)
  show "Inv (snd (choose_base c' h bl w))"
    using w presT_D [OF b w] presT_D [OF plan_error_keeps w] by (simp add: choose_base_def Let_def zret_def)
qed

lemma relist_keeps [presT_intros]: "presT Inv (relist_and_choose env c' h)"
  unfolding relist_and_choose_def by (intro presT_intros)

lemma settle_keeps: "own_snap c (zs_full bn) \<Longrightarrow> presT Inv (settle_new env c h bn)"
  unfolding settle_new_def by (intro presT_intros rotate_keeps own_ds_both destroy_keeps)

lemma plan_from_snaps_keeps [presT_intros]: "presT Inv (plan_from_snaps env c h)"
  unfolding plan_from_snaps_def
proof (rule presT_seq_with [OF list_own])
  fix r :: "zerr + zsnap list"
  assume "\<forall>l. r = Inr l \<longrightarrow> (\<forall>s\<in>set l. own_snap c (zs_full s))"
  then show "presT Inv (case r of Inl e \<Rightarrow> plan_error (err_text e)
     | Inr bl \<Rightarrow> (case find_slot bl ''new'' of None \<Rightarrow> choose_base c h bl | Some bn \<Rightarrow> settle_new env c h bn))"
    by (intro presT_intros settle_keeps) (auto dest: find_slot_own)
qed

lemma plan_keeps [presT_intros]: "presT Inv (plan_backup env c h)"
  unfolding plan_backup_def
  by (intro presT_intros do_keeps) (simp add: permitted_def allowed_def allowed_args_def)

lemma take_chunks_keeps: "presT Inv (take_chunks bad n acc)"
proof (induction n arbitrary: acc)
  case 0
  show ?case by (rule presT_cong [OF take_chunks.simps(1)]) (rule presT_ret)
next
  case (Suc n)
  show ?case by (rule presT_cong [OF take_chunks.simps(2)]) (intro presT_intros Suc)
qed

lemma conf_handler_keeps [presT_intros]: "presT Inv (handle_conf_only env rv h)"
  unfolding handle_conf_only_def by (intro presT_intros)

lemma refuse_keeps [presT_intros]: "presT Inv (refuse_nr env rv h)"
  unfolding refuse_nr_def Let_def by (intro presT_intros)

lemma rotate_none_keeps [presT_intros]: "presT Inv (handle_rotate env None r)"
  unfolding handle_rotate_def option.case by (intro presT_intros)

lemma rotate_some_keeps: "presT Inv (handle_rotate env (Some c) r)"
  unfolding handle_rotate_def option.case by (intro presT_intros mark_consistent_keeps rotate_keeps own_ds_both)

end

context zfs_inv_all
begin

lemma run_cycle_keeps: "presT Inv (run_cycle env c)"
  unfolding run_cycle_def by (intro presT_intros cycle_keeps cycle_remote_keeps)

lemma after_receive_keeps [presT_intros]: "presT Inv (after_receive env rv c h plan)"
  unfolding after_receive_def
  by (intro presT_intros set_keeps) (auto simp: own_property_def has_prefix_def prefix_def)

lemma finish_receive_keeps: "presT Inv (finish_receive env rv c h plan ok r)"
proof -
  have "presT Inv (sink_done (sink_args c plan) ds)" for ds
    by (rule presT_point) (auto simp: sink_done_def sink_args_def permitted_def allowed_def intro!: inv_forced)
  then show ?thesis unfolding finish_receive_def by (intro presT_intros)
qed

lemma receive_keeps [presT_intros]: "presT Inv (receive_stream env rv c h plan)"
proof (rule presT_point)
  fix w assume w: "Inv w"
  obtain started bad ok where k: "ze_sink env (length (zw_log w)) = (started, bad, ok)"
    using prod_cases3 by blast
  have "presT Inv (zseq (take_chunks bad (Suc (length (zw_inbox w))) []) (finish_receive env rv c h plan ok))"
    by (intro presT_intros take_chunks_keeps finish_receive_keeps)
  from presT_D [OF this w] show "Inv (snd (receive_stream env rv c h plan w))"
    using presT_D [OF tell_keeps w] by (simp add: receive_stream_def k)
qed

lemma follow_keeps [presT_intros]: "presT Inv (follow_plan env rv c h plan)"
  unfolding follow_plan_def by (intro presT_intros)

lemma hello_keeps: "c = recv_cfg rv h \<Longrightarrow> presT Inv (handle_hello env rv h)"
  unfolding handle_hello_def Let_def by (erule subst, intro presT_intros)

end

subsection \<open>The commands of a cycle\<close>

text \<open>
  Whatever \<open>zfs\<close> answers, a cycle, local or of a LAN pair, with legal dataset names only issues commands of
  the list \<open>allowed\<close>: it lists and reads; it destroys and renames snapshots that carry the prefix of
  the service, the renamed ones on its own two datasets and within one dataset; it takes its own
  snapshot; it sets \<open>readonly=on\<close>, \<open>canmount=noauto\<close> and properties in its own \<open>cs:\<close>
  namespace; it receives into its backup and sends
  frames. No dataset is ever destroyed.
\<close>

theorem run_cycle_footprint:
  assumes "plain_names c"
  shows "\<exists>cs. zw_log (snd (run_cycle env c w)) = zw_log w @ cs \<and> list_all (allowed c) cs"
proof -
  obtain cs where "zw_log (snd (run_cycle env c w)) = zw_log w @ cs" and "list_all (permitted c) cs"
    using presT_D [OF footprint.run_cycle_keeps only_permitted_start] unfolding only_permitted_def by blast
  then show ?thesis
    using assms by (auto simp: permitted_def list_all_iff)
qed

lemma run_cycle_footprint_witness:
  "plain_names ex_zcfg \<and>
   (\<exists>cs. zw_log (snd (run_cycle ex_zenv ex_zcfg ex_zw)) = zw_log ex_zw @ cs \<and> list_all (allowed ex_zcfg) cs)"
proof -
  have "plain_names ex_zcfg" by code_simp
  then show ?thesis using run_cycle_footprint by blast
qed

subsection \<open>The loops end with the inbox\<close>

declare take_chunks.simps [simp del] handle_loop.simps [simp del]

lemma take_chunks_fuel: "length (zw_inbox w) < n \<Longrightarrow> take_chunks bad (Suc n) acc w = take_chunks bad n acc w"
proof (induction n arbitrary: acc w)
  case 0
  then show ?case by simp
next
  case (Suc n)
  show ?case
  proof (cases "zw_inbox w")
    case Nil
    then show ?thesis by (simp add: take_chunks.simps(2) zseq_def net_recv_def)
  next
    case (Cons f fs)
    then have "length (zw_inbox (w\<lparr>zw_inbox := fs\<rparr>)) < n" using Suc.prems by simp
    from Suc.IH [OF this] show ?thesis
      unfolding take_chunks.simps(2) [of bad "Suc n"] take_chunks.simps(2) [of bad n acc w]
      using Cons by (cases f) (simp_all add: zseq_def net_recv_def)
  qed
qed

interpretation inbox: zfs_inv_all c "\<lambda>w. length (zw_inbox w) \<le> k" for c k
  by unfold_locales (auto simp: issue_def)

lemma zseq_cong: "m w = n w \<Longrightarrow> (\<And>x w'. m w = (x, w') \<Longrightarrow> f x w' = g x w') \<Longrightarrow> zseq m f w = zseq n g w"
  by (simp add: zseq_def split: prod.split)

lemma handler_fuel:
  assumes "presT (\<lambda>w. length (zw_inbox w) \<le> k) m" and "length (zw_inbox w) \<le> k"
    and "\<And>w'. length (zw_inbox w') \<le> k \<Longrightarrow> f w' = g w'"
  shows "zseq m (\<lambda>_. f) w = zseq m (\<lambda>_. g) w"
proof (rule zseq_cong [OF refl])
  fix x w' assume "m w = (x, w')"
  then show "f w' = g w'" using presT_D [OF assms(1,2)] assms(3) by simp
qed

lemma handle_fuel: "length (zw_inbox w) < n \<Longrightarrow> handle_loop env rv (Suc n) cur h w = handle_loop env rv n cur h w"
proof (induction n arbitrary: cur h w)
  case 0
  then show ?case by simp
next
  case (Suc n)
  show ?case
  proof (cases "zw_inbox w")
    case Nil
    then show ?thesis by (simp add: handle_loop.simps(2) zseq_def net_recv_def)
  next
    case (Cons f fs)
    define w1 where "w1 = w\<lparr>zw_inbox := fs\<rparr>"
    have r: "net_recv w = (Some f, w1)" using Cons by (simp add: net_recv_def w1_def)
    have l: "length (zw_inbox w1) < n" using Cons Suc.prems by (simp add: w1_def)
    have step: "zseq m (\<lambda>_. handle_loop env rv (Suc n) cur h) w1 = zseq m (\<lambda>_. handle_loop env rv n cur h) w1"
      if "\<And>k. presT (\<lambda>w. length (zw_inbox w) \<le> k) m" for m :: "unit z" and cur h
      by (rule handler_fuel [OF that order_refl]) (use l Suc.IH in simp)
    have cur: "presT (\<lambda>w. length (zw_inbox w) \<le> k) (handle_rotate env cur r)" for k cur r
      by (cases cur) (auto intro: inbox.rotate_none_keeps inbox.rotate_some_keeps)
    note steps = step [OF inbox.tell_keeps] step [OF inbox.conf_handler_keeps] step [OF inbox.refuse_keeps]
      step [OF inbox.hello_keeps [OF refl]] step [OF cur]
    show ?thesis
      unfolding handle_loop.simps(2) [of env rv "Suc n"] handle_loop.simps(2) [of env rv n cur h w] zseq_def [of net_recv]
      using r steps Suc.IH [OF l] by (cases f) (simp_all add: Let_def)
  qed
qed

subsection \<open>The commands of a listener session\<close>

definition session_command :: "zfs_recv \<Rightarrow> zcmd \<Rightarrow> bool" where
  "session_command rv cmd \<longleftrightarrow> (\<exists>h. zh_nr h = rr_nr rv \<and> permitted (recv_cfg rv h) cmd)"

definition session_only :: "zfs_recv \<Rightarrow> zcmd list \<Rightarrow> zw \<Rightarrow> bool" where
  "session_only rv L w \<longleftrightarrow> (\<exists>cs. zw_log w = L @ cs \<and> list_all (session_command rv) cs)"

lemma session_issue:
  "session_only rv L w \<Longrightarrow> permitted (recv_cfg rv h) cmd \<Longrightarrow> zh_nr h = rr_nr rv \<Longrightarrow> session_only rv L (issue cmd w)"
  by (auto simp: session_only_def session_command_def issue_def)

interpretation served: zfs_inv_all "recv_cfg rv h" "\<lambda>w. zh_nr h = rr_nr rv \<longrightarrow> session_only rv L w" for rv h L
  by unfold_locales (blast intro: session_issue, simp_all add: session_only_def, blast intro: session_issue [unfolded session_only_def])

lemma served_nr: "zh_nr h = rr_nr rv \<Longrightarrow> presT (\<lambda>w. zh_nr h = rr_nr rv \<longrightarrow> session_only rv L w) m \<Longrightarrow> presT (session_only rv L) m"
  by simp

lemma some_nr: "zh_nr (no_hello\<lparr>zh_nr := rr_nr rv\<rparr>) = rr_nr rv"
  by simp

lemma session_tell [presT_intros]: "presT (session_only rv L) (net_tell env f)"
  by (rule served_nr [OF some_nr served.tell_keeps])

lemma session_recv [presT_intros]: "presT (session_only rv L) net_recv"
  by (rule served_nr [OF some_nr served.recv_keeps])

lemma session_send [presT_intros]: "presT (session_only rv L) (net_send env f)"
  by (rule served_nr [OF some_nr served.send_keeps])

lemma session_conf_only: "presT (session_only rv L) (handle_conf_only env rv h)"
proof (cases "zh_nr h = rr_nr rv")
  case True
  then show ?thesis by (rule served_nr [OF _ served.conf_handler_keeps])
next
  case False
  then show ?thesis unfolding handle_conf_only_def by (simp add: session_tell)
qed

lemma session_refuse: "presT (session_only rv L) (refuse_nr env rv h)"
  by (rule served_nr [OF some_nr served.refuse_keeps])

definition cur_ok :: "zfs_recv \<Rightarrow> zcfg option \<Rightarrow> bool" where
  "cur_ok rv cur \<longleftrightarrow> (\<forall>c. cur = Some c \<longrightarrow> (\<exists>h. c = recv_cfg rv h \<and> zh_nr h = rr_nr rv))"

lemma session_rotate:
  assumes "cur_ok rv cur"
  shows "presT (session_only rv L) (handle_rotate env cur r)"
proof (cases cur)
  case None
  then show ?thesis using served_nr [OF some_nr served.rotate_none_keeps] by simp
next
  case (Some c)
  then obtain h where "c = recv_cfg rv h" "zh_nr h = rr_nr rv"
    using assms by (auto simp: cur_ok_def)
  then show ?thesis using Some served_nr [OF _ served.rotate_some_keeps] by simp
qed

lemma session_loop: "cur_ok rv cur \<Longrightarrow> presT (session_only rv L) (handle_loop env rv n cur h)"
proof (induction n arbitrary: cur h)
  case 0
  show ?case by (rule presT_cong [OF handle_loop.simps(1)]) (rule presT_ret)
next
  case (Suc n)
  show ?case
    by (rule presT_cong [OF handle_loop.simps(2)])
      (intro presT_intros session_conf_only session_refuse session_rotate Suc served_nr [OF _ served.hello_keeps];
       auto simp: cur_ok_def intro: Suc.prems [unfolded cur_ok_def, rule_format])
qed

definition is_send :: "zcmd \<Rightarrow> bool" where
  "is_send cmd = (case cmd of SendFrame f \<Rightarrow> True | _ \<Rightarrow> False)"

definition knows_key :: "zfs_recv \<Rightarrow> zframe list \<Rightarrow> bool" where
  "knows_key rv fs =
     (case fs of f # _ \<Rightarrow> (case f of ZWelcome m \<Rightarrow> w_proto m = proto_version \<and> w_key m = rr_key rv | _ \<Rightarrow> False) | [] \<Rightarrow> False)"

lemma session_keeps: "presT (session_only rv L) (zfs_handle env rv)"
proof -
  have "presT (session_only rv L) (\<lambda>w. handle_loop env rv (Suc (length (zw_inbox w))) None no_hello w)"
    by (rule presT_point, rule presT_D [OF session_loop]) (simp add: cur_ok_def)
  then show ?thesis unfolding zfs_handle_def by (intro presT_intros)
qed

lemma no_key_only_sends:
  assumes "\<not> knows_key rv (zw_inbox w)"
  shows "\<exists>cs. zw_log (snd (zfs_handle env rv w)) = zw_log w @ cs \<and> list_all is_send cs"
proof -
  note defs = zfs_handle_def zseq_def zret_def net_send_def net_recv_def net_tell_def issue_def is_send_def
  show ?thesis
  proof (cases "zw_inbox w")
    case Nil
    then show ?thesis by (simp add: defs)
  next
    case (Cons f fs)
    then show ?thesis
    proof (cases f)
      case (ZWelcome m)
      then show ?thesis using assms Cons by (auto simp: knows_key_def defs)
    qed (simp_all add: defs)
  qed
qed

text \<open>
  Whatever frames reach the listener of a backup and whatever \<open>zfs\<close> answers, every command of the
  session is one of the list \<open>allowed\<close> for the dataset and the service number of the listener, with
  a prefix that names that number; so nothing but snapshots of this service is destroyed or
  renamed. And a peer that does not open with the right version and the right key starts no command
  at all: the session only sends frames.
\<close>

theorem session_footprint:
  assumes "CHR ''@'' \<notin> set (rr_dataset rv)"
  shows "\<exists>cs. zw_log (snd (zfs_handle env rv w)) = zw_log w @ cs \<and>
           (\<forall>cmd \<in> set cs. \<exists>h. zh_nr h = rr_nr rv \<and> allowed (recv_cfg rv h) cmd) \<and>
           (\<not> knows_key rv (zw_inbox w) \<longrightarrow> list_all is_send cs)"
proof -
  have "session_only rv (zw_log w) w" by (simp add: session_only_def)
  then have "session_only rv (zw_log w) (snd (zfs_handle env rv w))"
    by (rule presT_D [OF session_keeps])
  then obtain cs where cs: "zw_log (snd (zfs_handle env rv w)) = zw_log w @ cs" and "list_all (session_command rv) cs"
    by (auto simp: session_only_def)
  then have "\<forall>cmd \<in> set cs. \<exists>h. zh_nr h = rr_nr rv \<and> allowed (recv_cfg rv h) cmd"
    using assms by (auto simp: list_all_iff session_command_def permitted_def plain_names_def recv_cfg_def)
  then show ?thesis using cs no_key_only_sends [of rv w env] by auto
qed

text \<open>A primary that knows the key, a full transfer of one chunk, and the request to rotate.\<close>

definition ex_recv :: zfs_recv where
  "ex_recv = \<lparr>rr_dataset = ''tank/b'', rr_nr = ''1'', rr_key = ''k'', rr_service = ''s1'', rr_rollback_auto = False,
     rr_keep_hours = 24, rr_keep_days = 30\<rparr>"

definition ex_inbox :: "string \<Rightarrow> zframe list" where
  "ex_inbox key = [ZWelcome \<lparr>w_proto = 1, w_version = ''3'', w_os = ''linux'', w_acl_type = [], w_key = key\<rparr>,
     ZHello \<lparr>zh_nr = ''1'', zh_fs_guid = ''77'', zh_snaps = [], zh_recursive = False, zh_conf_only = False, zh_conf = []\<rparr>,
     ZChunk [1, 2], ZChunk [], ZRotate \<lparr>zt_app = False, zt_consistent = [], zt_conf = []\<rparr>]"

lemma session_footprint_witness:
  "(\<exists>cs. zw_log (snd (zfs_handle ex_zenv ex_recv (ex_zw\<lparr>zw_inbox := ex_inbox ''x''\<rparr>))) = zw_log ex_zw @ cs \<and>
     (\<forall>cmd \<in> set cs. \<exists>h. zh_nr h = rr_nr ex_recv \<and> allowed (recv_cfg ex_recv h) cmd) \<and> list_all is_send cs) \<and>
   knows_key ex_recv (ex_inbox ''k'')"
proof -
  have d: "CHR ''@'' \<notin> set (rr_dataset ex_recv)" by (simp add: ex_recv_def)
  have n: "\<not> knows_key ex_recv (zw_inbox (ex_zw\<lparr>zw_inbox := ex_inbox ''x''\<rparr>))"
    by (simp add: knows_key_def ex_inbox_def ex_recv_def)
  have k: "knows_key ex_recv (ex_inbox ''k'')"
    by (simp add: knows_key_def ex_inbox_def ex_recv_def proto_version_def)
  show ?thesis using session_footprint [OF d, of ex_zenv "ex_zw\<lparr>zw_inbox := ex_inbox ''x''\<rparr>"] n k by auto
qed

subsection \<open>The plan of the backup\<close>

definition inc_released :: "zenv \<Rightarrow> zcfg \<Rightarrow> zfs_hello \<Rightarrow> zw \<Rightarrow> zfs_plan \<Rightarrow> zcmd list \<Rightarrow> bool" where
  "inc_released env c h w0 p L \<longleftrightarrow>
     (\<exists>n bl. length (zw_log w0) \<le> n \<and> listed_at env c L n (zc_backup c) bl \<and> bl \<noteq> [] \<and>
        zp_base p = hello_base h bl \<and> zp_base p \<noteq> [] \<and>
        (zp_base p = zs_guid (last bl) \<or> zc_rollback_auto c \<or> approved c (zp_base p) (zs_guid (last bl)) w0))"

definition plans :: "zenv \<Rightarrow> zcfg \<Rightarrow> zfs_hello \<Rightarrow> zw \<Rightarrow> zfs_plan z \<Rightarrow> bool" where
  "plans env c h w0 m \<longleftrightarrow>
     (\<forall>w. unforced w0 [] w \<longrightarrow> zp_kind (fst (m w)) = ''inc'' \<longrightarrow> inc_released env c h w0 (fst (m w)) (zw_log (snd (m w))))"

lemma plans_seq: "presT (unforced w0 []) m \<Longrightarrow> (\<And>x. plans env c h w0 (f x)) \<Longrightarrow> plans env c h w0 (zseq m f)"
  by (fastforce simp: plans_def presT_def pres_def zseq_def split: prod.split)

lemma plans_other: "zp_kind p \<noteq> ''inc'' \<Longrightarrow> plans env c h w0 (zret p)"
  by (simp add: plans_def zret_def)

lemma plans_error: "plans env c h w0 (plan_error m)"
  unfolding plan_error_def by (rule plans_other) (simp add: simple_plan_def)

lemma choose_base_kind:
  assumes "zp_kind (fst (choose_base c h bl w)) = ''inc''"
  shows "bl \<noteq> [] \<and> zp_base (fst (choose_base c h bl w)) = hello_base h bl \<and> hello_base h bl \<noteq> [] \<and>
    (hello_base h bl = zs_guid (last bl) \<or> zc_rollback_auto c \<or> approved c (hello_base h bl) (zs_guid (last bl)) w) \<and>
    snd (choose_base c h bl w) = w"
  using assms
  by (auto simp: choose_base_def plan_error_def simple_plan_def zret_def zseq_def Let_def split: if_splits prod.splits)

lemma choose_base_inc:
  assumes "unforced w0 [] w" and "listed_at env c (zw_log w) n (zc_backup c) bl" and "length (zw_log w0) \<le> n"
    and "zp_kind (fst (choose_base c h bl w)) = ''inc''"
  shows "inc_released env c h w0 (fst (choose_base c h bl w)) (zw_log (snd (choose_base c h bl w)))"
proof -
  have "approved c x y w \<longleftrightarrow> approved c x y w0" for x y
    using assms(1) by (simp add: unforced_def approved_def)
  then show ?thesis
    unfolding inc_released_def using assms(2,3) choose_base_kind [OF assms(4)]
    by (intro exI [of _ n] exI [of _ bl]) simp
qed

lemma plans_list:
  assumes "\<And>e. plans env c h w0 (f (Inl e))"
    and "\<And>bl w n. unforced w0 [] w \<Longrightarrow> listed_at env c (zw_log w) n (zc_backup c) bl \<Longrightarrow> length (zw_log w0) \<le> n \<Longrightarrow>
      zp_kind (fst (f (Inr bl) w)) = ''inc'' \<Longrightarrow> inc_released env c h w0 (fst (f (Inr bl) w)) (zw_log (snd (f (Inr bl) w)))"
  shows "plans env c h w0 (zseq (list_snaps env c (zc_backup c)) f)"
  unfolding plans_def
proof (intro allI impI)
  fix w assume w: "unforced w0 [] w" and k: "zp_kind (fst (zseq (list_snaps env c (zc_backup c)) f w)) = ''inc''"
  obtain r w' where m: "list_snaps env c (zc_backup c) w = (r, w')"
    by (cases "list_snaps env c (zc_backup c) w")
  have w': "unforced w0 [] w'"
    using presT_D [OF quiet.list_keeps w, of env c "zc_backup c"] m by simp
  have len: "length (zw_log w0) \<le> length (zw_log w)"
    using w by (auto simp: unforced_def)
  show "inc_released env c h w0 (fst (zseq (list_snaps env c (zc_backup c)) f w))
      (zw_log (snd (zseq (list_snaps env c (zc_backup c)) f w)))"
  proof (cases r)
    case (Inl e)
    then show ?thesis using assms(1) [of e] w' k m by (simp add: zseq_def plans_def)
  next
    case (Inr bl)
    then show ?thesis
      using assms(2) [OF w' list_snaps_run(2) [OF m Inr] len] k m by (simp add: zseq_def)
  qed
qed

lemma plans_relist: "plans env c h w0 (relist_and_choose env c h)"
  unfolding relist_and_choose_def by (rule plans_list) (simp_all add: plans_error choose_base_inc)

lemma plans_settle:
  assumes "own_snap c (zs_full bn)"
  shows "plans env c h w0 (settle_new env c h bn)"
proof -
  have r: "presT (unforced w0 []) (rotate env c (zc_backup c) True)"
    by (rule quiet.rotate_keeps) (simp add: own_ds_def)
  have d: "presT (unforced w0 []) (destroy_snap env c (zs_full bn))"
    by (rule quiet.destroy_keeps) (rule assms)
  show ?thesis
    unfolding settle_new_def
    by (auto intro!: plans_seq r d plans_relist plans_error plans_other split: sum.split simp: simple_plan_def)
qed

lemma plans_from_snaps: "plans env c h w0 (plan_from_snaps env c h)"
  unfolding plan_from_snaps_def
proof (rule plans_list, simp add: plans_error)
  fix bl w n
  assume w: "unforced w0 [] w" and l: "listed_at env c (zw_log w) n (zc_backup c) bl" and n: "length (zw_log w0) \<le> n"
  let ?m = "case find_slot bl ''new'' of None \<Rightarrow> choose_base c h bl | Some bn \<Rightarrow> settle_new env c h bn"
  assume k: "zp_kind (fst ((case Inr bl of Inl e \<Rightarrow> plan_error (err_text e) | Inr bl \<Rightarrow>
    case find_slot bl ''new'' of None \<Rightarrow> choose_base c h bl | Some bn \<Rightarrow> settle_new env c h bn) w)) = ''inc''"
  show "inc_released env c h w0 (fst ((case Inr bl of Inl e \<Rightarrow> plan_error (err_text e) | Inr bl \<Rightarrow>
    case find_slot bl ''new'' of None \<Rightarrow> choose_base c h bl | Some bn \<Rightarrow> settle_new env c h bn) w))
    (zw_log (snd ((case Inr bl of Inl e \<Rightarrow> plan_error (err_text e) | Inr bl \<Rightarrow>
    case find_slot bl ''new'' of None \<Rightarrow> choose_base c h bl | Some bn \<Rightarrow> settle_new env c h bn) w)))"
  proof (cases "find_slot bl ''new''")
    case None
    then show ?thesis using choose_base_inc [OF w l n] k by simp
  next
    case (Some bn)
    have "own_snap c (zs_full bn)"
      using quiet.find_slot_own [OF Some] l by (auto simp: listed_at_def parse_snaps_own)
    then show ?thesis using plans_settle w k Some by (auto simp: plans_def)
  qed
qed

lemma plans_backup: "plans env c h w0 (plan_backup env c h)"
proof -
  have a: "presT (unforced w0 []) (zdo env [''recv'', ''-A'', zc_backup c])"
    by (rule quiet.do_keeps [where c = c]) (simp add: permitted_def allowed_def allowed_args_def)
  show ?thesis
    unfolding plan_backup_def
    by (auto intro!: plans_seq quiet.exists_keeps quiet.get_keeps a presT_ret plans_from_snaps plans_error plans_other
        simp: simple_plan_def split: if_split)
qed

text \<open>
  C21. The backup answers \<open>inc\<close>, which makes it receive with \<open>-F\<close>, only when its snapshots could be
  listed and the base it names is the newest snapshot offered by the primary, in a slot other than
  \<open>new\<close>, that it holds itself; and this base is its own newest snapshot, or rollbacks are automatic,
  or the frontend had released exactly this pair of guids.
\<close>

theorem plan_inc_released:
  assumes "plan_backup env c h w = (p, w')" and "zp_kind p = ''inc''"
  shows "inc_released env c h w p (zw_log w')"
proof -
  have "unforced w [] w" by (simp add: unforced_def)
  then show ?thesis using plans_backup [of env c h w] assms by (auto simp: plans_def)
qed

text \<open>Both sides hold \<open>n0\<close> with guid 11; the answers are those of a backup without a pending receive.\<close>

definition ex_plan_env :: zenv where
  "ex_plan_env = ex_zenv\<lparr>ze_zfs := (\<lambda>i. (if i = 1 then ''1:77'' else if i = 2 then ''-'' else if i = 3 then ex_answer 2 else [], True))\<rparr>"

definition ex_hello :: zfs_hello where
  "ex_hello = \<lparr>zh_nr = ''1'', zh_fs_guid = ''77'', zh_snaps = [\<lparr>zr_slot = ''n0'', zr_guid = ''11''\<rparr>], zh_recursive = False,
     zh_conf_only = False, zh_conf = []\<rparr>"

lemma plan_inc_released_witness:
  "inc_released ex_plan_env (recv_cfg ex_recv ex_hello) ex_hello ex_zw
     \<lparr>zp_kind = ''inc'', zp_base = ''11'', zp_token = [], zp_msg = []\<rparr>
     (zw_log (snd (plan_backup ex_plan_env (recv_cfg ex_recv ex_hello) ex_hello ex_zw)))"
proof -
  have "fst (plan_backup ex_plan_env (recv_cfg ex_recv ex_hello) ex_hello ex_zw) =
      \<lparr>zp_kind = ''inc'', zp_base = ''11'', zp_token = [], zp_msg = []\<rparr>"
    by code_simp
  then show ?thesis
    by (intro plan_inc_released) (auto simp: prod_eq_iff)
qed

end
