(* ===== verification/Lock.thy ===== *)
theory Lock
  imports Prelude
begin

section \<open>The pass lock\<close>

text \<open>
  Package \<open>lock\<close>: a file created with \<open>O_CREATE|O_EXCL\<close>, removed by \<open>Unlock\<close>, stolen when it is
  older than \<open>staleAfter\<close> or when the wait has lasted \<open>acquireWait\<close>. Several processes run
  \<open>Acquire\<close> on one directory: the state is the lock file (its creation time and, as a ghost, who
  created it), the clock and the point each process has reached, and a step is one file system call
  of one process or the passing of time. Times are in milliseconds.
\<close>

type_synonym pid = nat

definition retry_delay :: nat where "retry_delay = 20"
definition stale_after :: nat where "stale_after = 30000"
definition acquire_wait :: nat where "acquire_wait = 10000"

text \<open>
  \<open>Trying d\<close>: before \<open>OpenFile\<close>; \<open>Blocked d\<close>: the file exists, before \<open>Stat\<close>; \<open>Stealing d\<close>:
  before the first \<open>Remove\<close>; \<open>Waiting d\<close>: before the deadline test; \<open>Forcing d\<close>: before the second
  \<open>Remove\<close>; \<open>Sleeping d t\<close>: until \<open>t\<close>. \<open>d\<close> is the deadline.
\<close>

datatype phase =
    Idle
  | Trying nat
  | Blocked nat
  | Stealing nat
  | Waiting nat
  | Forcing nat
  | Sleeping nat nat
  | Holding
  | Failed

record lock_state =
  lk_file :: "(nat \<times> pid) option"
  lk_now :: nat
  lk_at :: "pid \<Rightarrow> phase"

definition move :: "pid \<Rightarrow> phase \<Rightarrow> lock_state \<Rightarrow> lock_state" where
  "move p x s = s\<lparr>lk_at := (lk_at s)(p := x)\<rparr>"

text \<open>One step of \<open>Acquire\<close> or \<open>Unlock\<close> of process \<open>p\<close>, by the call it makes.\<close>

datatype lock_event =
    Enter pid
  | Open pid
  | OpenErr pid
  | Stat pid
  | Steal pid
  | Deadline pid
  | Force pid
  | Wake pid
  | Unlock pid
  | Crash pid
  | Tick

inductive lock_step :: "lock_state \<Rightarrow> lock_event \<Rightarrow> lock_state \<Rightarrow> bool" where
  enter: "lk_at s p = Idle \<Longrightarrow> lock_step s (Enter p) (move p (Trying (lk_now s + acquire_wait)) s)"
| open_ok: "lk_at s p = Trying d \<Longrightarrow> lk_file s = None \<Longrightarrow>
    lock_step s (Open p) (move p Holding (s\<lparr>lk_file := Some (lk_now s, p)\<rparr>))"
| open_exists: "lk_at s p = Trying d \<Longrightarrow> lk_file s \<noteq> None \<Longrightarrow> lock_step s (Open p) (move p (Blocked d) s)"
| open_err: "lk_at s p = Trying d \<Longrightarrow> lock_step s (OpenErr p) (move p Failed s)"
| stat_stale: "lk_at s p = Blocked d \<Longrightarrow> lk_file s = Some (t, q) \<Longrightarrow> lk_now s - t > stale_after \<Longrightarrow>
    lock_step s (Stat p) (move p (Stealing d) s)"
| stat_fresh: "lk_at s p = Blocked d \<Longrightarrow> lk_file s = Some (t, q) \<Longrightarrow> lk_now s - t \<le> stale_after \<Longrightarrow>
    lock_step s (Stat p) (move p (Waiting d) s)"
| stat_err: "lk_at s p = Blocked d \<Longrightarrow> lock_step s (Stat p) (move p (Waiting d) s)"
| steal: "lk_at s p = Stealing d \<Longrightarrow> lock_step s (Steal p) (move p (Trying d) (s\<lparr>lk_file := None\<rparr>))"
| deadline_over: "lk_at s p = Waiting d \<Longrightarrow> lk_now s > d \<Longrightarrow> lock_step s (Deadline p) (move p (Forcing d) s)"
| deadline_not: "lk_at s p = Waiting d \<Longrightarrow> lk_now s \<le> d \<Longrightarrow>
    lock_step s (Deadline p) (move p (Sleeping d (lk_now s + retry_delay)) s)"
| force: "lk_at s p = Forcing d \<Longrightarrow> lock_step s (Force p) (move p (Trying d) (s\<lparr>lk_file := None\<rparr>))"
| wake: "lk_at s p = Sleeping d t \<Longrightarrow> t \<le> lk_now s \<Longrightarrow> lock_step s (Wake p) (move p (Trying d) s)"
| unlock: "lk_at s p = Holding \<Longrightarrow> lock_step s (Unlock p) (move p Idle (s\<lparr>lk_file := None\<rparr>))"
| crash: "lock_step s (Crash p) (move p Failed s)"
| tick: "lock_step s Tick (s\<lparr>lk_now := lk_now s + 1\<rparr>)"

inductive_cases enterE [elim!]: "lock_step s (Enter p) s'"
inductive_cases openE [elim!]: "lock_step s (Open p) s'"
inductive_cases stealE [elim!]: "lock_step s (Steal p) s'"
inductive_cases forceE [elim!]: "lock_step s (Force p) s'"
inductive_cases unlockE [elim!]: "lock_step s (Unlock p) s'"

text \<open>What can be reached from an unlocked directory by steps that \<open>G\<close> admits.\<close>

definition lock_start :: lock_state where
  "lock_start = \<lparr>lk_file = None, lk_now = 0, lk_at = (\<lambda>p. Idle)\<rparr>"

inductive lock_reach :: "(lock_state \<Rightarrow> lock_event \<Rightarrow> bool) \<Rightarrow> lock_state \<Rightarrow> bool" for G where
  start: "lock_reach G lock_start"
| more: "lock_reach G s \<Longrightarrow> G s e \<Longrightarrow> lock_step s e s' \<Longrightarrow> lock_reach G s'"

text \<open>A removal by force or for age is harmless when the process that created the file holds no lock.\<close>

definition harmless :: "lock_state \<Rightarrow> lock_event \<Rightarrow> bool" where
  "harmless s e \<longleftrightarrow>
     (\<forall>p. e = Steal p \<or> e = Force p \<longrightarrow>
       (case lk_file s of None \<Rightarrow> True | Some (t, q) \<Rightarrow> lk_at s q \<noteq> Holding))"

definition owned :: "lock_state \<Rightarrow> bool" where
  "owned s \<longleftrightarrow> (\<forall>p. lk_at s p = Holding \<longrightarrow> (\<exists>t. lk_file s = Some (t, p)))"

lemma owned_move: "owned s \<Longrightarrow> x \<noteq> Holding \<Longrightarrow> owned (move p x s)"
  by (simp add: owned_def move_def)

lemma owned_remove: "\<forall>q. lk_at s q = Holding \<longrightarrow> q = p \<Longrightarrow> x \<noteq> Holding \<Longrightarrow> owned (move p x (s\<lparr>lk_file := None\<rparr>))"
  by (auto simp: owned_def move_def)

lemma owned_unique: "owned s \<Longrightarrow> lk_at s p = Holding \<Longrightarrow> lk_at s q = Holding \<Longrightarrow> q = p"
  unfolding owned_def by (metis option.inject prod.inject)

lemma harmless_free: "owned s \<Longrightarrow> harmless s (Steal p) \<or> harmless s (Force p) \<Longrightarrow> lk_at s q \<noteq> Holding"
  unfolding owned_def harmless_def by fastforce

lemma owned_step:
  assumes "lock_step s e s'" and "harmless s e" and "owned s"
  shows "owned s'"
  using assms
proof (cases rule: lock_step.cases)
  case (open_ok p d)
  then show ?thesis using assms(3) by (auto simp: owned_def move_def)
next
  case (steal p d)
  then show ?thesis using harmless_free [OF assms(3)] assms(2) by (auto intro!: owned_remove)
next
  case (force p d)
  then show ?thesis using harmless_free [OF assms(3)] assms(2) by (auto intro!: owned_remove)
next
  case (unlock p)
  then show ?thesis using owned_unique [OF assms(3)] by (auto intro!: owned_remove)
next
  case tick
  then show ?thesis using assms(3) by (simp add: owned_def)
qed (use assms(3) in \<open>auto intro: owned_move\<close>)

lemma owned_reach: "lock_reach harmless s \<Longrightarrow> owned s"
  by (induction rule: lock_reach.induct) (auto simp: lock_start_def owned_def [of "\<lparr>lk_file = _, lk_now = _, lk_at = _\<rparr>"] intro: owned_step)

text \<open>
  C27. As long as every removal of the lock file, for age or at the deadline, hits a file whose creator
  does not hold the lock any more, at most one process is inside its critical section, and the lock
  file on disk is its own.
\<close>

theorem lock_exclusive:
  assumes "lock_reach harmless s" and "lk_at s p = Holding" and "lk_at s q = Holding"
  shows "p = q \<and> (\<exists>t. lk_file s = Some (t, p))"
  using owned_reach [OF assms(1)] assms(2,3) unfolding owned_def by (metis option.inject prod.inject)

definition ex_held :: lock_state where
  "ex_held = move 1 Holding ((move 1 (Trying acquire_wait) lock_start)\<lparr>lk_file := Some (0, 1)\<rparr>)"

lemma lock_exclusive_witness:
  "lock_reach harmless ex_held \<and> lk_at ex_held 1 = Holding \<and> (1 :: nat) = 1 \<and> (\<exists>t. lk_file ex_held = Some (t, 1))"
proof -
  have 1: "lock_reach harmless (move 1 (Trying acquire_wait) lock_start)"
    using lock_reach.more [OF start _ enter, of harmless 1] by (simp add: harmless_def lock_start_def)
  have "lock_step (move 1 (Trying acquire_wait) lock_start) (Open 1) ex_held"
    using open_ok [of "move 1 (Trying acquire_wait) lock_start" 1 acquire_wait]
    by (simp add: move_def lock_start_def ex_held_def)
  then have r: "lock_reach harmless ex_held"
    by (rule lock_reach.more [OF 1, rotated]) (simp add: harmless_def)
  have h: "lk_at ex_held 1 = Holding" by (simp add: ex_held_def move_def)
  show ?thesis using r h lock_exclusive [OF r h h] by simp
qed

subsection \<open>The race of two processes that find the same stale lock\<close>

text \<open>
  The hypothesis is not idle. One process crashes while it holds the lock; 30 seconds later two others
  see the stale file, both decide to steal it, the first removes it and creates its own, and the
  second then removes that one. Nobody waited for the deadline and both are in the critical section.
\<close>

definition no_force :: "lock_state \<Rightarrow> lock_event \<Rightarrow> bool" where
  "no_force s e \<longleftrightarrow> (\<forall>p. e \<noteq> Force p)"

lemma reach_ticks: "lock_reach no_force s \<Longrightarrow> lock_reach no_force (s\<lparr>lk_now := lk_now s + n\<rparr>)"
proof (induction n)
  case 0
  then show ?case by simp
next
  case (Suc n)
  from lock_reach.more [OF Suc.IH [OF Suc.prems] _ tick] show ?case by (simp add: no_force_def)
qed

fun do_event :: "lock_event \<Rightarrow> lock_state \<Rightarrow> lock_state" where
  "do_event (Enter p) s = move p (Trying (lk_now s + acquire_wait)) s"
| "do_event (Open p) s = (case lk_at s p of
     Trying d \<Rightarrow> if lk_file s = None then move p Holding (s\<lparr>lk_file := Some (lk_now s, p)\<rparr>) else move p (Blocked d) s
   | _ \<Rightarrow> s)"
| "do_event (Stat p) s = (case lk_at s p of
     Blocked d \<Rightarrow> (case lk_file s of Some (t, q) \<Rightarrow> if lk_now s - t > stale_after then move p (Stealing d) s else move p (Waiting d) s
                   | None \<Rightarrow> move p (Waiting d) s)
   | _ \<Rightarrow> s)"
| "do_event (Steal p) s = (case lk_at s p of Stealing d \<Rightarrow> move p (Trying d) (s\<lparr>lk_file := None\<rparr>) | _ \<Rightarrow> s)"
| "do_event (Crash p) s = move p Failed s"
| "do_event e s = s"

definition can :: "lock_event \<Rightarrow> lock_state \<Rightarrow> bool" where
  "can e s = (case e of Enter p \<Rightarrow> lk_at s p = Idle | Open p \<Rightarrow> (case lk_at s p of Trying d \<Rightarrow> True | _ \<Rightarrow> False)
     | Stat p \<Rightarrow> (case lk_at s p of Blocked d \<Rightarrow> True | _ \<Rightarrow> False)
     | Steal p \<Rightarrow> (case lk_at s p of Stealing d \<Rightarrow> True | _ \<Rightarrow> False) | Crash p \<Rightarrow> True | _ \<Rightarrow> False)"

lemma do_event_step: "can e s \<Longrightarrow> lock_step s e (do_event e s)"
  by (cases e) (auto simp: can_def intro: lock_step.intros split: phase.splits option.split)

lemma reach_events:
  "lock_reach no_force s \<Longrightarrow> list_all (\<lambda>i. can (es ! i) (foldl (\<lambda>s e. do_event e s) s (take i es))) [0..<length es] \<Longrightarrow>
   lock_reach no_force (foldl (\<lambda>s e. do_event e s) s es)"
proof (induction es rule: rev_induct)
  case Nil
  then show ?case by simp
next
  case (snoc e es)
  have "lock_reach no_force (foldl (\<lambda>s e. do_event e s) s es)"
    using snoc by (auto simp: list_all_iff nth_append)
  moreover have "can e (foldl (\<lambda>s e. do_event e s) s es)"
    using snoc.prems(2) by (auto simp: list_all_iff)
  moreover from this have "no_force (foldl (\<lambda>s e. do_event e s) s es) e"
    by (auto simp: can_def no_force_def)
  ultimately show ?case
    using lock_reach.more do_event_step by simp
qed

lemma steal_race:
  "\<exists>s. lock_reach no_force s \<and> lk_at s 1 = Holding \<and> lk_at s 2 = Holding"
proof -
  let ?run = "foldl (\<lambda>s e. do_event e s)"
  define s1 where "s1 = ?run lock_start [Enter 0, Open 0, Crash 0]"
  define s2 where "s2 = s1\<lparr>lk_now := lk_now s1 + 30001\<rparr>"
  define es where "es = [Enter 1, Open 1, Enter 2, Open 2, Stat 1, Stat 2, Steal 1, Open 1, Steal 2, Open 2]"
  have "lock_reach no_force s1"
    unfolding s1_def by (rule reach_events [OF start]) (simp add: can_def lock_start_def move_def upt_rec)
  then have "lock_reach no_force s2"
    unfolding s2_def by (rule reach_ticks)
  moreover have e: "s2 = \<lparr>lk_file = Some (0, 0), lk_now = 30001, lk_at = (\<lambda>p. Idle)(0 := Failed)\<rparr>"
    by (simp add: s2_def s1_def lock_start_def move_def)
  moreover have "list_all (\<lambda>i. can (es ! i) (?run s2 (take i es))) [0..<length es]"
    unfolding e es_def by (simp add: can_def move_def upt_rec stale_after_def)
  ultimately have "lock_reach no_force (?run s2 es)"
    using reach_events by blast
  moreover have "lk_at (?run s2 es) 1 = Holding \<and> lk_at (?run s2 es) 2 = Holding"
    unfolding e es_def by (simp add: move_def stale_after_def)
  ultimately show ?thesis by blast
qed

end
