(* ===== verification/Limiter.thy ===== *)
theory Limiter
  imports Complex_Main Wire
begin

section \<open>The rate limit of a transfer\<close>

text \<open>
  \<open>internal/remote/limiter.go\<close>: a token bucket. Clock readings are in nanoseconds; the tokens, a
  \<open>float64\<close> in the code, are rational numbers here, so rounding is not modelled. \<open>wake t d\<close> is the
  reading of \<open>time.Now()\<close> that follows the reading \<open>t\<close> and a sleep of \<open>d\<close>; \<open>clock_ok\<close> says what
  \<open>time.Sleep\<close> documents, and that the clock moves between two readings. \<open>Wait\<close> loops until there
  are enough tokens; that it may loop forever is the value \<open>None\<close>.
\<close>

record limiter =
  bytes_per_sec :: nat
  avail :: rat
  last_ns :: nat

definition new_limiter :: "int \<Rightarrow> nat \<Rightarrow> limiter option" where
  "new_limiter rate now = (if rate \<le> 0 then None else Some \<lparr>bytes_per_sec = nat rate, avail = 0, last_ns = now\<rparr>)"

definition clock_ok :: "(nat \<Rightarrow> nat \<Rightarrow> nat) \<Rightarrow> bool" where
  "clock_ok wake \<longleftrightarrow> (\<forall>t d. t + d \<le> wake t d \<and> t < wake t d)"

definition refill :: "limiter \<Rightarrow> nat \<Rightarrow> limiter" where
  "refill l now = l\<lparr>avail := min (of_nat (bytes_per_sec l))
     (avail l + of_nat (now - last_ns l) / 1000000000 * of_nat (bytes_per_sec l)), last_ns := now\<rparr>"

definition sleep_ns :: "limiter \<Rightarrow> nat \<Rightarrow> nat" where
  "sleep_ns l n = nat \<lfloor>(of_nat n - avail l) / of_nat (bytes_per_sec l) * 1000000000\<rfloor>"

partial_function (option) wait_loop :: "(nat \<Rightarrow> nat \<Rightarrow> nat) \<Rightarrow> nat \<Rightarrow> limiter \<Rightarrow> nat \<Rightarrow> limiter option" where
  "wait_loop wake n l now =
     (let l' = refill l now
      in if of_nat n \<le> avail l' then Some (l'\<lparr>avail := avail l' - of_nat n\<rparr>)
         else wait_loop wake n l' (wake now (sleep_ns l' n)))"

definition limiter_wait :: "(nat \<Rightarrow> nat \<Rightarrow> nat) \<Rightarrow> limiter option \<Rightarrow> nat \<Rightarrow> nat \<Rightarrow> limiter option option" where
  "limiter_wait wake lo n now = (case lo of None \<Rightarrow> Some None | Some l \<Rightarrow> map_option Some (wait_loop wake n l now))"

lemma refill_sel [simp]:
  "bytes_per_sec (refill l now) = bytes_per_sec l" "last_ns (refill l now) = now"
  "avail (refill l now) \<le> of_nat (bytes_per_sec l)"
  by (simp_all add: refill_def)

subsection \<open>When it returns\<close>

lemma wait_loop_needs: "wait_loop wake n l now = Some l' \<Longrightarrow> n \<le> bytes_per_sec l"
proof (rule wait_loop.raw_induct [where P = "\<lambda>wake n l now l'. n \<le> bytes_per_sec l", rotated], assumption)
  fix loop wake n l now l'
  assume IH: "\<And>wake n l now l'. loop wake n l now = Some l' \<Longrightarrow> n \<le> bytes_per_sec l"
    and s: "(let l' = refill l now in if of_nat n \<le> avail l' then Some (l'\<lparr>avail := avail l' - of_nat n\<rparr>)
         else loop wake n l' (wake now (sleep_ns l' n))) = Some l'"
  show "n \<le> bytes_per_sec l"
  proof (cases "of_nat n \<le> avail (refill l now)")
    case True
    also have "avail (refill l now) \<le> of_nat (bytes_per_sec l)" by simp
    finally show ?thesis by simp
  next
    case False
    then show ?thesis using s IH [of wake n "refill l now"] by (simp add: Let_def)
  qed
qed

text \<open>After a sleep at most a nanosecond's worth of tokens is missing, and after one more reading none.\<close>

lemma refill_le: "x \<le> of_nat (bytes_per_sec l) \<Longrightarrow>
    x \<le> avail l + of_nat (now - last_ns l) / 1000000000 * of_nat (bytes_per_sec l) \<Longrightarrow> x \<le> avail (refill l now)"
  by (simp add: refill_def)

lemma refill_after_sleep:
  assumes "clock_ok wake" and "0 < bytes_per_sec l" and "n \<le> bytes_per_sec l" and "avail l < of_nat n"
  shows "of_nat n - of_nat (bytes_per_sec l) / 1000000000 \<le> avail (refill l (wake (last_ns l) (sleep_ns l n)))"
proof (rule refill_le)
  define r :: rat where "r = of_nat (bytes_per_sec l)"
  define x where "x = (of_nat n - avail l) / r * 1000000000"
  have r: "0 < r" using assms(2) by (simp add: r_def)
  show "of_nat n - of_nat (bytes_per_sec l) / 1000000000 \<le> (of_nat (bytes_per_sec l) :: rat)"
    using assms(3) by (simp add: add_increasing2)
  have "0 \<le> x" using assms(4) r by (simp add: x_def)
  then have "of_nat (sleep_ns l n) = (of_int \<lfloor>x\<rfloor> :: rat)"
    by (simp add: sleep_ns_def x_def r_def of_nat_nat)
  moreover have "x - 1 \<le> of_int \<lfloor>x\<rfloor>"
    using floor_correct [of x] by linarith
  ultimately have "x - 1 \<le> of_nat (sleep_ns l n)" by simp
  also have "sleep_ns l n \<le> wake (last_ns l) (sleep_ns l n) - last_ns l"
    using assms(1) unfolding clock_ok_def by (metis add_le_imp_le_diff add.commute)
  then have "(of_nat (sleep_ns l n) :: rat) \<le> of_nat (wake (last_ns l) (sleep_ns l n) - last_ns l)"
    by simp
  finally have "(x - 1) / 1000000000 * r \<le> of_nat (wake (last_ns l) (sleep_ns l n) - last_ns l) / 1000000000 * r"
    using r by (simp add: mult_right_mono divide_right_mono)
  moreover have "(x - 1) / 1000000000 * r = of_nat n - avail l - r / 1000000000"
    using r by (simp add: x_def field_simps)
  ultimately show "of_nat n - of_nat (bytes_per_sec l) / 1000000000 \<le> avail l +
      of_nat (wake (last_ns l) (sleep_ns l n) - last_ns l) / 1000000000 * of_nat (bytes_per_sec l)"
    by (simp add: r_def)
qed

lemma refill_one_more:
  assumes "of_nat n - of_nat (bytes_per_sec l) / 1000000000 \<le> avail l" and "last_ns l < now" and "n \<le> bytes_per_sec l"
  shows "of_nat n \<le> avail (refill l now)"
proof (rule refill_le)
  define r :: rat where "r = of_nat (bytes_per_sec l)"
  have "1 \<le> (of_nat (now - last_ns l) :: rat)" using assms(2) by simp
  then have "1 / 1000000000 * r \<le> of_nat (now - last_ns l) / 1000000000 * r"
    by (intro mult_right_mono divide_right_mono) (simp_all add: r_def)
  then show "of_nat n \<le> avail l + of_nat (now - last_ns l) / 1000000000 * of_nat (bytes_per_sec l)"
    using assms(1) by (simp add: r_def)
qed (use assms(3) in simp)

lemma wait_loop_now: "of_nat n \<le> avail (refill l now) \<Longrightarrow> \<exists>l'. wait_loop wake n l now = Some l'"
  by (subst wait_loop.simps) (simp add: Let_def)

lemma wait_loop_next:
  "\<exists>l'. wait_loop wake n (refill l now) (wake now (sleep_ns (refill l now) n)) = Some l' \<Longrightarrow>
   \<exists>l'. wait_loop wake n l now = Some l'"
  by (subst wait_loop.simps) (simp add: Let_def)

lemma wait_loop_returns:
  assumes "clock_ok wake" and "0 < bytes_per_sec l" and "n \<le> bytes_per_sec l"
  shows "\<exists>l'. wait_loop wake n l now = Some l'"
proof (cases "of_nat n \<le> avail (refill l now)")
  case True
  then show ?thesis by (rule wait_loop_now)
next
  case False
  let ?l1 = "refill l now"
  let ?now1 = "wake now (sleep_ns ?l1 n)"
  let ?l2 = "refill ?l1 ?now1"
  let ?now2 = "wake ?now1 (sleep_ns ?l2 n)"
  have 2: "of_nat n - of_nat (bytes_per_sec ?l2) / 1000000000 \<le> avail ?l2"
    using refill_after_sleep [of wake ?l1 n] assms False by simp
  have "last_ns ?l2 < ?now2" using assms(1) by (simp add: clock_ok_def)
  from refill_one_more [OF 2 this] have "of_nat n \<le> avail (refill ?l2 ?now2)" using assms(3) by simp
  then show ?thesis by (rule wait_loop_next [OF wait_loop_next [OF wait_loop_now]])
qed

text \<open>
  C28. \<open>Wait\<close> returns, after at most two sleeps, exactly when the number of bytes does not exceed the
  rate: the bucket never holds more than one second's worth, so a larger request waits forever.
\<close>

theorem wait_returns_iff:
  assumes "clock_ok wake" and "new_limiter rate start = Some l"
  shows "(\<exists>lo. limiter_wait wake (Some l) n now = Some lo) \<longleftrightarrow> int n \<le> rate"
proof -
  have l: "bytes_per_sec l = nat rate" "0 < rate"
    using assms(2) by (auto simp: new_limiter_def split: if_splits)
  show ?thesis
  proof
    assume "\<exists>lo. limiter_wait wake (Some l) n now = Some lo"
    then obtain l' where "wait_loop wake n l now = Some l'" by (auto simp: limiter_wait_def)
    from wait_loop_needs [OF this] show "int n \<le> rate" using l by simp
  next
    assume "int n \<le> rate"
    then have "\<exists>l'. wait_loop wake n l now = Some l'"
      using l by (intro wait_loop_returns assms(1)) simp_all
    then show "\<exists>lo. limiter_wait wake (Some l) n now = Some lo"
      by (auto simp: limiter_wait_def)
  qed
qed

text \<open>One block of a transfer at \<open>--bwlimit 1000000\<close> never goes out; at 8 MB/s it does.\<close>

lemma wait_returns_iff_witness:
  "limiter_wait (\<lambda>t d. t + d + 1) (new_limiter 1000000 0) block_size 0 = None \<and>
   (\<exists>lo. limiter_wait (\<lambda>t d. t + d + 1) (new_limiter 8000000 0) block_size 0 = Some lo)"
proof -
  have c: "clock_ok (\<lambda>t d. t + d + 1)" by (simp add: clock_ok_def)
  obtain l1 where l1: "new_limiter 1000000 0 = Some l1" by (simp add: new_limiter_def)
  obtain l2 where l2: "new_limiter 8000000 0 = Some l2" by (simp add: new_limiter_def)
  show ?thesis
    using wait_returns_iff [OF c l1, of block_size 0] wait_returns_iff [OF c l2, of block_size 0]
    by (simp add: l1 l2 block_size_def)
qed

subsection \<open>The rate\<close>

lemma refill_spends:
  "last_ns l \<le> now \<Longrightarrow>
   avail (refill l now) \<le> avail l + of_nat (now - last_ns l) / 1000000000 * of_nat (bytes_per_sec l)"
  by (simp add: refill_def)

definition earned :: "limiter \<Rightarrow> limiter \<Rightarrow> rat" where
  "earned l l' = of_nat (last_ns l' - last_ns l) / 1000000000 * of_nat (bytes_per_sec l)"

definition spent :: "nat \<Rightarrow> limiter \<Rightarrow> limiter \<Rightarrow> bool" where
  "spent n l l' \<longleftrightarrow> last_ns l \<le> last_ns l' \<and> 0 \<le> avail l' \<and> bytes_per_sec l' = bytes_per_sec l \<and>
     avail l' + of_nat n \<le> avail l + earned l l'"

lemma earned_add:
  assumes "last_ns l \<le> last_ns l1" and "last_ns l1 \<le> last_ns l2" and "bytes_per_sec l1 = bytes_per_sec l"
  shows "earned l l1 + earned l1 l2 = earned l l2"
proof -
  have "last_ns l2 - last_ns l = (last_ns l1 - last_ns l) + (last_ns l2 - last_ns l1)" using assms by simp
  then show ?thesis using assms(3) by (simp add: earned_def of_nat_add add_divide_distrib distrib_right del: of_nat_diff)
qed

lemma spent_trans: "spent m l l1 \<Longrightarrow> spent n l1 l2 \<Longrightarrow> spent (m + n) l l2"
  using earned_add [of l l1 l2] by (auto simp: spent_def)

lemma wait_loop_spends:
  "wait_loop wake n l now = Some l' \<Longrightarrow> clock_ok wake \<longrightarrow> last_ns l \<le> now \<longrightarrow> spent n l l'"
proof (rule wait_loop.raw_induct [where P = "\<lambda>wake n l now l'. clock_ok wake \<longrightarrow> last_ns l \<le> now \<longrightarrow> spent n l l'", rotated],
    assumption, intro impI)
  fix loop wake n l now l'
  assume IH: "\<And>wake n l now l'. loop wake n l now = Some l' \<Longrightarrow> clock_ok wake \<longrightarrow> last_ns l \<le> now \<longrightarrow> spent n l l'"
    and s: "(let l' = refill l now in if of_nat n \<le> avail l' then Some (l'\<lparr>avail := avail l' - of_nat n\<rparr>)
         else loop wake n l' (wake now (sleep_ns l' n))) = Some l'"
    and c: "clock_ok wake" and now: "last_ns l \<le> now"
  show "spent n l l'"
  proof (cases "of_nat n \<le> avail (refill l now)")
    case True
    then show ?thesis using s now refill_spends [OF now] by (auto simp: Let_def spent_def earned_def)
  next
    case False
    let ?l1 = "refill l now"
    have "loop wake n ?l1 (wake now (sleep_ns ?l1 n)) = Some l'" using s False by (simp add: Let_def)
    from IH [OF this] c have "spent n ?l1 l'" by (simp add: clock_ok_def less_imp_le)
    then have "spent n ?l1 l'" and "avail ?l1 \<le> avail l + earned l ?l1" and "last_ns l \<le> last_ns ?l1"
      using refill_spends [OF now] now by (simp_all add: earned_def)
    then show ?thesis using earned_add [of l ?l1 l'] by (auto simp: spent_def)
  qed
qed

text \<open>The blocks of one or more transfers in a row: each is waited for at a later reading of the clock.\<close>

fun wait_all :: "(nat \<Rightarrow> nat \<Rightarrow> nat) \<Rightarrow> (nat \<times> nat) list \<Rightarrow> limiter \<Rightarrow> limiter option" where
  "wait_all wake [] l = Some l"
| "wait_all wake ((n, pause) # ns) l =
     (case wait_loop wake n l (last_ns l + pause) of None \<Rightarrow> None | Some l' \<Rightarrow> wait_all wake ns l')"

lemma wait_all_spends: "clock_ok wake \<Longrightarrow> wait_all wake ns l = Some l' \<Longrightarrow> 0 \<le> avail l \<Longrightarrow> spent (sum_list (map fst ns)) l l'"
proof (induction ns arbitrary: l)
  case Nil
  then show ?case by (simp add: spent_def earned_def)
next
  case (Cons x ns)
  obtain n pause where x: "x = (n, pause)" by (cases x)
  obtain l1 where l1: "wait_loop wake n l (last_ns l + pause) = Some l1" and r: "wait_all wake ns l1 = Some l'"
    using Cons.prems(2) x by (auto split: option.splits)
  have "spent n l l1" using wait_loop_spends [OF l1] Cons.prems(1) by simp
  moreover from this have "spent (sum_list (map fst ns)) l1 l'"
    using Cons.IH [OF Cons.prems(1) r] by (simp add: spent_def)
  ultimately show ?case using spent_trans x by auto
qed

text \<open>
  C29. However the waits are spaced, the bytes let through up to any reading of the clock are at most
  the rate times the seconds since the limiter was made.
\<close>

theorem limiter_bound:
  assumes "clock_ok wake" and "new_limiter rate start = Some l" and "wait_all wake ns l = Some l'"
  shows "of_nat (sum_list (map fst ns)) \<le> of_nat (last_ns l' - start) / (1000000000 :: rat) * of_int rate"
proof -
  have l: "avail l = 0" "last_ns l = start" "(of_nat (bytes_per_sec l) :: rat) = of_int rate"
    using assms(2) by (auto simp: new_limiter_def of_nat_nat split: if_splits)
  have "spent (sum_list (map fst ns)) l l'"
    using wait_all_spends [OF assms(1,3)] l(1) by simp
  then show ?thesis using l by (auto simp: spent_def earned_def)
qed

lemma limiter_bound_witness:
  "\<exists>l'. wait_all (\<lambda>t d. t + d + 1) [(1000, 1000000000), (2000, 0)] \<lparr>bytes_per_sec = 1000000, avail = 0, last_ns = 0\<rparr> = Some l' \<and>
     3000 \<le> of_nat (last_ns l' - 0) / (1000000000 :: rat) * of_int 1000000"
proof -
  have c: "clock_ok (\<lambda>t d. t + d + 1)" by (simp add: clock_ok_def)
  have l: "new_limiter 1000000 0 = Some \<lparr>bytes_per_sec = 1000000, avail = 0, last_ns = 0\<rparr>"
    by (simp add: new_limiter_def)
  obtain l' where w: "wait_all (\<lambda>t d. t + d + 1) [(1000, 1000000000), (2000, 0)] \<lparr>bytes_per_sec = 1000000, avail = 0, last_ns = 0\<rparr> = Some l'"
    by (simp add: wait_loop.simps [of _ 1000] wait_loop.simps [of _ 2000] refill_def Let_def)
  then show ?thesis using limiter_bound [OF c l w] by simp
qed

end
