(* ===== verification/Config.thy ===== *)
theory Config
  imports Endpoint Paths Executor
begin

section \<open>From the flags to the roles of the endpoints\<close>

text \<open>
  The translation layer of \<open>runCmd\<close> in \<open>main.go\<close>: the mode and the endpoint specs become the internal
  model, a local anchor, an optional secondary side (a path or a RustFS bucket) merged in both
  directions or mirrored in one, and an optional one-way sender. Every \<open>os.Exit(2)\<close> is a value of
  \<open>cfg_error\<close>. \<open>cwd\<close> is what \<open>os.Getwd\<close> returns; \<open>filepath.Abs\<close> needs it for a relative path, and
  the code drops its error.
\<close>

record run_flags =
  rf_mode :: string
  rf_primary :: string
  rf_secondary :: string
  rf_backup :: string
  rf_key :: string
  rf_primary_key :: string
  rf_secondary_key :: string
  rf_backup_key :: string
  rf_storage :: string
  rf_apply :: bool

datatype cfg_error =
    BadMode
  | NoPrimary
  | BadSpec parse_error
  | PrimaryNotLocal
  | NoSecondary
  | SecondaryNotLocal
  | SecondaryIsCSSync
  | BackupIsLocal
  | SecondaryNotUsed
  | NoBackup
  | BackupNotLocal
  | PullFromCSSync
  | NeedsKey
  | NeedsRustFSKey string
  | ScanNeedsSecondary

record run_config =
  rc_oneway :: bool
  rc_pull :: bool
  rc_anchor :: string
  rc_second :: string
  rc_second_rustfs :: bool
  rc_second_target :: rustfs_target
  rc_send_target :: rustfs_target
  rc_send_addr :: string
  rc_send_key :: string
  rc_sender :: bool

definition no_target :: rustfs_target where
  "no_target = \<lparr>tg_host = [], tg_port = 0, tg_bucket = [], tg_access = [], tg_secret = []\<rparr>"

definition empty_config :: run_config where
  "empty_config = \<lparr>rc_oneway = False, rc_pull = False, rc_anchor = [], rc_second = [], rc_second_rustfs = False,
     rc_second_target = no_target, rc_send_target = no_target, rc_send_addr = [], rc_send_key = [], rc_sender = False\<rparr>"

definition abs_of :: "string option \<Rightarrow> string \<Rightarrow> string" where
  "abs_of cwd p = (if is_abs p then clean p else case cwd of None \<Rightarrow> [] | Some d \<Rightarrow> join_path d p)"

definition resolve_psk :: "string \<Rightarrow> string \<Rightarrow> string" where
  "resolve_psk dflt override = (if override \<noteq> [] then override else dflt)"

definition resolve_target :: "endpoint \<Rightarrow> string \<Rightarrow> string \<Rightarrow> cfg_error + rustfs_target" where
  "resolve_target ep dflt override =
     (let key = (if override = [] then dflt else override)
      in case str_index CHR '':'' key of
           None \<Rightarrow> Inl (NeedsRustFSKey (ep_raw ep))
         | Some i \<Rightarrow>
             if i = 0 \<or> i = length key - 1 then Inl (NeedsRustFSKey (ep_raw ep))
             else Inr \<lparr>tg_host = ep_host ep, tg_port = ep_port ep, tg_bucket = ep_bucket ep,
               tg_access = take i key, tg_secret = drop (i + 1) key\<rparr>)"

definition parse_opt :: "string \<Rightarrow> cfg_error + endpoint option" where
  "parse_opt s = (if s = [] then Inr None else case parse s of Inl e \<Rightarrow> Inl (BadSpec e) | Inr ep \<Rightarrow> Inr (Some ep))"

subsection \<open>The three modes\<close>

definition sync_config :: "string option \<Rightarrow> run_flags \<Rightarrow> endpoint \<Rightarrow> endpoint option \<Rightarrow> endpoint option \<Rightarrow> cfg_error + run_config" where
  "sync_config cwd f pe so bo =
     (if ep_kind pe \<noteq> KindLocal then Inl PrimaryNotLocal
      else case so of
        None \<Rightarrow> Inl NoSecondary
      | Some se \<Rightarrow>
          (let c = empty_config\<lparr>rc_anchor := abs_of cwd (ep_path pe)\<rparr>;
               second =
                 (case ep_kind se of
                    KindLocal \<Rightarrow> Inr (c\<lparr>rc_second := abs_of cwd (ep_path se)\<rparr>)
                  | KindRustFS \<Rightarrow>
                      if \<not> is_local se then Inl SecondaryNotLocal
                      else (case resolve_target se (rf_key f) (rf_secondary_key f) of
                          Inl e \<Rightarrow> Inl e
                        | Inr t \<Rightarrow> Inr (c\<lparr>rc_second_rustfs := True, rc_second_target := t,
                            rc_second := (if rf_storage f \<noteq> [] then abs_of cwd (rf_storage f) else [])\<rparr>))
                  | KindCSSync \<Rightarrow> Inl SecondaryIsCSSync)
           in case second of
                Inl e \<Rightarrow> Inl e
              | Inr c1 \<Rightarrow> (case bo of
                  None \<Rightarrow> Inr c1
                | Some be \<Rightarrow> if ep_kind be = KindLocal then Inl BackupIsLocal else Inr (c1\<lparr>rc_sender := True\<rparr>))))"

definition push_config :: "string option \<Rightarrow> endpoint \<Rightarrow> endpoint option \<Rightarrow> endpoint option \<Rightarrow> cfg_error + run_config" where
  "push_config cwd pe so bo =
     (if ep_kind pe \<noteq> KindLocal then Inl PrimaryNotLocal
      else if so \<noteq> None then Inl SecondaryNotUsed
      else case bo of
        None \<Rightarrow> Inl NoBackup
      | Some be \<Rightarrow>
          (let c = empty_config\<lparr>rc_anchor := abs_of cwd (ep_path pe)\<rparr>
           in if ep_kind be = KindLocal then Inr (c\<lparr>rc_second := abs_of cwd (ep_path be), rc_oneway := True\<rparr>)
              else Inr (c\<lparr>rc_sender := True\<rparr>)))"

definition pull_config :: "string option \<Rightarrow> run_flags \<Rightarrow> endpoint \<Rightarrow> endpoint option \<Rightarrow> endpoint option \<Rightarrow> cfg_error + run_config" where
  "pull_config cwd f pe so bo =
     (if so \<noteq> None then Inl SecondaryNotUsed
      else case bo of
        None \<Rightarrow> Inl NoBackup
      | Some be \<Rightarrow>
          if ep_kind be \<noteq> KindLocal then Inl BackupNotLocal
          else if ep_kind pe = KindCSSync then Inl PullFromCSSync
          else (let c = empty_config\<lparr>rc_anchor := abs_of cwd (ep_path be), rc_oneway := True, rc_pull := True\<rparr>
                in if ep_kind pe = KindLocal then Inr (c\<lparr>rc_second := abs_of cwd (ep_path pe)\<rparr>)
                   else (case resolve_target pe (rf_key f) (rf_primary_key f) of
                       Inl e \<Rightarrow> Inl e
                     | Inr t \<Rightarrow> Inr (c\<lparr>rc_second_rustfs := True, rc_second_target := t\<rparr>))))"

definition mode_config :: "string option \<Rightarrow> run_flags \<Rightarrow> endpoint \<Rightarrow> endpoint option \<Rightarrow> endpoint option \<Rightarrow> cfg_error + run_config" where
  "mode_config cwd f pe so bo =
     (if rf_mode f = ''sync'' then sync_config cwd f pe so bo
      else if rf_mode f = ''push'' then push_config cwd pe so bo
      else pull_config cwd f pe so bo)"

definition sender_config :: "run_flags \<Rightarrow> endpoint option \<Rightarrow> run_config \<Rightarrow> cfg_error + run_config" where
  "sender_config f bo c =
     (if \<not> rc_sender c then Inr c
      else case bo of
        None \<Rightarrow> Inr c
      | Some be \<Rightarrow>
          (case ep_kind be of
             KindCSSync \<Rightarrow>
               (let key = resolve_psk (rf_key f) (rf_backup_key f)
                in if rf_apply f \<and> key = [] then Inl NeedsKey
                   else Inr (c\<lparr>rc_send_addr := host_port be, rc_send_key := key\<rparr>))
           | KindRustFS \<Rightarrow>
               (case resolve_target be (rf_key f) (rf_backup_key f) of
                  Inl e \<Rightarrow> Inl e | Inr t \<Rightarrow> Inr (c\<lparr>rc_send_target := t\<rparr>))
           | KindLocal \<Rightarrow> Inr c))"

definition second_leg :: "run_config \<Rightarrow> bool" where
  "second_leg c \<longleftrightarrow> rc_second c \<noteq> [] \<or> rc_second_rustfs c"

definition run_setup :: "string option \<Rightarrow> run_flags \<Rightarrow> cfg_error + run_config" where
  "run_setup cwd f =
     (if rf_mode f \<noteq> ''sync'' \<and> rf_mode f \<noteq> ''push'' \<and> rf_mode f \<noteq> ''pull'' then Inl BadMode
      else if rf_primary f = [] then Inl NoPrimary
      else case parse (rf_primary f) of
        Inl e \<Rightarrow> Inl (BadSpec e)
      | Inr pe \<Rightarrow> (case parse_opt (rf_secondary f) of
          Inl e \<Rightarrow> Inl e
        | Inr so \<Rightarrow> (case parse_opt (rf_backup f) of
            Inl e \<Rightarrow> Inl e
          | Inr bo \<Rightarrow> (case mode_config cwd f pe so bo of
              Inl e \<Rightarrow> Inl e
            | Inr c \<Rightarrow> (case sender_config f bo c of
                Inl e \<Rightarrow> Inl e
              | Inr c' \<Rightarrow> if \<not> rf_apply f \<and> \<not> second_leg c' then Inl ScanNeedsSecondary else Inr c')))))"

subsection \<open>What the roles are\<close>

definition target_ok :: "rustfs_target \<Rightarrow> bool" where
  "target_ok t \<longleftrightarrow> host_re (tg_host t) \<and> 1 \<le> tg_port t \<and> tg_port t \<le> 65535 \<and> tg_bucket t \<noteq> [] \<and>
     CHR ''/'' \<notin> set (tg_bucket t) \<and> tg_access t \<noteq> [] \<and> CHR '':'' \<notin> set (tg_access t) \<and> tg_secret t \<noteq> []"

lemma resolve_target_ok:
  assumes "endpoint_ok ep" and "ep_kind ep = KindRustFS" and "resolve_target ep k ov = Inr t"
  shows "target_ok t"
proof -
  obtain i where i: "str_index CHR '':'' (if ov = [] then k else ov) = Some i" "i \<noteq> 0" "i \<noteq> length (if ov = [] then k else ov) - 1"
    and t: "t = \<lparr>tg_host = ep_host ep, tg_port = ep_port ep, tg_bucket = ep_bucket ep,
      tg_access = take i (if ov = [] then k else ov), tg_secret = drop (i + 1) (if ov = [] then k else ov)\<rparr>"
    using assms(3) by (auto simp: resolve_target_def Let_def split: option.splits if_splits)
  from i(1) obtain a b where ab: "(if ov = [] then k else ov) = a @ CHR '':'' # b" "length a = i" "CHR '':'' \<notin> set a"
    by (rule str_index_SomeE)
  show ?thesis
    using assms(1,2) i(2,3) ab unfolding t by (auto simp: target_ok_def endpoint_ok_def)
qed

text \<open>The shapes of a configuration the rest of the program can be started with.\<close>

definition sender_ok :: "bool \<Rightarrow> run_config \<Rightarrow> bool" where
  "sender_ok app c \<longleftrightarrow>
     (if rc_sender c then
        (rc_send_addr c \<noteq> [] \<and> rc_send_target c = no_target \<and> (app \<longrightarrow> rc_send_key c \<noteq> [])) \<or>
        (rc_send_addr c = [] \<and> target_ok (rc_send_target c))
      else rc_send_addr c = [] \<and> rc_send_target c = no_target)"

definition shape_ok :: "string \<Rightarrow> run_config \<Rightarrow> bool" where
  "shape_ok mode c \<longleftrightarrow>
     (rc_second_rustfs c \<longrightarrow> target_ok (rc_second_target c)) \<and>
     is_abs (rc_anchor c) \<and> (rc_second c \<noteq> [] \<longrightarrow> is_abs (rc_second c)) \<and>
     (second_leg c \<or> rc_sender c) \<and>
     (if mode = ''sync'' then \<not> rc_oneway c \<and> \<not> rc_pull c \<and> second_leg c
      else if mode = ''push'' then \<not> rc_pull c \<and> \<not> rc_second_rustfs c \<and> rc_oneway c = (rc_second c \<noteq> []) \<and> rc_sender c = (rc_second c = [])
      else rc_pull c \<and> rc_oneway c \<and> \<not> rc_sender c)"

lemma is_abs_clean: "is_abs p \<Longrightarrow> is_abs (clean p)"
  by (simp add: clean_abs is_abs_abs_path)

lemma abs_of_abs: "is_abs d \<Longrightarrow> p \<noteq> [] \<Longrightarrow> is_abs (abs_of (Some d) p)"
  by (simp add: abs_of_def is_abs_clean join_path_abs is_abs_abs_path)

lemma resolve_other_ok:
  "endpoint_ok ep \<Longrightarrow> ep_kind ep \<noteq> KindLocal \<Longrightarrow> ep_kind ep \<noteq> KindCSSync \<Longrightarrow> resolve_target ep k ov = Inr t \<Longrightarrow> target_ok t"
  using resolve_target_ok by (cases "ep_kind ep") auto

lemma is_abs_ne: "is_abs p \<Longrightarrow> p \<noteq> []"
  by (auto simp: is_abs_def has_prefix_def)

lemma local_path_ne: "endpoint_ok e \<Longrightarrow> ep_kind e = KindLocal \<Longrightarrow> ep_path e \<noteq> []"
  by (auto simp: endpoint_ok_def local_form_def has_prefix_def)

lemma host_port_ne: "host_port e \<noteq> []"
  by (simp add: host_port_def)

definition unsent :: "endpoint option \<Rightarrow> run_config \<Rightarrow> bool" where
  "unsent bo c \<longleftrightarrow> rc_send_addr c = [] \<and> rc_send_target c = no_target \<and>
     (rc_sender c \<longrightarrow> (\<exists>be. bo = Some be \<and> ep_kind be \<noteq> KindLocal))"

lemma abs_of_local: "is_abs d \<Longrightarrow> endpoint_ok e \<Longrightarrow> ep_kind e = KindLocal \<Longrightarrow> is_abs (abs_of (Some d) (ep_path e))"
  using abs_of_abs local_path_ne by blast

lemma abs_of_local_ne: "is_abs d \<Longrightarrow> endpoint_ok e \<Longrightarrow> ep_kind e = KindLocal \<Longrightarrow> abs_of (Some d) (ep_path e) \<noteq> []"
  using abs_of_local is_abs_ne by blast

lemma sync_shape:
  assumes "is_abs d" "endpoint_ok pe" "\<forall>e. so = Some e \<longrightarrow> endpoint_ok e" "sync_config (Some d) f pe so bo = Inr c"
  shows "shape_ok ''sync'' c \<and> unsent bo c"
proof -
  from assms(4) obtain se where se: "so = Some se" and pe: "ep_kind pe = KindLocal"
    by (auto simp: sync_config_def split: if_splits option.splits)
  note defs = sync_config_def shape_ok_def second_leg_def empty_config_def unsent_def Let_def
  note path = abs_of_local [OF assms(1,2) pe] abs_of_local [OF assms(1) assms(3) [rule_format, OF se]] abs_of_local_ne [OF assms(1) assms(3) [rule_format, OF se]]
    abs_of_abs [OF assms(1)] resolve_target_ok [OF assms(3) [rule_format, OF se]]
  show ?thesis
  proof (cases "ep_kind se")
    case KindLocal
    then show ?thesis using assms(4) pe se path by (auto simp: defs split: option.splits if_splits)
  next
    case KindRustFS
    then show ?thesis using assms(4) pe se path by (auto simp: defs split: option.splits if_splits sum.splits)
  next
    case KindCSSync
    then show ?thesis using assms(4) pe se by (simp add: defs)
  qed
qed

lemma push_shape:
  assumes "is_abs d" "endpoint_ok pe" "\<forall>e. bo = Some e \<longrightarrow> endpoint_ok e" "push_config (Some d) pe so bo = Inr c"
  shows "shape_ok ''push'' c \<and> unsent bo c"
  using assms(4) abs_of_local [OF assms(1,2)] abs_of_local [OF assms(1) assms(3) [rule_format]] abs_of_local_ne [OF assms(1) assms(3) [rule_format]]
  by (auto simp: push_config_def shape_ok_def second_leg_def empty_config_def unsent_def Let_def split: if_splits option.splits)

lemma pull_shape:
  assumes "is_abs d" "endpoint_ok pe" "\<forall>e. bo = Some e \<longrightarrow> endpoint_ok e" "pull_config (Some d) f pe so bo = Inr c"
    and "mode \<noteq> ''sync''" "mode \<noteq> ''push''"
  shows "shape_ok mode c \<and> unsent bo c"
proof -
  from assms(4) obtain be where be: "bo = Some be" "ep_kind be = KindLocal" "ep_kind pe \<noteq> KindCSSync"
    by (auto simp: pull_config_def split: if_splits option.splits)
  note defs = pull_config_def shape_ok_def second_leg_def empty_config_def unsent_def Let_def
  note path = abs_of_local [OF assms(1) assms(3) [rule_format, OF be(1)] be(2)] abs_of_local [OF assms(1,2)] abs_of_local_ne [OF assms(1,2)] resolve_target_ok [OF assms(2)]
  show ?thesis
  proof (cases "ep_kind pe")
    case KindLocal
    then show ?thesis using assms(4-) be path by (auto simp: defs split: if_splits)
  next
    case KindRustFS
    then show ?thesis using assms(4-) be path by (auto simp: defs split: if_splits sum.splits)
  next
    case KindCSSync
    then show ?thesis using be by simp
  qed
qed

lemma mode_config_ok:
  assumes "is_abs d" "endpoint_ok pe" "\<forall>e. so = Some e \<longrightarrow> endpoint_ok e" "\<forall>e. bo = Some e \<longrightarrow> endpoint_ok e"
    and "mode_config (Some d) f pe so bo = Inr c"
  shows "shape_ok (rf_mode f) c \<and> unsent bo c"
proof (cases "rf_mode f = ''sync'' \<or> rf_mode f = ''push''")
  case True
  then show ?thesis
    using sync_shape [OF assms(1-3)] push_shape [OF assms(1,2,4)] assms(5) by (elim disjE) (simp_all add: mode_config_def)
next
  case False
  then show ?thesis
    using pull_shape [OF assms(1,2,4), where mode = "rf_mode f"] assms(5) by (simp add: mode_config_def)
qed

lemma sender_config_ok:
  assumes "sender_config f bo c = Inr c'" and "unsent bo c" and "\<forall>e. bo = Some e \<longrightarrow> endpoint_ok e"
  shows "sender_ok (rf_apply f) c'"
proof (cases "rc_sender c")
  case False
  then show ?thesis using assms(1,2) by (simp add: sender_config_def sender_ok_def unsent_def)
next
  case True
  then obtain be where be: "bo = Some be" "ep_kind be \<noteq> KindLocal"
    using assms(2) by (auto simp: unsent_def)
  show ?thesis
  proof (cases "ep_kind be")
    case KindCSSync
    then show ?thesis using assms(1,2) True be
      by (auto simp: sender_config_def sender_ok_def unsent_def Let_def host_port_ne split: if_splits)
  next
    case KindRustFS
    then show ?thesis using assms(1,2) True be resolve_target_ok [OF assms(3) [rule_format, OF be(1)]]
      by (auto simp: sender_config_def sender_ok_def unsent_def split: sum.splits)
  qed (use be in simp)
qed

lemma shape_ok_sender:
  "shape_ok mode (c\<lparr>rc_send_addr := a, rc_send_key := k\<rparr>) = shape_ok mode c"
  "shape_ok mode (c\<lparr>rc_send_target := t\<rparr>) = shape_ok mode c"
  by (simp_all add: shape_ok_def second_leg_def)

lemma sender_config_shape: "sender_config f bo c = Inr c' \<Longrightarrow> shape_ok mode c' = shape_ok mode c"
  by (auto simp: sender_config_def shape_ok_sender Let_def split: if_splits option.splits sum.splits kind.splits)

lemma run_setup_InrE:
  assumes "run_setup cwd f = Inr c'"
  obtains pe so bo c where "parse (rf_primary f) = Inr pe" "parse_opt (rf_secondary f) = Inr so"
    "parse_opt (rf_backup f) = Inr bo" "mode_config cwd f pe so bo = Inr c" "sender_config f bo c = Inr c'"
    "rf_apply f \<or> second_leg c'" "rf_mode f \<in> {''sync'', ''push'', ''pull''}"
  using assms by (auto simp: run_setup_def split: if_splits sum.splits)

lemma parse_opt_ok: "parse_opt s = Inr eo \<Longrightarrow> \<forall>e. eo = Some e \<longrightarrow> endpoint_ok e"
  using parse_wf [of s] by (auto simp: parse_opt_def split: if_splits sum.splits)

text \<open>
  C35. A set of flags the program starts with always gives a coherent configuration. The anchor is an
  absolute local path. There is a secondary side or a sender (a dry run always has a secondary side);
  a sender has exactly one kind of target, a cs-sync address with a key or a complete RustFS target,
  and never goes with a one-way mirror. The \<open>sync\<close> mode merges two sides in both directions, \<open>push\<close>
  mirrors from the anchor to a local path or only sends, and \<open>pull\<close> mirrors onto the anchor.
\<close>

theorem setup_roles:
  assumes "is_abs d" and "run_setup (Some d) f = Inr c"
  shows "shape_ok (rf_mode f) c \<and> sender_ok (rf_apply f) c \<and> (\<not> rf_apply f \<longrightarrow> second_leg c) \<and>
    (rc_oneway c \<longrightarrow> \<not> rc_sender c)"
proof -
  from assms(2) obtain pe so bo c0 where p: "parse (rf_primary f) = Inr pe" and s: "parse_opt (rf_secondary f) = Inr so"
    and b: "parse_opt (rf_backup f) = Inr bo" and m: "mode_config (Some d) f pe so bo = Inr c0"
    and sc: "sender_config f bo c0 = Inr c" and l: "rf_apply f \<or> second_leg c" and mode: "rf_mode f \<in> {''sync'', ''push'', ''pull''}"
    by (rule run_setup_InrE)
  have "endpoint_ok pe" using parse_wf [OF p] by simp
  note m_ok = mode_config_ok [OF assms(1) this parse_opt_ok [OF s] parse_opt_ok [OF b] m]
  have "sender_ok (rf_apply f) c"
    by (rule sender_config_ok [OF sc conjunct2 [OF m_ok] parse_opt_ok [OF b]])
  moreover have sh: "shape_ok (rf_mode f) c"
    using sender_config_shape [OF sc] conjunct1 [OF m_ok] by simp
  moreover have "rc_oneway c \<longrightarrow> \<not> rc_sender c"
    using sh by (simp add: shape_ok_def split: if_splits)
  ultimately show ?thesis using l by blast
qed

definition ex_flags :: run_flags where
  "ex_flags = \<lparr>rf_mode = ''sync'', rf_primary = ''/tank/a'', rf_secondary = ''./b'', rf_backup = ''nas:9010'', rf_key = ''k'',
     rf_primary_key = [], rf_secondary_key = [], rf_backup_key = [], rf_storage = [], rf_apply = True\<rparr>"

definition ex_backup :: endpoint where
  "ex_backup = \<lparr>ep_kind = KindCSSync, ep_raw = ''nas:9010'', ep_path = [], ep_host = ''nas'', ep_port = 9010, ep_bucket = []\<rparr>"

definition ex_config :: run_config where
  "ex_config = empty_config\<lparr>rc_anchor := ''/tank/a'', rc_second := ''/home/b'', rc_send_addr := host_port ex_backup, rc_send_key := ''k'',
     rc_sender := True\<rparr>"

lemma setup_roles_witness:
  "run_setup (Some ''/home'') ex_flags = Inr ex_config \<and> shape_ok ''sync'' ex_config \<and> sender_ok True ex_config"
proof -
  have c: "clean ''/tank/a'' = ''/tank/a''" "join_path ''/home'' ''./b'' = ''/home/b''"
    by (simp_all add: join_path_def clean_def pcomps_def clean_comps_def split_on_def clean_step_def is_abs_def has_prefix_def dotdot_def)
  have e: "parse ''/tank/a'' = Inr \<lparr>ep_kind = KindLocal, ep_raw = ''/tank/a'', ep_path = ''/tank/a'', ep_host = [], ep_port = 0, ep_bucket = []\<rparr>"
    "parse ''./b'' = Inr \<lparr>ep_kind = KindLocal, ep_raw = ''./b'', ep_path = ''./b'', ep_host = [], ep_port = 0, ep_bucket = []\<rparr>"
    "parse ''nas:9010'' = Inr \<lparr>ep_kind = KindCSSync, ep_raw = ''nas:9010'', ep_path = [], ep_host = ''nas'', ep_port = 9010, ep_bucket = []\<rparr>"
    by (simp_all add: parse_eval)
  have r: "run_setup (Some ''/home'') ex_flags = Inr ex_config"
    by (simp add: run_setup_def ex_flags_def parse_opt_def e mode_config_def sync_config_def sender_config_def Let_def no_target_def second_leg_def
        resolve_psk_def empty_config_def ex_config_def abs_of_def is_abs_def has_prefix_def c ex_backup_def)
  have d: "is_abs ''/home''" by (simp add: is_abs_def has_prefix_def)
  show ?thesis using setup_roles [OF d r] r by (simp add: ex_flags_def)
qed

end
