(* ===== verification/Main_Pass.thy ===== *)
theory Main_Pass
  imports Pass_Correct Config
begin

section \<open>One pass of the service\<close>

text \<open>
  \<open>doPass\<close> of \<open>main.go\<close> with the helpers it calls there. What the called packages return is an argument
  (\<open>pass_env\<close>): the loop marker found, whether the lock and the state directory are there, the saved
  state, the two scans, the ACL tool's answers. What the pass does is the list of its effects, in
  order. The packages themselves are modelled in their own theories, \<open>reconcile\<close> is called as it is.
\<close>

record pass_env =
  pe_conf :: run_config
  pe_apply :: bool
  pe_service :: string
  pe_stamp :: string
  pe_marker :: "string option"
  pe_dir :: bool
  pe_lock :: bool
  pe_load :: "tree option"
  pe_scan :: "tree option"
  pe_scan2 :: "tree option"
  pe_acl :: "string \<Rightarrow> string option"
  pe_root_acl :: "string option"
  pe_csv :: "string option"
  pe_isdir2 :: "string \<Rightarrow> bool"
  pe_rng :: "nat \<Rightarrow> tree \<Rightarrow> tree"
  pe_now :: "nat \<Rightarrow> string"

datatype pass_effect =
    LoopStop
  | SenderPass tree string string "string option"
  | WriteCsv tree string
  | FolderAcl string string
  | ApplyOps "op list"
  | Status string
  | SaveState tree
  | MirrorCsv
  | RootAcl string
  | Report "op list"

subsection \<open>Helpers\<close>

definition marker_back :: "string \<Rightarrow> string \<Rightarrow> string option \<Rightarrow> bool" where
  "marker_back service stamp file \<longleftrightarrow>
     service \<noteq> [] \<and> (case file of None \<Rightarrow> False | Some d \<Rightarrow> length stamp \<le> length d \<and> take (length stamp) d = stamp)"

definition populate_acl :: "(string \<Rightarrow> string option) \<Rightarrow> tree \<Rightarrow> tree" where
  "populate_acl rd t =
     map (\<lambda>(q, e). (q, if e_type e \<noteq> TypeDir then e else case rd q of None \<Rightarrow> e | Some a \<Rightarrow> e\<lparr>e_acl := a\<rparr>)) t"

definition force_oneway :: "tree \<Rightarrow> tree \<Rightarrow> bool \<Rightarrow> tree" where
  "force_oneway p s pull = (if pull then p else s)"

definition folder_acls :: "(string \<Rightarrow> bool) \<Rightarrow> tree \<Rightarrow> pass_effect list" where
  "folder_acls isdir t =
     map (\<lambda>(q, e). FolderAcl q (e_acl e)) (filter (\<lambda>(q, e). e_type e = TypeDir \<and> e_acl e \<noteq> [] \<and> isdir q) t)"

definition apply_ordered :: "op list \<Rightarrow> pass_effect list" where
  "apply_ordered ops = [ApplyOps (filter (\<lambda>x. \<not> is_del x) ops), ApplyOps (rev (filter is_del ops))]"

definition last_file_status :: "op list \<Rightarrow> pass_effect list" where
  "last_file_status ops =
     (case filter (\<lambda>x. o_kind x = OpCopy) ops of
        [] \<Rightarrow> []
      | xs \<Rightarrow> [Status ((if o_dst (last xs) = SidePrimary then ''<'' else ''>'') @ o_path (last xs))])"

fun op_name :: "op_kind \<Rightarrow> string" where
  "op_name OpMkdir = ''MKDIR''"
| "op_name OpCopy = ''COPY''"
| "op_name OpDelete = ''DELETE''"
| "op_name OpRmdir = ''RMDIR''"
| "op_name OpRename = ''RENAME''"
| "op_name OpConflictRename = ''CONFLICT''"

text \<open>ASCII only: a rune outside ASCII becomes one \<open>_\<close> in the code, whatever its length.\<close>

definition sanitize_name :: "string \<Rightarrow> string" where
  "sanitize_name s = map (\<lambda>c. if is_alpha c \<or> is_digit c \<or> c = CHR ''.'' \<or> c = CHR ''-'' \<or> c = CHR ''_'' then c else CHR ''_'') s"

subsection \<open>The pass\<close>

definition after_apply :: "pass_env \<Rightarrow> result \<Rightarrow> string \<Rightarrow> pass_effect list" where
  "after_apply env r root_acl =
     (if pe_service env \<noteq> [] then last_file_status (r_ops r) else []) @
     [SaveState (r_base r), WriteCsv (r_base r) root_acl] @
     (if rc_second_rustfs (pe_conf env) then []
      else MirrorCsv # (if root_acl \<noteq> [] then [RootAcl root_acl] else []))"

definition merge_part :: "pass_env \<Rightarrow> tree \<Rightarrow> tree \<Rightarrow> tree \<Rightarrow> string \<Rightarrow> pass_effect list" where
  "merge_part env base p s root_acl =
     (let b = (if rc_oneway (pe_conf env) then force_oneway p s (rc_pull (pe_conf env)) else base);
          r = reconcile (pe_rng env) (pe_now env) b p s
      in if r_ops r = [] then []
         else if pe_apply env then apply_ordered (r_ops r) @ after_apply env r root_acl
         else [Report (r_ops r)])"

definition second_part :: "pass_env \<Rightarrow> string \<Rightarrow> tree \<Rightarrow> tree \<Rightarrow> string \<Rightarrow> pass_effect list" where
  "second_part env reason base p root_acl =
     (case pe_scan2 env of
        None \<Rightarrow> []
      | Some s \<Rightarrow>
          (if pe_apply env \<and> (reason = ''safety-net'' \<or> reason = ''sighup'') \<and> \<not> rc_second_rustfs (pe_conf env)
           then folder_acls (pe_isdir2 env) p else []) @
          merge_part env base p s root_acl)"

definition has_sender :: "pass_env \<Rightarrow> bool" where
  "has_sender env \<longleftrightarrow> pe_apply env \<and> rc_sender (pe_conf env)"

definition scanned_part :: "pass_env \<Rightarrow> string \<Rightarrow> tree \<Rightarrow> tree \<Rightarrow> pass_effect list" where
  "scanned_part env reason base t =
     (let p = populate_acl (pe_acl env) t; root_acl = (case pe_root_acl env of None \<Rightarrow> [] | Some a \<Rightarrow> a)
      in (if has_sender env then [SenderPass p reason root_acl (pe_csv env)] else []) @
         (if \<not> second_leg (pe_conf env) then (if pe_apply env then [WriteCsv p root_acl] else [])
          else second_part env reason base p root_acl))"

definition do_pass :: "pass_env \<Rightarrow> string \<Rightarrow> pass_effect list" where
  "do_pass env reason =
     (if pe_service env \<noteq> [] \<and> (rc_oneway (pe_conf env) \<or> rc_sender (pe_conf env)) \<and>
         marker_back (pe_service env) (pe_stamp env) (pe_marker env)
      then [LoopStop, Status ''error: loop detected'']
      else if \<not> pe_dir env \<or> \<not> pe_lock env then []
      else case pe_load env of
        None \<Rightarrow> []
      | Some base \<Rightarrow> (case pe_scan env of None \<Rightarrow> [] | Some t \<Rightarrow> scanned_part env reason base t))"

subsection \<open>What a pass writes\<close>

fun writes :: "pass_effect \<Rightarrow> bool" where
  "writes (Report ops) = False"
| "writes LoopStop = False"
| "writes (Status s) = False"
| "writes _ = True"

definition changes :: "pass_effect \<Rightarrow> bool" where
  "changes e \<longleftrightarrow> (\<exists>ops. e = ApplyOps ops) \<or> (\<exists>b. e = SaveState b)"

lemma changes_simps [simp]:
  "changes (ApplyOps ops)" "changes (SaveState b)" "\<not> changes (Report ops)" "\<not> changes LoopStop" "\<not> changes (Status x)"
  "\<not> changes (WriteCsv t a)" "\<not> changes MirrorCsv" "\<not> changes (RootAcl a)" "\<not> changes (FolderAcl q a)" "\<not> changes (SenderPass t r a csv)"
  by (simp_all add: changes_def)

definition applied_ops :: "pass_effect list \<Rightarrow> op list" where
  "applied_ops es = concat (map (\<lambda>e. case e of ApplyOps ops \<Rightarrow> ops | _ \<Rightarrow> []) es)"

definition base_of :: "pass_env \<Rightarrow> tree \<Rightarrow> tree \<Rightarrow> tree \<Rightarrow> tree" where
  "base_of env base p s = (if rc_oneway (pe_conf env) then force_oneway p s (rc_pull (pe_conf env)) else base)"

definition merged :: "pass_env \<Rightarrow> tree \<Rightarrow> tree \<Rightarrow> tree \<Rightarrow> result" where
  "merged env base p s = reconcile (pe_rng env) (pe_now env) (base_of env base p s) p s"

text \<open>The inputs for which the pass comes as far as the merge.\<close>

definition merges :: "pass_env \<Rightarrow> tree \<Rightarrow> tree \<Rightarrow> tree \<Rightarrow> bool" where
  "merges env base p s \<longleftrightarrow>
     \<not> (pe_service env \<noteq> [] \<and> (rc_oneway (pe_conf env) \<or> rc_sender (pe_conf env)) \<and>
        marker_back (pe_service env) (pe_stamp env) (pe_marker env)) \<and>
     pe_dir env \<and> pe_lock env \<and> pe_load env = Some base \<and>
     (\<exists>t. pe_scan env = Some t \<and> p = populate_acl (pe_acl env) t) \<and> second_leg (pe_conf env) \<and> pe_scan2 env = Some s"

lemma filter_changes_nil:
  "filter changes (last_file_status ops) = []" "filter changes (folder_acls d t) = []"
  by (auto simp: last_file_status_def folder_acls_def filter_empty_conv split: list.splits)

lemma merge_part_changes:
  "filter changes (merge_part env base p s a) =
     (if r_ops (merged env base p s) = [] \<or> \<not> pe_apply env then []
      else apply_ordered (r_ops (merged env base p s)) @ [SaveState (r_base (merged env base p s))])"
  by (simp add: merge_part_def merged_def base_of_def Let_def apply_ordered_def after_apply_def filter_changes_nil)

lemma second_part_changes:
  "filter changes (second_part env reason base p a) =
     (case pe_scan2 env of None \<Rightarrow> [] | Some s \<Rightarrow> filter changes (merge_part env base p s a))"
  by (cases "pe_scan2 env") (simp_all add: second_part_def filter_changes_nil)

lemma scanned_part_changes:
  "filter changes (scanned_part env reason base t) =
     (if second_leg (pe_conf env)
      then filter changes (second_part env reason base (populate_acl (pe_acl env) t) (case pe_root_acl env of None \<Rightarrow> [] | Some a \<Rightarrow> a))
      else [])"
  by (simp add: scanned_part_def Let_def)

lemma do_pass_merges:
  assumes "merges env base p s"
  shows "filter changes (do_pass env reason) =
     (if r_ops (merged env base p s) = [] \<or> \<not> pe_apply env then []
      else apply_ordered (r_ops (merged env base p s)) @ [SaveState (r_base (merged env base p s))])"
proof -
  obtain t where "pe_scan env = Some t" "p = populate_acl (pe_acl env) t"
    using assms by (auto simp: merges_def)
  moreover have "filter changes (do_pass env reason) = filter changes (scanned_part env reason base t)"
    using assms \<open>pe_scan env = Some t\<close> unfolding merges_def do_pass_def by (subst if_not_P) simp_all
  ultimately show ?thesis
    using assms by (simp add: merges_def scanned_part_changes second_part_changes merge_part_changes)
qed

lemma do_pass_idle:
  assumes "\<And>base p s. \<not> merges env base p s"
  shows "filter changes (do_pass env reason) = []"
proof (rule ccontr)
  assume ne: "filter changes (do_pass env reason) \<noteq> []"
  let ?loop = "pe_service env \<noteq> [] \<and> (rc_oneway (pe_conf env) \<or> rc_sender (pe_conf env)) \<and>
    marker_back (pe_service env) (pe_stamp env) (pe_marker env)"
  have l: "\<not> ?loop"
  proof
    assume ?loop
    then have "do_pass env reason = [LoopStop, Status ''error: loop detected'']"
      unfolding do_pass_def by (rule if_P)
    with ne show False by simp
  qed
  then have d: "do_pass env reason = (if \<not> pe_dir env \<or> \<not> pe_lock env then []
      else case pe_load env of None \<Rightarrow> []
      | Some base \<Rightarrow> (case pe_scan env of None \<Rightarrow> [] | Some t \<Rightarrow> scanned_part env reason base t))"
    unfolding do_pass_def by (rule if_not_P)
  with ne obtain base t where bt: "pe_dir env" "pe_lock env" "pe_load env = Some base" "pe_scan env = Some t"
    and ne': "filter changes (scanned_part env reason base t) \<noteq> []"
    by (auto split: if_splits option.splits)
  then have sl: "second_leg (pe_conf env)" and "filter changes (second_part env reason base (populate_acl (pe_acl env) t)
      (case pe_root_acl env of None \<Rightarrow> [] | Some a \<Rightarrow> a)) \<noteq> []"
    by (simp_all add: scanned_part_changes split: if_splits)
  then obtain s where "pe_scan2 env = Some s"
    by (auto simp: second_part_changes split: option.splits)
  with bt sl l have "merges env base (populate_acl (pe_acl env) t) s"
    unfolding merges_def by blast
  with assms show False by blast
qed

lemma applied_ops_filter: "applied_ops es = applied_ops (filter changes es)"
  by (induction es) (auto simp: applied_ops_def changes_def split: pass_effect.splits)

lemma applied_ordered: "applied_ops (apply_ordered ops @ [SaveState b]) = ordered_ops ops"
  by (simp add: applied_ops_def apply_ordered_def ordered_ops_def)

lemma applied_nil [simp]: "applied_ops [] = []"
  by (simp add: applied_ops_def)

lemma do_pass_applied:
  assumes "merges env base p s" and "pe_apply env"
  shows "applied_ops (do_pass env reason) = ordered_ops (r_ops (merged env base p s))"
proof (cases "r_ops (merged env base p s) = []")
  case True
  then show ?thesis
    using assms by (simp add: applied_ops_filter [of "do_pass env reason"] do_pass_merges ordered_ops_def)
next
  case False
  then show ?thesis
    using assms by (simp only: applied_ops_filter [of "do_pass env reason"] do_pass_merges) (simp add: applied_ordered)
qed

lemma flat_run_applied:
  assumes "merges env base p s" and "pe_apply env"
  shows "flat_run (applied_ops (do_pass env reason)) (flat_sides p s) = after_pass (pe_rng env) (pe_now env) (base_of env base p s) p s"
  using do_pass_applied [OF assms] by (simp add: after_pass_def merged_def)


lemma base_of_oneway:
  "rc_oneway (pe_conf env) \<Longrightarrow> base_of env base p s = (if rc_pull (pe_conf env) then p else s)"
  by (simp add: base_of_def force_oneway_def)


definition ex_pass_env :: pass_env where
  "ex_pass_env = \<lparr>pe_conf = empty_config\<lparr>rc_oneway := True, rc_anchor := ''/a'', rc_second := ''/b''\<rparr>, pe_apply = True, pe_service = [],
     pe_stamp = [], pe_marker = None, pe_dir = True, pe_lock = True, pe_load = Some [], pe_scan = Some ex_p, pe_scan2 = Some ex_b,
     pe_acl = (\<lambda>q. None), pe_root_acl = None, pe_csv = None, pe_isdir2 = (\<lambda>q. False), pe_rng = (\<lambda>n m. m), pe_now = ex_now\<rparr>"

lemma populate_none [simp]: "populate_acl (\<lambda>q. None) t = t"
  by (auto simp: populate_acl_def intro!: map_idI)


text \<open>
  The ACL side of a local \<open>pull\<close> is not turned around: on a safety-net pass the folder ACLs of the
  mirror are written to the source, which is the secondary there.
\<close>

lemma pull_writes_source_acl:
  assumes "merges env base p s" and "pe_apply env" and "rc_pull (pe_conf env)" and "\<not> rc_second_rustfs (pe_conf env)"
    and "(q, e) \<in> set p" and "e_type e = TypeDir" and "e_acl e \<noteq> []" and "pe_isdir2 env q"
  shows "FolderAcl q (e_acl e) \<in> set (do_pass env ''safety-net'')"
proof -
  obtain t where t: "pe_scan env = Some t" "p = populate_acl (pe_acl env) t"
    using assms(1) by (auto simp: merges_def)
  have "FolderAcl q (e_acl e) \<in> set (folder_acls (pe_isdir2 env) p)"
    using assms(5-8) by (auto simp: folder_acls_def intro!: image_eqI [of _ _ "(q, e)"])
  then have "FolderAcl q (e_acl e) \<in> set (scanned_part env ''safety-net'' base t)"
    using assms(1,2,4) t by (simp add: scanned_part_def second_part_def merges_def Let_def)
  moreover have "do_pass env ''safety-net'' = scanned_part env ''safety-net'' base t"
    using assms(1) t(1) unfolding merges_def do_pass_def by (subst if_not_P) simp_all
  ultimately show ?thesis by simp
qed

end
