(* ===== verification/Scanner.thy ===== *)
theory Scanner
  imports Entries Paths
begin

section \<open>The scan of a sync root\<close>

text \<open>
  \<open>scanner.Scan\<close>: \<open>filepath.WalkDir\<close> over the root, one entry per name that is found. The input is the
  directory as the system calls report it: the kind \<open>ReadDir\<close> gives, the answer of \<open>Info\<close> and, for a
  directory, that of its own \<open>ReadDir\<close>; each call can fail. What \<open>WalkDir\<close> does on errors and on
  \<open>SkipDir\<close> is written out: a failing \<open>ReadDir\<close> drops the subtree, a failing \<open>Info\<close> only the entry.
\<close>

record file_info =
  fi_link :: "string option option"
  fi_size :: int
  fi_mtime :: int
  fi_mode :: u32
  fi_dev :: u64
  fi_ino :: u64

datatype disk =
    DFile (disk_name: string) "file_info option"
  | DDir (disk_name: string) "file_info option" "disk list option"

text \<open>The root itself: \<open>Lstat\<close> fails, it is no directory (a symbolic link, say), or it is read.\<close>

datatype scan_root = RootError | RootNoDir | RootDir "disk list option"

definition excluded_top :: string where "excluded_top = ''.backupdata''"

definition excluded :: "string \<Rightarrow> bool" where
  "excluded rel \<longleftrightarrow> rel = excluded_top \<or> has_prefix rel (excluded_top @ ''/'')"

definition scan_entry :: "string \<Rightarrow> bool \<Rightarrow> file_info \<Rightarrow> entry" where
  "scan_entry rel isdir fi =
     (let e = zero_entry\<lparr>e_path := rel, e_mtime := fi_mtime fi, e_mode := fi_mode fi, e_dev := fi_dev fi, e_ino := fi_ino fi\<rparr>
      in case fi_link fi of
           Some l \<Rightarrow> e\<lparr>e_type := TypeSymlink, e_link := (case l of None \<Rightarrow> [] | Some t \<Rightarrow> t)\<rparr>
         | None \<Rightarrow> if isdir then e\<lparr>e_type := TypeDir\<rparr> else e\<lparr>e_type := TypeFile, e_size := fi_size fi\<rparr>)"

definition child :: "string \<Rightarrow> string \<Rightarrow> string" where
  "child rel n = (if rel = [] then n else rel @ ''/'' @ n)"

definition listed :: "string \<Rightarrow> bool \<Rightarrow> file_info option \<Rightarrow> tree" where
  "listed rel isdir fi = (case fi of None \<Rightarrow> [] | Some i \<Rightarrow> [(rel, scan_entry rel isdir i)])"

fun scan_node :: "string \<Rightarrow> disk \<Rightarrow> tree" and scan_nodes :: "string \<Rightarrow> disk list \<Rightarrow> tree" where
  "scan_node rel (DFile n fi) = (if excluded rel then [] else listed rel False fi)"
| "scan_node rel (DDir n fi None) = (if excluded rel then [] else listed rel True fi)"
| "scan_node rel (DDir n fi (Some ds)) = (if excluded rel then [] else listed rel True fi @ scan_nodes rel ds)"
| "scan_nodes rel [] = []"
| "scan_nodes rel (d # ds) = scan_node (child rel (disk_name d)) d @ scan_nodes rel ds"

text \<open>\<open>Scan\<close> never returns an error: the walk function turns every error into an omission.\<close>

definition scan :: "scan_root \<Rightarrow> tree" where
  "scan r = (case r of RootDir (Some ds) \<Rightarrow> scan_nodes [] ds | _ \<Rightarrow> [])"

subsection \<open>Looking a path up\<close>

text \<open>The reference: what is at a path, found component by component.\<close>

fun disk_at :: "disk list \<Rightarrow> string list \<Rightarrow> disk option" where
  "disk_at ds [] = None"
| "disk_at ds [n] = find (\<lambda>d. disk_name d = n) ds"
| "disk_at ds (n # m # ns) =
     (case find (\<lambda>d. disk_name d = n) ds of Some (DDir n' fi (Some ds')) \<Rightarrow> disk_at ds' (m # ns) | _ \<Rightarrow> None)"

fun entry_at :: "string \<Rightarrow> disk \<Rightarrow> entry option" where
  "entry_at q (DFile n fi) = map_option (scan_entry q False) fi"
| "entry_at q (DDir n fi ch) = map_option (scan_entry q True) fi"

definition good_name :: "string \<Rightarrow> bool" where
  "good_name n \<longleftrightarrow> n \<noteq> [] \<and> CHR ''/'' \<notin> set n"

fun disk_ok :: "disk \<Rightarrow> bool" and disks_ok :: "disk list \<Rightarrow> bool" where
  "disk_ok (DFile n fi) = good_name n"
| "disk_ok (DDir n fi None) = good_name n"
| "disk_ok (DDir n fi (Some ds)) = (good_name n \<and> disks_ok ds)"
| "disks_ok [] = True"
| "disks_ok (d # ds) = (disk_ok d \<and> disk_name d \<notin> disk_name ` set ds \<and> disks_ok ds)"

text \<open>Paths as lists of components below a prefix.\<close>

abbreviation extend :: "string \<Rightarrow> string list \<Rightarrow> string" where
  "extend rel cs \<equiv> foldl child rel cs"

definition below_disk :: "disk \<Rightarrow> string list \<Rightarrow> disk option" where
  "below_disk d cs =
     (case cs of [] \<Rightarrow> Some d | c # cs' \<Rightarrow> (case d of DDir n fi (Some ds) \<Rightarrow> disk_at ds cs | _ \<Rightarrow> None))"

lemma disk_ok_name: "disk_ok d \<Longrightarrow> good_name (disk_name d)"
  by (cases d rule: disk_ok.cases) auto

lemma disks_ok_all: "disks_ok ds \<Longrightarrow> d \<in> set ds \<Longrightarrow> disk_ok d"
  by (induction ds) auto

lemma find_name: "disks_ok ds \<Longrightarrow> find (\<lambda>d. disk_name d = n) ds = Some d \<longleftrightarrow> d \<in> set ds \<and> disk_name d = n"
  by (induction ds) auto

lemma disk_at_Cons:
  assumes "disks_ok ds"
  shows "disk_at ds (c # cs) = Some x \<longleftrightarrow> (\<exists>d \<in> set ds. disk_name d = c \<and> below_disk d cs = Some x)"
proof (cases cs)
  case Nil
  then show ?thesis using find_name [OF assms, of c] by (auto simp: below_disk_def)
next
  case (Cons m ns)
  show ?thesis
  proof (cases "find (\<lambda>d. disk_name d = c) ds")
    case None
    then show ?thesis by (simp add: Cons) (use None in \<open>auto simp: find_None_iff\<close>)
  next
    case (Some d)
    then have d: "d \<in> set ds" "disk_name d = c" using find_name [OF assms] by auto
    have u: "e = d" if "e \<in> set ds" "disk_name e = c" for e
      using find_name [OF assms, of c e] that Some by simp
    have "(\<exists>e \<in> set ds. disk_name e = c \<and> below_disk e cs = Some x) \<longleftrightarrow> below_disk d cs = Some x"
      using d u by blast
    then show ?thesis unfolding Cons by (simp add: Some below_disk_def split: disk.split option.split)
  qed
qed

lemma child_inj: "good_name m \<Longrightarrow> good_name n \<Longrightarrow> child rel m = child rel n \<Longrightarrow> m = n"
  by (cases "rel = []") (auto simp: child_def)

lemma child_ne: "n \<noteq> [] \<Longrightarrow> child rel n \<noteq> []"
  by (simp add: child_def)

lemma extend_ne: "rel \<noteq> [] \<Longrightarrow> extend rel cs = rel @ concat (map (\<lambda>c. CHR ''/'' # c) cs)"
  by (induction cs arbitrary: rel) (auto simp: child_def)

lemma excluded_child: "rel \<noteq> [] \<Longrightarrow> excluded rel \<Longrightarrow> excluded (child rel n)"
  by (auto simp: excluded_def child_def has_prefix_def prefix_def)

lemma excluded_extend: "rel \<noteq> [] \<Longrightarrow> excluded rel \<Longrightarrow> excluded (extend rel cs)"
proof (induction cs arbitrary: rel)
  case (Cons c cs)
  have "child rel c \<noteq> []" using Cons.prems(1) by (simp add: child_def)
  then show ?case using Cons excluded_child by simp
qed simp

lemma listed_mem: "(q, e) \<in> set (listed rel b fi) \<longleftrightarrow> q = rel \<and> map_option (scan_entry rel b) fi = Some e"
  by (auto simp: listed_def split: option.splits)

lemma below_disk_simps [simp]:
  "below_disk (DFile n fi) cs = Some x \<longleftrightarrow> cs = [] \<and> x = DFile n fi"
  "below_disk (DDir n fi None) cs = Some x \<longleftrightarrow> cs = [] \<and> x = DDir n fi None"
  "below_disk (DDir n fi (Some ds)) cs = Some x \<longleftrightarrow> (cs = [] \<and> x = DDir n fi (Some ds)) \<or> (cs \<noteq> [] \<and> disk_at ds cs = Some x)"
  by (cases cs; auto simp: below_disk_def)+

text \<open>Membership in the scan, path by path.\<close>

definition found :: "string \<Rightarrow> disk \<Rightarrow> string \<Rightarrow> entry \<Rightarrow> bool" where
  "found rel d q e \<longleftrightarrow> \<not> excluded q \<and> (\<exists>cs x. q = extend rel cs \<and> below_disk d cs = Some x \<and> entry_at q x = Some e)"

definition found_in :: "string \<Rightarrow> disk list \<Rightarrow> string \<Rightarrow> entry \<Rightarrow> bool" where
  "found_in rel ds q e \<longleftrightarrow> \<not> excluded q \<and> (\<exists>c cs x. q = extend rel (c # cs) \<and> disk_at ds (c # cs) = Some x \<and> entry_at q x = Some e)"

lemma found_in_Cons:
  assumes "disks_ok (d # ds)"
  shows "found_in rel (d # ds) q e \<longleftrightarrow> found (child rel (disk_name d)) d q e \<or> found_in rel ds q e"
  using assms disk_at_Cons [OF assms] disk_at_Cons [of ds] by (fastforce simp: found_in_def found_def)

lemma found_leaf:
  assumes "rel \<noteq> []" and "\<And>cs x. below_disk d cs = Some x \<longleftrightarrow> cs = [] \<and> x = d" and "\<And>q. entry_at q d = map_option (scan_entry q b) fi"
  shows "(q, e) \<in> set (if excluded rel then [] else listed rel b fi) \<longleftrightarrow> found rel d q e"
  using assms(2,3) by (auto simp: found_def listed_mem)

lemma scan_found:
  "rel \<noteq> [] \<Longrightarrow> disk_ok d \<Longrightarrow> (q, e) \<in> set (scan_node rel d) \<longleftrightarrow> found rel d q e"
  "disks_ok ds \<Longrightarrow> (q, e) \<in> set (scan_nodes rel ds) \<longleftrightarrow> found_in rel ds q e"
proof (induction rel d and rel ds rule: scan_node_scan_nodes.induct)
  case (1 rel n fi)
  then show ?case unfolding scan_node.simps by (intro found_leaf) auto
next
  case (2 rel n fi)
  then show ?case unfolding scan_node.simps by (intro found_leaf) auto
next
  case (3 rel n fi ds)
  have "found rel (DDir n fi (Some ds)) q e \<longleftrightarrow> (q = rel \<and> \<not> excluded rel \<and> map_option (scan_entry rel True) fi = Some e) \<or> found_in rel ds q e"
    (is "_ \<longleftrightarrow> ?self \<or> _")
  proof
    assume "found rel (DDir n fi (Some ds)) q e"
    then obtain cs x where x: "\<not> excluded q" "q = extend rel cs" "entry_at q x = Some e" and
      "(cs = [] \<and> x = DDir n fi (Some ds)) \<or> (cs \<noteq> [] \<and> disk_at ds cs = Some x)"
      unfolding found_def below_disk_simps by blast
    then show "?self \<or> found_in rel ds q e"
      using x by (cases cs) (auto simp: found_in_def simp del: foldl_Cons)
  next
    assume "?self \<or> found_in rel ds q e"
    then show "found rel (DDir n fi (Some ds)) q e"
    proof
      assume ?self
      then show ?thesis unfolding found_def by (intro conjI exI [of _ "[]"] exI [of _ "DDir n fi (Some ds)"]) auto
    next
      assume "found_in rel ds q e"
      then show ?thesis unfolding found_in_def found_def below_disk_simps by blast
    qed
  qed
  moreover have "\<not> found_in rel ds q e" if "excluded rel"
    using excluded_extend [OF 3(2) that] by (auto simp: found_in_def simp del: foldl_Cons)
  ultimately show ?case using 3 by (auto simp: listed_mem)
next
  case (4 rel)
  have "disk_at [] cs = None" for cs by (induction "[] :: disk list" cs rule: disk_at.induct) simp_all
  then show ?case by (simp add: found_in_def)
next
  case (5 rel d ds)
  have "child rel (disk_name d) \<noteq> []" using 5(3) disk_ok_name child_ne by (auto simp: good_name_def)
  then show ?case using 5 found_in_Cons [OF 5(3)] by simp
qed

subsection \<open>Distinct paths\<close>

lemma disk_at_good: "disks_ok ds \<Longrightarrow> disk_at ds cs = Some x \<Longrightarrow> cs \<noteq> [] \<and> list_all good_name cs"
proof (induction ds cs rule: disk_at.induct)
  case (2 ds n)
  then show ?case using find_name [OF 2(1), of n x] disk_ok_name disks_ok_all by auto
next
  case (3 ds n m ns)
  then obtain n' fi ds' where f: "find (\<lambda>d. disk_name d = n) ds = Some (DDir n' fi (Some ds'))" and r: "disk_at ds' (m # ns) = Some x"
    by (auto split: option.splits disk.splits)
  have d: "DDir n' fi (Some ds') \<in> set ds" "n' = n" using find_name [OF 3(2)] f by auto
  then have "disks_ok ds'" "good_name n" using disks_ok_all [OF 3(2) d(1)] by auto
  then show ?case using 3(1) [OF f refl refl _ r] by simp
qed simp

lemma join_with_snoc: "cs \<noteq> [] \<Longrightarrow> join_with c (cs @ [x]) = join_with c cs @ c # x"
proof (induction cs)
  case (Cons a cs)
  then show ?case by (cases "cs = []") (simp_all add: join_with_Cons)
qed simp

lemma extend_Nil: "list_all good_name cs \<Longrightarrow> cs \<noteq> [] \<Longrightarrow> extend [] cs = join_with CHR ''/'' cs"
proof (induction cs rule: rev_induct)
  case (snoc c cs)
  show ?case
  proof (cases "cs = []")
    case False
    have "join_with CHR ''/'' cs \<noteq> []" using snoc.prems(1) False by (cases cs; cases "tl cs") (auto simp: good_name_def)
    moreover have "join_with CHR ''/'' (cs @ [c]) = join_with CHR ''/'' cs @ ''/'' @ c"
      using False by (simp add: join_with_snoc)
    ultimately show ?thesis using snoc False by (simp add: child_def)
  qed (simp add: child_def)
qed simp

lemma split_extend: "list_all good_name cs \<Longrightarrow> cs \<noteq> [] \<Longrightarrow> split_on CHR ''/'' (extend [] cs) = cs"
proof (induction cs rule: rev_induct)
  case (snoc c cs)
  then have g: "CHR ''/'' \<notin> set c" by (simp add: good_name_def)
  show ?case
  proof (cases "cs = []")
    case True
    then show ?thesis using split_on_word [OF g] by (simp add: child_def)
  next
    case False
    have "extend [] cs \<noteq> []" using False snoc.prems(1)
      by (cases cs) (auto simp: child_def good_name_def extend_ne)
    then have "extend [] (cs @ [c]) = extend [] cs @ CHR ''/'' # c" by (simp add: child_def)
    then show ?thesis using snoc False split_on_word [OF g] by (simp add: split_on_append_any)
  qed
qed simp

lemma found_in_top:
  assumes "disks_ok ds"
  shows "found_in [] ds q e \<longleftrightarrow>
    \<not> excluded q \<and> (case disk_at ds (split_on CHR ''/'' q) of None \<Rightarrow> None | Some d \<Rightarrow> entry_at q d) = Some e"
proof
  assume "found_in [] ds q e"
  then obtain c cs x where x: "\<not> excluded q" "q = extend [] (c # cs)" "disk_at ds (c # cs) = Some x" "entry_at q x = Some e"
    unfolding found_in_def by blast
  have "split_on CHR ''/'' q = c # cs" unfolding x(2) using disk_at_good [OF assms x(3)] by (intro split_extend) simp_all
  then show "\<not> excluded q \<and> (case disk_at ds (split_on CHR ''/'' q) of None \<Rightarrow> None | Some d \<Rightarrow> entry_at q d) = Some e"
    using x by simp
next
  assume r: "\<not> excluded q \<and> (case disk_at ds (split_on CHR ''/'' q) of None \<Rightarrow> None | Some d \<Rightarrow> entry_at q d) = Some e"
  then obtain d where d: "disk_at ds (split_on CHR ''/'' q) = Some d" "entry_at q d = Some e" by (auto split: option.splits)
  have "q = extend [] (split_on CHR ''/'' q)"
    using disk_at_good [OF assms d(1)] extend_Nil [of "split_on CHR ''/'' q"] join_split [of "CHR ''/''" q] by simp
  then show "found_in [] ds q e"
    using r d split_on_nonempty [of "CHR ''/''" q] unfolding found_in_def by (metis list.exhaust)
qed

lemma extend_unique: "list_all good_name cs \<Longrightarrow> list_all good_name cs' \<Longrightarrow> cs \<noteq> [] \<Longrightarrow> cs' \<noteq> [] \<Longrightarrow> extend [] cs = extend [] cs' \<Longrightarrow> cs = cs'"
  by (metis split_extend)

text \<open>No path is listed twice: the keys below different names differ.\<close>

lemma scan_keys_below:
  "rel \<noteq> [] \<Longrightarrow> disk_ok d \<Longrightarrow> q \<in> fst ` set (scan_node rel d) \<Longrightarrow> q = rel \<or> has_prefix q (rel @ ''/'')"
proof -
  assume r: "rel \<noteq> []" and d: "disk_ok d" and q: "q \<in> fst ` set (scan_node rel d)"
  then obtain e where "found rel d q e" using scan_found(1) [OF r d] by auto
  then obtain cs where cs: "q = extend rel cs" unfolding found_def by blast
  show ?thesis using extend_ne [OF r, of cs] by (cases cs) (auto simp: cs has_prefix_def simp del: foldl_Cons)
qed

lemma prefixes_differ:
  assumes "good_name m" "good_name n" "m \<noteq> n" "q = child rel m \<or> has_prefix q (child rel m @ ''/'')"
  shows "\<not> (q = child rel n \<or> has_prefix q (child rel n @ ''/''))"
proof
  assume b: "q = child rel n \<or> has_prefix q (child rel n @ ''/'')"
  obtain x where x: "q = child rel m @ x" "x = [] \<or> hd x = CHR ''/''"
    using assms(4) by (fastforce simp: has_prefix_def prefix_def)
  obtain y where y: "q = child rel n @ y" "y = [] \<or> hd y = CHR ''/''"
    using b by (fastforce simp: has_prefix_def prefix_def)
  have "m @ x = n @ y" using x(1) y(1) by (cases "rel = []") (auto simp: child_def)
  moreover have "takeWhile (\<lambda>c. c \<noteq> CHR ''/'') (m @ x) = m"
    using assms(1) x(2) by (cases x) (auto simp: good_name_def takeWhile_append)
  moreover have "takeWhile (\<lambda>c. c \<noteq> CHR ''/'') (n @ y) = n"
    using assms(2) y(2) by (cases y) (auto simp: good_name_def takeWhile_append)
  ultimately show False using assms(3) by simp
qed

lemma scan_distinct:
  "rel \<noteq> [] \<Longrightarrow> disk_ok d \<Longrightarrow> amap_ok (scan_node rel d)"
  "disks_ok ds \<Longrightarrow> amap_ok (scan_nodes rel ds)"
proof (induction rel d and rel ds rule: scan_node_scan_nodes.induct)
  case (3 rel n fi ds)
  have "rel \<notin> fst ` set (scan_nodes rel ds)"
  proof
    assume "rel \<in> fst ` set (scan_nodes rel ds)"
    then obtain e where "found_in rel ds rel e" using scan_found(2) 3(3) by auto
    then obtain c cs where "rel = extend rel (c # cs)" unfolding found_in_def by blast
    then show False using extend_ne [OF 3(2), of "c # cs"] by simp
  qed
  then show ?case using 3 by (auto simp: amap_ok_def listed_def split: option.splits)
next
  case (5 rel d ds)
  let ?r = "child rel (disk_name d)"
  have ne: "?r \<noteq> []" using 5(3) disk_ok_name child_ne by (auto simp: good_name_def)
  have "fst ` set (scan_node ?r d) \<inter> fst ` set (scan_nodes rel ds) = {}"
  proof (rule ccontr)
    assume "fst ` set (scan_node ?r d) \<inter> fst ` set (scan_nodes rel ds) \<noteq> {}"
    then obtain q where q: "q \<in> fst ` set (scan_node ?r d)" "q \<in> fst ` set (scan_nodes rel ds)" by blast
    then obtain e where "found_in rel ds q e" using scan_found(2) 5(3) by fastforce
    then obtain c cs x where c: "q = extend rel (c # cs)" "disk_at ds (c # cs) = Some x" unfolding found_in_def by blast
    then obtain d' where d': "d' \<in> set ds" "disk_name d' = c" using disk_at_Cons 5(3) by auto
    then have "c \<in> disk_name ` set ds" by blast
    then have g: "good_name c" "c \<noteq> disk_name d"
      using 5(3) disk_ok_name [OF disks_ok_all [OF _ d'(1)]] d'(2) by auto
    have "child rel c \<noteq> []" using g(1) by (auto simp: good_name_def child_def)
    then have "q = child rel c \<or> has_prefix q (child rel c @ ''/'')"
      using extend_ne [of "child rel c" cs] by (cases cs) (auto simp: c(1) has_prefix_def)
    then show False
      using prefixes_differ [OF g(1) disk_ok_name g(2)] scan_keys_below [OF ne _ q(1)] 5(3) by auto
  qed
  then show ?case using 5 ne by (auto simp: amap_ok_def)
qed (auto simp: listed_def amap_ok_def split: option.splits)

text \<open>
  C40. The scan lists exactly what is there. For a root that is read, the entry of a path is the one that
  walking down the directories component by component finds, with the kind, size, times, mode and
  identity the calls report; a path below \<open>.backupdata\<close>, below a directory that cannot be read, or whose
  \<open>Info\<close> fails has none. No path is listed twice.
\<close>

theorem scan_exact:
  assumes "disks_ok ds"
  shows "amap_ok (scan (RootDir (Some ds))) \<and>
    map_of (scan (RootDir (Some ds))) q =
      (if excluded q then None
       else case disk_at ds (split_on CHR ''/'' q) of None \<Rightarrow> None | Some d \<Rightarrow> entry_at q d)"
proof -
  have ok: "amap_ok (scan_nodes [] ds)" by (rule scan_distinct(2) [OF assms])
  let ?r = "if excluded q then None else case disk_at ds (split_on CHR ''/'' q) of None \<Rightarrow> None | Some d \<Rightarrow> entry_at q d"
  have "map_of (scan_nodes [] ds) q = Some e \<longleftrightarrow> ?r = Some e" for e
    using amap_ok_member [OF ok] scan_found(2) [OF assms] found_in_top [OF assms, of q e] by (metis option.distinct(1))
  then have "map_of (scan_nodes [] ds) q = ?r" by (metis not_Some_eq)
  then show ?thesis using ok by (simp add: scan_def)
qed

definition ex_info :: file_info where
  "ex_info = \<lparr>fi_link = None, fi_size = 5, fi_mtime = 7, fi_mode = 420, fi_dev = 1, fi_ino = 2\<rparr>"

definition ex_disk :: "disk list" where
  "ex_disk = [DDir ''.backupdata'' (Some ex_info) (Some [DFile ''x'' (Some ex_info)]),
     DDir ''a'' (Some ex_info) (Some [DFile ''b'' (Some ex_info)]), DDir ''c'' (Some ex_info) None]"

lemma scan_exact_witness:
  "disks_ok ex_disk \<and> map_of (scan (RootDir (Some ex_disk))) ''a/b'' = Some (scan_entry ''a/b'' False ex_info) \<and>
   map_of (scan (RootDir (Some ex_disk))) ''.backupdata/x'' = None \<and> map_of (scan (RootDir (Some ex_disk))) ''c/d'' = None"
proof -
  have d: "disks_ok ex_disk" by (simp add: ex_disk_def good_name_def)
  have s: "split_on CHR ''/'' ''a/b'' = [''a'', ''b'']" "split_on CHR ''/'' ''c/d'' = [''c'', ''d'']"
    by (simp_all add: split_on_def)
  show ?thesis
    using d scan_exact [OF d, of "''a/b''"] scan_exact [OF d, of "''.backupdata/x''"] scan_exact [OF d, of "''c/d''"]
    by (simp add: s) (simp add: ex_disk_def excluded_def excluded_top_def has_prefix_def)
qed

text \<open>
  A root that is gone, or that is a symbolic link, is scanned as an empty tree without an error.
\<close>

lemma scan_lost_root: "scan RootError = []" "scan RootNoDir = []" "scan (RootDir None) = []"
  by (simp_all add: scan_def)

end
