(* ===== verification/Lost_Root.thy ===== *)
theory Lost_Root
  imports Main_Pass Scanner
begin

section \<open>A pass whose secondary is not there\<close>

text \<open>
  The scan of a root that is gone is an empty tree and no error, and in ordinary mode nothing stands
  between that tree and the merge: the delete budget and the freeze of package \<open>guard\<close> belong to the sender.
  So the pass takes every file that both sides had for deleted on the secondary.
\<close>

lemma no_renames_to_nothing:
  assumes "range_order rng" and "\<forall>q. map_of p q \<noteq> None \<longrightarrow> map_of b q \<noteq> None"
  shows "all_recs rng b p [] = []"
proof -
  have hit: "rename_hit b dk other (q, e) = None" if "(q, e) \<in> set p" for dk other q e
  proof -
    have "map_of p q \<noteq> None" using that by (metis map_of_eq_None_iff fst_conv imageI)
    then show ?thesis using assms(2) by (simp add: rename_hit_def)
  qed
  have "set (rng 1 p) = set p" using range_order_set [OF assms(1)] by simp
  then have "rename_recs b dk d other (rng 1 p) = []" for dk d other
    using hit by (auto simp: rename_recs_def)
  moreover have "set (rng 3 ([] :: tree)) = {}" using range_order_set [OF assms(1)] by (metis list.set(1))
  then have "rename_recs b dk d other (rng 3 []) = []" for dk d other
    by (simp add: rename_recs_def)
  ultimately show ?thesis by (simp add: all_recs_def side_recs_def Let_def)
qed

lemma lost_side_deletes:
  assumes "range_order rng" and "\<forall>q. map_of p q \<noteq> None \<longrightarrow> map_of b q \<noteq> None"
    and "map_of b q = Some e" and "map_of p q = Some e'" and "same_identity e e'"
  shows "mk_op (del_kind (e_type e')) SidePrimary SideNone q [] (e_type e') \<in> set (r_ops (reconcile rng now b p []))"
proof -
  note none = no_renames_to_nothing [OF assms(1,2)]
  then have "renamed_paths rng b p [] = []"
    by (simp add: renamed_paths_def detect_renames_recs add_recs_def)
  then have "q \<in> set (merge_paths b p [] (renamed_paths rng b p []))"
    using assms(3) by (force simp: merge_paths_def all_paths_def keys_def dest: map_of_SomeD)
  then have "q \<in> fst ` set (pass_paths rng now b p [])"
    unfolding pass_paths_def by (metis stamped_fst set_map)
  then obtain t where t: "(q, t) \<in> set (pass_paths rng now b p [])" by force
  have "mk_op (del_kind (e_type e')) SidePrimary SideNone q [] (e_type e') \<in> set (r_ops (path_res b p [] (q, t)))"
    using assms(3-5) by (simp add: path_res_def path_result_def reconcile_path_def result_defs)
  then show ?thesis using t unfolding reconcile_blocks(1) by force
qed

text \<open>
  An unmounted secondary empties the primary: once both sides are in step, a two-way pass that finds the
  secondary's root missing deletes every path of the primary.
\<close>

theorem lost_secondary_empties_primary:
  assumes "merges env base p (scan RootError)" and "pe_apply env" and "\<not> rc_oneway (pe_conf env)" and "range_order (pe_rng env)"
    and "\<forall>q e'. map_of p q = Some e' \<longrightarrow> (\<exists>e. map_of base q = Some e \<and> same_identity e e')" and "map_of p q \<noteq> None"
  shows "\<exists>x \<in> set (applied_ops (do_pass env reason)). is_del x \<and> o_dst x = SidePrimary \<and> o_path x = q"
proof -
  obtain e' where e': "map_of p q = Some e'" using assms(6) by blast
  then obtain e where e: "map_of base q = Some e" "same_identity e e'" using assms(5) by blast
  have "map_of p k \<noteq> None \<longrightarrow> map_of base k \<noteq> None" for k using assms(5) by fastforce
  then have "mk_op (del_kind (e_type e')) SidePrimary SideNone q [] (e_type e') \<in> set (applied_ops (do_pass env reason))"
    using lost_side_deletes [OF assms(4) _ e(1) e' e(2)] assms(1,3)
    by (simp add: do_pass_applied [OF assms(1,2)] merged_def base_of_def scan_def)
  then show ?thesis by (intro bexI) (auto simp: is_del_def del_kind_def)
qed

end
