(* ===== verification/Watch.thy ===== *)
theory Watch
  imports GoStrings
begin

section \<open>The watcher\<close>

text \<open>
  Package \<open>watch\<close>: raw file system events are debounced into one \<open>event\<close> signal, a ticker adds
  \<open>safety-net\<close> signals, and both go through \<open>emit\<close> into a channel of capacity one that the pass loop of
  \<open>main.go\<close> reads. The goroutines run interleaved: a step is one \<open>select\<close> of one of them, a read of
  the channel, a raw event, or time passing. Two back ends share the loop. With fsnotify the raw event
  reaches \<open>debounceLoop\<close> directly, with event ports it goes through the one-slot channel \<open>raw\<close>.
  Times are in milliseconds.
\<close>

record watch_options =
  wo_debounce :: int
  wo_safety_net :: int
  wo_max_dirs :: int

definition with_defaults :: "watch_options \<Rightarrow> watch_options" where
  "with_defaults o1 =
     (let o2 = (if wo_debounce o1 \<le> 0 then o1\<lparr>wo_debounce := 500\<rparr> else o1)
      in if wo_safety_net o2 \<le> 0 then o2\<lparr>wo_safety_net := 24 * 60 * 60 * 1000\<rparr> else o2)"

definition is_backupdata_path :: "string \<Rightarrow> bool" where
  "is_backupdata_path p \<longleftrightarrow> list_ex (\<lambda>part. part = ''.backupdata'') (split_on CHR ''/'' p)"

subsection \<open>Which directories are watched\<close>

text \<open>A directory with its subdirectories, in the order of \<open>WalkDir\<close>; names are those of the directories.\<close>

datatype dir_tree = Dir string "dir_tree list"

record watch_set =
  ws_dirs :: nat
  ws_fallback :: bool
  ws_paths :: "string list"

definition watch_dir :: "int \<Rightarrow> string \<Rightarrow> watch_set \<Rightarrow> watch_set" where
  "watch_dir maxd p w =
     (if ws_fallback w \<or> (maxd > 0 \<and> int (ws_dirs w) \<ge> maxd) then w\<lparr>ws_fallback := True\<rparr>
      else w\<lparr>ws_dirs := Suc (ws_dirs w), ws_paths := ws_paths w @ [p]\<rparr>)"

fun add_recursive :: "int \<Rightarrow> string \<Rightarrow> dir_tree \<Rightarrow> watch_set \<Rightarrow> watch_set"
  and add_all :: "int \<Rightarrow> string \<Rightarrow> dir_tree list \<Rightarrow> watch_set \<Rightarrow> watch_set" where
  "add_recursive maxd p (Dir n ts) w =
     (if n = ''.backupdata'' then w else add_all maxd p ts (watch_dir maxd p w))"
| "add_all maxd p [] w = w"
| "add_all maxd p (Dir n ts # rest) w =
     add_all maxd p rest (add_recursive maxd (p @ ''/'' @ n) (Dir n ts) w)"

fun dir_paths :: "string \<Rightarrow> dir_tree \<Rightarrow> string list"
  and dirs_paths :: "string \<Rightarrow> dir_tree list \<Rightarrow> string list" where
  "dir_paths p (Dir n ts) = (if n = ''.backupdata'' then [] else p # dirs_paths p ts)"
| "dirs_paths p [] = []"
| "dirs_paths p (Dir n ts # rest) = dir_paths (p @ ''/'' @ n) (Dir n ts) @ dirs_paths p rest"

definition watch_within :: "int \<Rightarrow> watch_set \<Rightarrow> bool" where
  "watch_within maxd w \<longleftrightarrow> ws_dirs w = length (ws_paths w) \<and> (maxd > 0 \<longrightarrow> int (ws_dirs w) \<le> maxd)"

lemma watch_dir_within: "watch_within maxd w \<Longrightarrow> watch_within maxd (watch_dir maxd p w)"
  by (auto simp: watch_within_def watch_dir_def)

lemma add_recursive_within:
  "watch_within maxd w \<Longrightarrow> watch_within maxd (add_recursive maxd p t w)"
  "watch_within maxd w \<Longrightarrow> watch_within maxd (add_all maxd p ts w)"
  by (induction maxd p t w and maxd p ts w rule: add_recursive_add_all.induct) (auto simp: watch_dir_within)

lemma add_recursive_fallback:
  "ws_fallback w \<Longrightarrow> add_recursive maxd p t w = w"
  "ws_fallback w \<Longrightarrow> add_all maxd p ts w = w"
  by (induction maxd p t w and maxd p ts w rule: add_recursive_add_all.induct) (auto simp: watch_dir_def)

text \<open>Without a limit, or as long as it is not hit, exactly the directories outside \<open>.backupdata\<close> are watched.\<close>

lemma add_recursive_paths:
  "\<not> ws_fallback (add_recursive maxd p t w) \<Longrightarrow> ws_paths (add_recursive maxd p t w) = ws_paths w @ dir_paths p t"
  "\<not> ws_fallback (add_all maxd p ts w) \<Longrightarrow> ws_paths (add_all maxd p ts w) = ws_paths w @ dirs_paths p ts"
proof (induction maxd p t w and maxd p ts w rule: add_recursive_add_all.induct)
  case (1 maxd p n ts w)
  have "\<not> ws_fallback (watch_dir maxd p w)" if "n \<noteq> ''.backupdata''"
    using 1(2) that add_recursive_fallback(2) by fastforce
  then have "ws_paths (watch_dir maxd p w) = ws_paths w @ [p]" if "n \<noteq> ''.backupdata''"
    using that by (simp add: watch_dir_def split: if_splits)
  then show ?case using 1 by (cases "n = ''.backupdata''") simp_all
next
  case (3 maxd p n ts rest w)
  have "\<not> ws_fallback (add_recursive maxd (p @ ''/'' @ n) (Dir n ts) w)"
    using 3(3) add_recursive_fallback(2) by fastforce
  then show ?case using 3 by simp
qed simp

subsection \<open>The goroutines\<close>

datatype reason = Event | SafetyNet | Start

fun reason_name :: "reason \<Rightarrow> string" where
  "reason_name Event = ''event''"
| "reason_name SafetyNet = ''safety-net''"
| "reason_name Start = ''start''"

text \<open>
  The points of \<open>emit\<close>: before the first send, before the drain, before the send of what is kept,
  before the last attempt. \<open>Blocked\<close> is the plain send of the start signal.
\<close>

datatype point = Idle | Try reason | Drain reason | Put reason | PutLast reason | Blocked reason

definition keep :: "reason \<Rightarrow> reason \<Rightarrow> reason" where
  "keep old r = (if old \<noteq> Event \<and> r = Event then old else r)"

fun emit_step :: "reason option \<Rightarrow> point \<Rightarrow> (reason option \<times> point) option" where
  "emit_step c Idle = None"
| "emit_step None (Try r) = Some (Some r, Idle)"
| "emit_step (Some old) (Try r) = Some (Some old, Drain r)"
| "emit_step (Some old) (Drain r) = Some (None, Put (keep old r))"
| "emit_step None (Drain r) = Some (None, PutLast r)"
| "emit_step None (Put r) = Some (Some r, Idle)"
| "emit_step (Some old) (Put r) = Some (Some old, PutLast r)"
| "emit_step None (PutLast r) = Some (Some r, Idle)"
| "emit_step (Some old) (PutLast r) = Some (Some old, Idle)"
| "emit_step None (Blocked r) = Some (Some r, Idle)"
| "emit_step (Some old) (Blocked r) = None"

datatype goroutine = Debounce | Ticker | Starter

text \<open>
  \<open>wt_timer\<close> is the deadline of the debounce timer, \<open>wt_raw\<close> the slot of the event ports. Three
  fields are ghosts: the time of the last raw event the loop took, whether a change was seen since the
  channel was last read, and whether the ticker fired since a \<open>safety-net\<close> was last read.
\<close>

record watcher =
  wt_now :: nat
  wt_raw :: bool
  wt_timer :: "nat option"
  wt_chan :: "reason option"
  wt_at :: "goroutine \<Rightarrow> point"
  wt_last :: nat
  wt_unseen :: bool
  wt_owed :: bool

definition go :: "goroutine \<Rightarrow> point \<Rightarrow> watcher \<Rightarrow> watcher" where
  "go g x s = s\<lparr>wt_at := (wt_at s)(g := x)\<rparr>"

definition arm :: "nat \<Rightarrow> watcher \<Rightarrow> watcher" where
  "arm d s = s\<lparr>wt_timer := Some (wt_now s + d), wt_last := wt_now s, wt_unseen := True\<rparr>"

definition read_chan :: "reason \<Rightarrow> watcher \<Rightarrow> watcher" where
  "read_chan r s = s\<lparr>wt_chan := None, wt_unseen := False, wt_owed := (wt_owed s \<and> r \<noteq> SafetyNet)\<rparr>"

datatype backend = FsNotify | EventPort

datatype action = Pass nat | Changed string | Take | Fire | Tick | Emit goroutine | Read reason

inductive watch_step :: "backend \<Rightarrow> nat \<Rightarrow> watcher \<Rightarrow> action \<Rightarrow> watcher \<Rightarrow> bool" for b d where
  pass: "watch_step b d s (Pass n) (s\<lparr>wt_now := wt_now s + n\<rparr>)"
| own: "is_backupdata_path p \<Longrightarrow> watch_step b d s (Changed p) s"
| notify: "b = FsNotify \<Longrightarrow> wt_at s Debounce = Idle \<Longrightarrow> \<not> is_backupdata_path p \<Longrightarrow>
    watch_step b d s (Changed p) (arm d s)"
| port: "b = EventPort \<Longrightarrow> \<not> is_backupdata_path p \<Longrightarrow>
    watch_step b d s (Changed p) (s\<lparr>wt_raw := True, wt_unseen := True\<rparr>)"
| take_raw: "b = EventPort \<Longrightarrow> wt_at s Debounce = Idle \<Longrightarrow> wt_raw s \<Longrightarrow>
    watch_step b d s Take ((arm d s)\<lparr>wt_raw := False, wt_unseen := wt_unseen s\<rparr>)"
| fire: "wt_at s Debounce = Idle \<Longrightarrow> wt_timer s = Some x \<Longrightarrow> x \<le> wt_now s \<Longrightarrow>
    watch_step b d s Fire (go Debounce (Try Event) (s\<lparr>wt_timer := None\<rparr>))"
| tick: "wt_at s Ticker = Idle \<Longrightarrow>
    watch_step b d s Tick (go Ticker (Try SafetyNet) (s\<lparr>wt_unseen := True, wt_owed := True\<rparr>))"
| emit: "emit_step (wt_chan s) (wt_at s g) = Some (c, x) \<Longrightarrow>
    watch_step b d s (Emit g) (go g x (s\<lparr>wt_chan := c\<rparr>))"
| read: "wt_chan s = Some r \<Longrightarrow> watch_step b d s (Read r) (read_chan r s)"

inductive_cases fireE [elim!]: "watch_step b d s Fire s'"
inductive_cases emitE [elim!]: "watch_step b d s (Emit g) s'"

definition watch_start :: watcher where
  "watch_start = \<lparr>wt_now = 0, wt_raw = False, wt_timer = None, wt_chan = None,
     wt_at = (\<lambda>g. if g = Starter then Blocked Start else Idle), wt_last = 0, wt_unseen = True, wt_owed = False\<rparr>"

inductive watch_reach :: "backend \<Rightarrow> nat \<Rightarrow> (watcher \<Rightarrow> action \<Rightarrow> bool) \<Rightarrow> watcher \<Rightarrow> bool" for b d G where
  start: "watch_reach b d G watch_start"
| more: "watch_reach b d G s \<Longrightarrow> G s a \<Longrightarrow> watch_step b d s a s' \<Longrightarrow> watch_reach b d G s'"

lemma watch_reach_invariant:
  assumes "watch_reach b d G s" and "I watch_start"
    and "\<And>s a s'. I s \<Longrightarrow> G s a \<Longrightarrow> watch_step b d s a s' \<Longrightarrow> I s'"
  shows "I s"
  using assms(1) by (induction) (use assms(2,3) in blast)+

subsection \<open>No change is lost\<close>

definition busy :: "watcher \<Rightarrow> bool" where
  "busy s \<longleftrightarrow> (\<exists>g. wt_at s g \<noteq> Idle)"

definition awake :: "backend \<Rightarrow> watcher \<Rightarrow> bool" where
  "awake b s \<longleftrightarrow> (wt_unseen s \<longrightarrow> wt_raw s \<or> wt_timer s \<noteq> None \<or> wt_chan s \<noteq> None \<or> busy s) \<and> (wt_raw s \<longrightarrow> b = EventPort)"

lemma emit_step_keeps: "emit_step c x = Some (c', y) \<Longrightarrow> c' \<noteq> None \<or> y \<noteq> Idle"
  by (induction c x rule: emit_step.induct) auto

lemma go_fields [simp]:
  "wt_raw (go g x s) = wt_raw s" "wt_timer (go g x s) = wt_timer s" "wt_chan (go g x s) = wt_chan s"
  "wt_unseen (go g x s) = wt_unseen s" "wt_now (go g x s) = wt_now s" "wt_last (go g x s) = wt_last s" "wt_owed (go g x s) = wt_owed s"
  by (simp_all add: go_def)

lemma busy_go: "x \<noteq> Idle \<Longrightarrow> busy (go g x s)"
  by (auto simp: busy_def go_def)

lemma awake_step: "watch_step b d s a s' \<Longrightarrow> awake b s \<Longrightarrow> awake b s'"
proof (induction rule: watch_step.induct)
  case (emit s g c x)
  then show ?case using emit_step_keeps [OF emit(1)] by (cases "x = Idle") (auto simp: awake_def busy_go)
next
  case (fire s x)
  then show ?case by (simp add: awake_def busy_go)
next
  case (tick s)
  then show ?case by (simp add: awake_def busy_go)
qed (auto simp: awake_def arm_def read_chan_def busy_def)

lemma awake_start: "awake b watch_start"
  by (simp add: awake_def watch_start_def busy_def)

lemma awake_reach: "watch_reach b d G s \<Longrightarrow> awake b s"
  by (erule watch_reach_invariant [where I = "awake b"]) (use awake_start awake_step in blast)+

fun rank :: "point \<Rightarrow> nat" where
  "rank Idle = 0"
| "rank (Try r) = 4"
| "rank (Drain r) = 3"
| "rank (Put r) = 2"
| "rank (PutLast r) = 1"
| "rank (Blocked r) = 1"

lemma emit_step_rank: "emit_step c x = Some (c', y) \<Longrightarrow> rank y < rank x"
  by (induction c x rule: emit_step.induct) auto

text \<open>The steps the goroutines make on their own account, and how many are left.\<close>

fun own_action :: "action \<Rightarrow> bool" where
  "own_action Take = True"
| "own_action Fire = True"
| "own_action (Emit g) = True"
| "own_action _ = False"

definition work :: "watcher \<Rightarrow> nat" where
  "work s = (if wt_raw s then 6 else 0) + (if wt_timer s \<noteq> None then 5 else 0) +
     rank (wt_at s Debounce) + rank (wt_at s Ticker) + rank (wt_at s Starter)"

lemma work_decreases: "watch_step b d s a s' \<Longrightarrow> own_action a \<Longrightarrow> work s' < work s"
proof (induction rule: watch_step.induct)
  case (emit s g c x)
  then show ?case using emit_step_rank [OF emit(1)] by (cases g) (simp_all add: work_def go_def)
qed (auto simp: work_def arm_def go_def)

inductive own_run :: "backend \<Rightarrow> nat \<Rightarrow> watcher \<Rightarrow> nat \<Rightarrow> watcher \<Rightarrow> bool" for b d where
  stop: "own_run b d s 0 s"
| wait: "own_run b d (s\<lparr>wt_now := wt_now s + k\<rparr>) n t \<Longrightarrow> own_run b d s n t"
| act: "watch_step b d s a s' \<Longrightarrow> own_action a \<Longrightarrow> own_run b d s' n t \<Longrightarrow> own_run b d s (Suc n) t"

lemma own_step_unseen: "watch_step b d s a s' \<Longrightarrow> own_action a \<Longrightarrow> wt_unseen s \<Longrightarrow> wt_unseen s'"
  by (induction rule: watch_step.induct) (auto simp: arm_def go_def)

lemma work_time [simp]: "work (s\<lparr>wt_now := n\<rparr>) = work s"
  by (simp add: work_def)

lemma own_run_facts: "own_run b d s n t \<Longrightarrow> awake b s \<Longrightarrow> wt_unseen s \<Longrightarrow> n + work t \<le> work s \<and> awake b t \<and> wt_unseen t"
proof (induction rule: own_run.induct)
  case (wait s k n t)
  moreover have "awake b (s\<lparr>wt_now := wt_now s + k\<rparr>)" using wait.prems(1) by (simp add: awake_def busy_def)
  ultimately show ?case by simp
next
  case (act s a s' n t)
  then have "n + work t \<le> work s' \<and> awake b t \<and> wt_unseen t" using awake_step own_step_unseen by blast
  then show ?case using work_decreases [OF act(1,2)] by simp
qed simp

definition stuck :: "backend \<Rightarrow> nat \<Rightarrow> watcher \<Rightarrow> bool" where
  "stuck b d s \<longleftrightarrow> (\<forall>k a t. own_action a \<longrightarrow> \<not> watch_step b d (s\<lparr>wt_now := wt_now s + k\<rparr>) a t)"

lemma emit_enabled: "x \<noteq> Idle \<Longrightarrow> emit_step None x \<noteq> None"
  by (cases x) auto

lemma stuck_idle:
  assumes "stuck b d s" and "wt_chan s = None"
  shows "wt_at s g = Idle"
proof (rule ccontr)
  assume "wt_at s g \<noteq> Idle"
  then obtain c x where "emit_step (wt_chan s) (wt_at s g) = Some (c, x)"
    using emit_enabled assms(2) by (metis not_None_eq surj_pair)
  then have "watch_step b d (s\<lparr>wt_now := wt_now s + 0\<rparr>) (Emit g) (go g x (s\<lparr>wt_chan := c\<rparr>))"
    using watch_step.emit by simp
  then show False using assms(1) unfolding stuck_def by (metis own_action.simps(3))
qed

lemma stuck_timer:
  assumes "stuck b d s" and "wt_at s Debounce = Idle"
  shows "wt_timer s = None" and "b = EventPort \<Longrightarrow> \<not> wt_raw s"
proof -
  show "wt_timer s = None"
  proof (rule ccontr)
    assume "wt_timer s \<noteq> None"
    then obtain x where "wt_timer s = Some x" by blast
    then have "\<exists>t. watch_step b d (s\<lparr>wt_now := wt_now s + x\<rparr>) Fire t"
      using assms(2) watch_step.fire [of "s\<lparr>wt_now := wt_now s + x\<rparr>" x] by auto
    then show False using assms(1) unfolding stuck_def by (metis own_action.simps(2))
  qed
  show "\<not> wt_raw s" if "b = EventPort"
  proof
    assume "wt_raw s"
    then have "\<exists>t. watch_step b d (s\<lparr>wt_now := wt_now s + 0\<rparr>) Take t"
      using assms(2) that watch_step.take_raw by fastforce
    then show False using assms(1) unfolding stuck_def by (metis own_action.simps(1))
  qed
qed

lemma stuck_is_signalled:
  assumes "awake b s" and "wt_unseen s" and "stuck b d s"
  shows "wt_chan s \<noteq> None"
proof
  assume c: "wt_chan s = None"
  then have "wt_at s g = Idle" for g by (rule stuck_idle [OF assms(3)])
  then show False using assms stuck_timer [OF assms(3)] c by (auto simp: awake_def busy_def)
qed

text \<open>
  C36. No change is lost and no \<open>emit\<close> blocks. From any state that can be reached with a change the pass loop
  has not seen, however the goroutines are scheduled, they make a bounded number of steps of their own
  (given by \<open>work\<close>, at most 20), and when none of them can go on, even after waiting, a signal lies in the
  channel for the pass loop.
\<close>

theorem change_is_signalled:
  assumes "watch_reach b d (\<lambda>s a. True) s" and "wt_unseen s" and "own_run b d s n t"
  shows "n \<le> work s \<and> (stuck b d t \<longrightarrow> wt_chan t \<noteq> None)"
  using own_run_facts [OF assms(3) awake_reach [OF assms(1)] assms(2)] stuck_is_signalled by fastforce

lemma change_is_signalled_witness:
  "own_run FsNotify 500 watch_start 1 (go Starter Idle (watch_start\<lparr>wt_chan := Some Start\<rparr>)) \<and> 1 \<le> work watch_start"
proof -
  have "watch_step FsNotify 500 watch_start (Emit Starter) (go Starter Idle (watch_start\<lparr>wt_chan := Some Start\<rparr>))"
    by (rule watch_step.emit) (simp add: watch_start_def)
  then have r: "own_run FsNotify 500 watch_start 1 (go Starter Idle (watch_start\<lparr>wt_chan := Some Start\<rparr>))"
    using own_run.act [OF _ _ own_run.stop] by (metis One_nat_def own_action.simps(3))
  have "wt_unseen watch_start" by (simp add: watch_start_def)
  then show ?thesis using change_is_signalled [OF watch_reach.start _ r] r by blast
qed

subsection \<open>The debounce window\<close>

definition timed :: "nat \<Rightarrow> watcher \<Rightarrow> bool" where
  "timed d s \<longleftrightarrow> (\<forall>x. wt_timer s = Some x \<longrightarrow> x = wt_last s + d)"

lemma timed_reach: "watch_reach b d G s \<Longrightarrow> timed d s"
proof (rule watch_reach_invariant [where I = "timed d"])
  show "timed d s'" if "timed d s" "watch_step b d s a s'" for s a s'
    using that(2,1) by (induction rule: watch_step.induct) (auto simp: timed_def arm_def go_def read_chan_def)
qed (simp_all add: timed_def watch_start_def)

text \<open>An \<open>event\<close> is only signalled after a full window without a raw event.\<close>

lemma fires_after_quiet: "watch_reach b d G s \<Longrightarrow> watch_step b d s Fire s' \<Longrightarrow> wt_last s + d \<le> wt_now s"
  using timed_reach by (fastforce simp: timed_def)

subsection \<open>The safety net\<close>

fun carries :: "reason \<Rightarrow> point \<Rightarrow> bool" where
  "carries r Idle = False"
| "carries r (Try x) = (x = r)"
| "carries r (Drain x) = (x = r)"
| "carries r (Put x) = (x = r)"
| "carries r (PutLast x) = (x = r)"
| "carries r (Blocked x) = (x = r)"

fun past_drain :: "point \<Rightarrow> bool" where
  "past_drain (Put r) = True"
| "past_drain (PutLast r) = True"
| "past_drain _ = False"

fun offers :: "reason \<Rightarrow> point \<Rightarrow> bool" where
  "offers r (Try x) = (x = r)"
| "offers r (Drain x) = (x = r)"
| "offers r _ = False"

definition alone :: "watcher \<Rightarrow> action \<Rightarrow> bool" where
  "alone s a \<longleftrightarrow> (a = Fire \<or> a = Tick \<longrightarrow> \<not> busy s)"

definition owes :: "watcher \<Rightarrow> bool" where
  "owes s \<longleftrightarrow> (wt_owed s \<longrightarrow> wt_chan s = Some SafetyNet \<or> (\<exists>g. carries SafetyNet (wt_at s g))) \<and>
     (\<forall>g h. wt_at s g \<noteq> Idle \<longrightarrow> wt_at s h \<noteq> Idle \<longrightarrow> g = h) \<and>
     (\<forall>g. past_drain (wt_at s g) \<longrightarrow> wt_chan s = None) \<and> (\<forall>g. \<not> offers Start (wt_at s g))"

lemma emit_step_carries:
  assumes "emit_step c x = Some (c', y)" and "past_drain x \<longrightarrow> c = None" and "\<not> offers Start x"
  shows "c = Some SafetyNet \<or> carries SafetyNet x \<Longrightarrow> c' = Some SafetyNet \<or> carries SafetyNet y"
    and "past_drain y \<longrightarrow> c' = None" and "\<not> offers Start y"
  using assms by (induction c x rule: emit_step.induct) (auto simp: keep_def intro: reason.exhaust)

lemma owes_emit:
  assumes "owes s" and "emit_step (wt_chan s) (wt_at s g) = Some (c, x)"
  shows "owes (go g x (s\<lparr>wt_chan := c\<rparr>))"
proof -
  have g: "wt_at s g \<noteq> Idle" using assms(2) by (cases "wt_at s g") auto
  then have others: "wt_at s h = Idle" if "h \<noteq> g" for h using assms(1) that by (auto simp: owes_def)
  have so: "\<not> offers Start (wt_at s g)" using assms(1) by (simp add: owes_def)
  note e = emit_step_carries [OF assms(2)]
  have pd: "past_drain (wt_at s g) \<longrightarrow> wt_chan s = None" using assms(1) unfolding owes_def by blast
  have "c = Some SafetyNet \<or> carries SafetyNet x" if "wt_owed s"
  proof -
    have "wt_chan s = Some SafetyNet \<or> carries SafetyNet (wt_at s g)"
      using assms(1) that others unfolding owes_def by (metis carries.simps(1))
    then show ?thesis using e(1) pd so by blast
  qed
  moreover have "past_drain x \<longrightarrow> c = None" using e(2) pd so by blast
  moreover have "\<not> offers Start x" using e(3) pd so by blast
  ultimately show ?thesis using others by (auto simp: owes_def go_def)
qed

lemma owes_step: "watch_step b d s a s' \<Longrightarrow> alone s a \<Longrightarrow> owes s \<Longrightarrow> owes s'"
proof (induction rule: watch_step.induct)
  case (emit s g c x)
  then show ?case using owes_emit by blast
next
  case (read s r)
  then show ?case by (auto simp: owes_def read_chan_def)
next
  case (fire s x)
  then show ?case by (auto simp: owes_def go_def alone_def busy_def)
next
  case (tick s)
  then show ?case by (auto simp: owes_def go_def alone_def busy_def)
qed (auto simp: owes_def arm_def)

lemma owes_start: "owes watch_start"
  by (simp add: owes_def watch_start_def)

text \<open>
  The reason that triggers the ACL pass is not swallowed by events. As long as the two emitters do not
  run at the same moment, a \<open>safety-net\<close> the ticker has given and the pass loop has not read is in the
  channel once the emitters are idle, whatever events came before or after it and whenever the loop reads.
\<close>

theorem safety_net_survives:
  assumes "watch_reach b d alone s" and "wt_owed s" and "\<not> busy s"
  shows "wt_chan s = Some SafetyNet"
proof -
  have "owes s"
    using assms(1) by (rule watch_reach_invariant [where I = owes]) (use owes_start owes_step in blast)+
  then show ?thesis using assms(2,3) by (auto simp: owes_def busy_def)
qed

text \<open>A run of the model, for concrete schedules.\<close>

inductive watch_run :: "backend \<Rightarrow> nat \<Rightarrow> (watcher \<Rightarrow> action \<Rightarrow> bool) \<Rightarrow> watcher \<Rightarrow> watcher \<Rightarrow> bool" for b d G where
  refl: "watch_run b d G s s"
| step: "watch_step b d s a s' \<Longrightarrow> G s a \<Longrightarrow> watch_run b d G s' t \<Longrightarrow> watch_run b d G s t"

lemma watch_run_reach: "watch_run b d G s t \<Longrightarrow> watch_reach b d G s \<Longrightarrow> watch_reach b d G t"
  by (induction rule: watch_run.induct) (auto intro: watch_reach.more)

definition emitted :: "goroutine \<Rightarrow> watcher \<Rightarrow> watcher" where
  "emitted g s = (case emit_step (wt_chan s) (wt_at s g) of None \<Rightarrow> s | Some (c, x) \<Rightarrow> go g x (s\<lparr>wt_chan := c\<rparr>))"

definition ticked :: "watcher \<Rightarrow> watcher" where
  "ticked s = go Ticker (Try SafetyNet) (s\<lparr>wt_unseen := True, wt_owed := True\<rparr>)"

definition fired :: "watcher \<Rightarrow> watcher" where
  "fired s = go Debounce (Try Event) (s\<lparr>wt_timer := None\<rparr>)"

lemma run_emit:
  "emit_step (wt_chan s) (wt_at s g) \<noteq> None \<Longrightarrow> G s (Emit g) \<Longrightarrow> watch_run b d G (emitted g s) t \<Longrightarrow> watch_run b d G s t"
  by (rule watch_run.step [of _ _ _ "Emit g" "emitted g s"]) (auto simp: emitted_def intro: watch_step.emit)

lemma run_tick:
  "wt_at s Ticker = Idle \<Longrightarrow> G s Tick \<Longrightarrow> watch_run b d G (ticked s) t \<Longrightarrow> watch_run b d G s t"
  by (rule watch_run.step [of _ _ _ Tick "ticked s"]) (auto simp: ticked_def intro: watch_step.tick)

lemma run_fire:
  "wt_at s Debounce = Idle \<Longrightarrow> wt_timer s = Some x \<Longrightarrow> x \<le> wt_now s \<Longrightarrow> G s Fire \<Longrightarrow> watch_run b d G (fired s) t \<Longrightarrow> watch_run b d G s t"
  by (rule watch_run.step [of _ _ _ Fire "fired s"]) (auto simp: fired_def intro: watch_step.fire)

lemma run_read:
  "wt_chan s = Some r \<Longrightarrow> G s (Read r) \<Longrightarrow> watch_run b d G (read_chan r s) t \<Longrightarrow> watch_run b d G s t"
  by (rule watch_run.step [of _ _ _ "Read r" "read_chan r s"]) (auto intro: watch_step.read)

lemma run_notify:
  "wt_at s Debounce = Idle \<Longrightarrow> \<not> is_backupdata_path p \<Longrightarrow> G s (Changed p) \<Longrightarrow> watch_run FsNotify d G (arm d s) t \<Longrightarrow> watch_run FsNotify d G s t"
  by (rule watch_run.step [of _ _ _ "Changed p" "arm d s"]) (auto intro: watch_step.notify)

lemma run_pass: "G s (Pass n) \<Longrightarrow> watch_run b d G (s\<lparr>wt_now := wt_now s + n\<rparr>) t \<Longrightarrow> watch_run b d G s t"
  by (rule watch_run.step [OF watch_step.pass])

definition ex_kept :: watcher where
  "ex_kept = emitted Ticker (emitted Ticker (emitted Ticker (ticked (emitted Starter watch_start))))"

lemma watch_all: "P Debounce \<Longrightarrow> P Ticker \<Longrightarrow> P Starter \<Longrightarrow> P g"
  by (cases g) auto

lemmas watch_eval = emitted_def ticked_def fired_def go_def watch_start_def keep_def alone_def arm_def read_chan_def

lemma ex_kept_reach: "watch_reach FsNotify 500 alone ex_kept"
proof (rule watch_run_reach [OF _ watch_reach.start])
  have idle: "\<not> busy (emitted Starter watch_start)"
    by (auto simp: busy_def watch_eval)
  show "watch_run FsNotify 500 alone watch_start ex_kept"
    unfolding ex_kept_def
    by (rule run_emit [of _ Starter], simp add: watch_eval, simp add: watch_eval,
        rule run_tick, simp add: watch_eval, simp add: alone_def idle,
        (rule run_emit [of _ Ticker], simp add: watch_eval, simp add: watch_eval)+, rule watch_run.refl)
qed

lemma safety_net_survives_witness: "watch_reach FsNotify 500 alone ex_kept \<and> wt_owed ex_kept \<and> wt_chan ex_kept = Some SafetyNet"
proof -
  have o: "wt_owed ex_kept" by (simp add: ex_kept_def watch_eval)
  have "wt_at ex_kept g = Idle" for g by (rule watch_all) (simp_all add: ex_kept_def watch_eval)
  then have "\<not> busy ex_kept" by (simp add: busy_def)
  from safety_net_survives [OF ex_kept_reach o this] show ?thesis using ex_kept_reach o by blast
qed

text \<open>
  When the two emitters do overlap, the reason is lost: the ticker finds an \<open>event\<close> in the channel and takes
  it out, the debounce loop puts its own \<open>event\<close> into the free slot, and both sends of \<open>emit\<close> find it full.
\<close>

definition ex_before :: watcher where
  "ex_before = (arm 0 (emitted Debounce (fired (arm 0 (read_chan Start (emitted Starter watch_start))))))"

definition ex_lost :: watcher where
  "ex_lost = emitted Ticker (emitted Ticker (emitted Debounce (fired (emitted Ticker (emitted Ticker (ticked ex_before))))))"

lemma watch_run_trans: "watch_run b d G s t \<Longrightarrow> watch_run b d G t u \<Longrightarrow> watch_run b d G s u"
  by (induction rule: watch_run.induct) (auto intro: watch_run.step)

lemma run_to_before: "watch_run FsNotify 0 (\<lambda>s a. True) watch_start ex_before"
proof -
  have p: "\<not> is_backupdata_path ''a''" by (simp add: is_backupdata_path_def split_on_word)
  show ?thesis
    unfolding ex_before_def
    by (rule run_emit [of _ Starter], simp add: watch_eval, simp, rule run_read, simp add: watch_eval, simp,
        rule run_notify [OF _ p], simp add: watch_eval, simp, rule run_fire, simp add: watch_eval, simp add: watch_eval, simp add: watch_eval, simp,
        rule run_emit [of _ Debounce], simp add: watch_eval, simp, rule run_notify [OF _ p], simp add: watch_eval, simp, rule watch_run.refl)
qed

lemma run_to_lost: "watch_run FsNotify 0 (\<lambda>s a. True) ex_before ex_lost"
  unfolding ex_lost_def
  by (rule run_tick, simp add: ex_before_def watch_eval, simp,
      rule run_emit [of _ Ticker], simp add: ex_before_def watch_eval, simp, rule run_emit [of _ Ticker], simp add: ex_before_def watch_eval, simp,
      rule run_fire, simp add: ex_before_def watch_eval, simp add: ex_before_def watch_eval, simp add: ex_before_def watch_eval, simp,
      rule run_emit [of _ Debounce], simp add: ex_before_def watch_eval, simp,
      (rule run_emit [of _ Ticker], simp add: ex_before_def watch_eval, simp)+, rule watch_run.refl)

lemma safety_net_race:
  "\<exists>s. watch_reach FsNotify 0 (\<lambda>s a. True) s \<and> wt_owed s \<and> \<not> busy s \<and> wt_chan s = Some Event"
proof (intro exI conjI)
  show "watch_reach FsNotify 0 (\<lambda>s a. True) ex_lost"
    by (rule watch_run_reach [OF watch_run_trans [OF run_to_before run_to_lost] watch_reach.start])
  show "wt_owed ex_lost" "wt_chan ex_lost = Some Event" by (simp_all add: ex_lost_def ex_before_def watch_eval)
  have "wt_at ex_lost g = Idle" for g by (rule watch_all) (simp_all add: ex_lost_def ex_before_def watch_eval)
  then show "\<not> busy ex_lost" by (simp add: busy_def)
qed

end
