(* ===== verification/AclCsv.thy ===== *)
theory AclCsv
  imports Persist GoStrings
begin

section \<open>The table of folder ACLs\<close>

text \<open>
  \<open>WriteACLCSV\<close>, \<open>ReadACLCSV\<close> and \<open>MirrorACLCSV\<close> of \<open>internal/state/aclcsv.go\<close>: one record
  \<open>path;acltype;acl\<close> for every directory, written and read with the \<open>encoding/csv\<close> package of Go's
  library, separator \<open>;\<close>, three fields per record. A file is a slot of the theory \<open>Persist\<close>, its
  content the text.
\<close>

abbreviation (input) nl :: char where "nl \<equiv> CHR 0x0A"
abbreviation (input) cr :: char where "cr \<equiv> CHR 0x0D"
abbreviation (input) quo :: char where "quo \<equiv> CHR 0x22"
abbreviation (input) semi :: char where "semi \<equiv> CHR '';''"

subsection \<open>Writing\<close>

text \<open>\<open>unicode.IsSpace\<close> of the first rune, in UTF-8.\<close>

definition lead_space :: "string \<Rightarrow> bool" where
  "lead_space s \<longleftrightarrow>
     list_ex (has_prefix s) [[CHR 0x09], [CHR 0x0A], [CHR 0x0B], [CHR 0x0C], [CHR 0x0D], [CHR 0x20], [CHR 0xC2, CHR 0x85], [CHR 0xC2, CHR 0xA0],
       [CHR 0xE1, CHR 0x9A, CHR 0x80], [CHR 0xE2, CHR 0x80, CHR 0xA8], [CHR 0xE2, CHR 0x80, CHR 0xA9],
       [CHR 0xE2, CHR 0x80, CHR 0xAF], [CHR 0xE2, CHR 0x81, CHR 0x9F], [CHR 0xE3, CHR 0x80, CHR 0x80]] \<or>
     (has_prefix s [CHR 0xE2, CHR 0x80] \<and> length s > 2 \<and> CHR 0x80 \<le> s ! 2 \<and> s ! 2 \<le> CHR 0x8A)"

definition needs_quotes :: "string \<Rightarrow> bool" where
  "needs_quotes f \<longleftrightarrow> f \<noteq> [] \<and>
     (f = [CHR 0x5C, CHR ''.''] \<or> list_ex (\<lambda>c. c = semi \<or> c = quo \<or> c = cr \<or> c = nl) f \<or> lead_space f)"

definition doubled :: "string \<Rightarrow> string" where
  "doubled f = concat (map (\<lambda>c. if c = quo then [quo, quo] else [c]) f)"

definition csv_field :: "string \<Rightarrow> string" where
  "csv_field f = (if needs_quotes f then quo # doubled f @ [quo] else f)"

definition csv_record :: "string list \<Rightarrow> string" where
  "csv_record fs = join_with semi (map csv_field fs) @ [nl]"

definition acl_rows :: "string \<Rightarrow> string \<Rightarrow> tree \<Rightarrow> string list list" where
  "acl_rows acltype root_acl t =
     (if root_acl \<noteq> [] then [[''.'', acltype, root_acl]] else []) @
     map (\<lambda>(q, e). [e_path e, acltype, e_acl e]) (filter (\<lambda>(q, e). e_type e = TypeDir) t)"

definition acl_csv_text :: "string \<Rightarrow> string \<Rightarrow> tree \<Rightarrow> string" where
  "acl_csv_text acltype root_acl t = concat (map csv_record (acl_rows acltype root_acl t))"

subsection \<open>Reading\<close>

text \<open>
  The reader takes the text line by line, drops the \<open>\r\<close> of a \<open>\r\n\<close> (also inside quotes) and one at
  the very end.
\<close>

fun normalize :: "string \<Rightarrow> string" where
  "normalize [] = []"
| "normalize (c # s) = (if c = cr \<and> (s = [] \<or> hd s = nl) then normalize s else c # normalize s)"

text \<open>One field: its text, whether another one follows in the record, and the rest of the input.\<close>

fun in_quotes :: "string \<Rightarrow> (string \<times> bool \<times> string) option" where
  "in_quotes [] = None"
| "in_quotes [c] = (if c = quo then Some ([], False, []) else None)"
| "in_quotes (c # d # s) =
     (if c \<noteq> quo then map_option (\<lambda>(f, r). (c # f, r)) (in_quotes (d # s))
      else if d = quo then map_option (\<lambda>(f, r). (quo # f, r)) (in_quotes s)
      else if d = semi then Some ([], True, s)
      else if d = nl then Some ([], False, s)
      else None)"

definition bare :: "string \<Rightarrow> (string \<times> bool \<times> string) option" where
  "bare s =
     (let f = takeWhile (\<lambda>c. c \<noteq> semi \<and> c \<noteq> nl) s; r = dropWhile (\<lambda>c. c \<noteq> semi \<and> c \<noteq> nl) s
      in if quo \<in> set f then None else case r of [] \<Rightarrow> Some (f, False, []) | c # t \<Rightarrow> Some (f, c = semi, t))"

definition cut_field :: "string \<Rightarrow> (string \<times> bool \<times> string) option" where
  "cut_field s = (case s of [] \<Rightarrow> bare s | c # t \<Rightarrow> if c = quo then in_quotes t else bare s)"

lemma in_quotes_shorter: "in_quotes s = Some (f, m, r) \<Longrightarrow> length r < length s"
  by (induction s arbitrary: f rule: in_quotes.induct) (fastforce split: if_splits)+

lemma bare_shorter: "bare s = Some (f, m, r) \<Longrightarrow> length r < length s \<or> (r = [] \<and> \<not> m \<and> s = [])"
proof -
  assume b: "bare s = Some (f, m, r)"
  have "length (dropWhile P s) \<le> length s" for P :: "char \<Rightarrow> bool" by (rule length_dropWhile_le)
  from this [of "\<lambda>c. c \<noteq> semi \<and> c \<noteq> nl"] b show ?thesis
    by (cases s) (auto simp: bare_def Let_def split: if_splits list.splits)
qed

lemma cut_field_shorter: "cut_field s = Some (f, m, r) \<Longrightarrow> length r < length s \<or> (r = [] \<and> \<not> m \<and> s = [])"
  using in_quotes_shorter bare_shorter by (fastforce simp: cut_field_def split: list.splits if_splits)

function read_fields :: "string \<Rightarrow> (string list \<times> string) option" where
  "read_fields s =
     (case cut_field s of
        None \<Rightarrow> None
      | Some (f, m, r) \<Rightarrow> if m then map_option (\<lambda>(fs, t). (f # fs, t)) (read_fields r) else Some ([f], r))"
  by pat_completeness auto
termination
  by (relation "measure length") (use cut_field_shorter in fastforce)+

declare read_fields.simps [simp del]

lemma read_fields_shorter: "read_fields s = Some (fs, r) \<Longrightarrow> s \<noteq> [] \<Longrightarrow> length r < length s"
proof (induction s arbitrary: fs r rule: read_fields.induct)
  case (1 s)
  obtain f m t where c: "cut_field s = Some (f, m, t)"
    using 1(2) by (subst (asm) read_fields.simps) (auto split: option.splits)
  have l: "length t < length s" using cut_field_shorter [OF c] 1(3) by auto
  show ?case
  proof (cases "m \<and> t \<noteq> []")
    case True
    then show ?thesis
      using 1(1) [OF c] 1(2) c l by (subst (asm) (2) read_fields.simps) (fastforce)
  next
    case False
    have e: "read_fields [] = Some ([[]], [])"
      by (subst read_fields.simps) (simp add: cut_field_def bare_def)
    show ?thesis
      using False 1(2,3) c l by (subst (asm) read_fields.simps) (auto simp: e split: if_splits)
  qed
qed

function read_records :: "string \<Rightarrow> string list list" where
  "read_records s =
     (case s of
        [] \<Rightarrow> []
      | c # t \<Rightarrow>
          if c = nl then read_records t
          else (case read_fields s of
              None \<Rightarrow> []
            | Some (fs, r) \<Rightarrow> if length fs \<noteq> 3 then [] else fs # read_records r))"
  by pat_completeness auto
termination
  by (relation "measure length") (use read_fields_shorter in fastforce)+

declare read_records.simps [simp del]

definition read_acl_csv :: "string \<Rightarrow> (string, string) amap" where
  "read_acl_csv s = fold (\<lambda>fs m. AList.update (fs ! 0) (fs ! 2) m) (read_records (normalize s)) []"

subsection \<open>The store\<close>

text \<open>
  \<open>WriteACLCSV\<close> checks every step but does not sync; a failing rename leaves the temporary file.
\<close>

fun save_acl_csv :: "outcome \<Rightarrow> string \<Rightarrow> string slot \<Rightarrow> string slot \<times> bool" where
  "save_acl_csv (Fails StCreate) v s = (s, False)"
| "save_acl_csv (Fails StEncode) v s = (remove_tmp (after_create s), False)"
| "save_acl_csv (Fails StClose) v s = (remove_tmp (after_encode v (after_create s)), False)"
| "save_acl_csv (Fails StRename) v s = (after_encode v (after_create s), False)"
| "save_acl_csv (Dies StCreate) v s = (after_create s, False)"
| "save_acl_csv (Dies StEncode) v s = (after_encode v (after_create s), False)"
| "save_acl_csv (Dies StClose) v s = (after_encode v (after_create s), False)"
| "save_acl_csv (Dies StRename) v s = (after_rename (after_encode v (after_create s)), False)"
| "save_acl_csv _ v s = (after_rename (after_encode v (after_create s)), True)"

definition load_acl_csv :: "string slot \<Rightarrow> string" where
  "load_acl_csv s = load_file [] s"

text \<open>\<open>MirrorACLCSV\<close>: a missing source is no error, an unreadable one is. \<open>WriteFile\<close> has no sync.\<close>

definition mirror_acl_csv :: "outcome \<Rightarrow> string slot \<Rightarrow> string slot \<Rightarrow> string slot \<times> bool" where
  "mirror_acl_csv oc src dst =
     (case sl_final src of
        Missing \<Rightarrow> (dst, True)
      | Garbage \<Rightarrow> (dst, False)
      | Stored v \<Rightarrow>
          (case oc of
             Fails StCreate \<Rightarrow> (dst, False)
           | Fails StEncode \<Rightarrow> (after_create dst, False)
           | Fails StClose \<Rightarrow> (after_encode v (after_create dst), False)
           | _ \<Rightarrow> save_acl_csv oc v dst))"

lemma save_acl_csv_atomic:
  "load_file e (fst (save_acl_csv AllOk v s)) = v"
  "load_file e (fst (save_acl_csv oc v s)) = v \<or> load_file e (fst (save_acl_csv oc v s)) = load_file e s"
  by (simp add: slot_defs) (cases "(oc, v, s)" rule: save_acl_csv.cases; simp add: slot_defs)

interpretation acl_csv: atomic_store "\<lambda>oc v s. fst (save_acl_csv oc v s)" load_acl_csv
  by unfold_locales (auto simp: load_acl_csv_def save_acl_csv_atomic simp del: save_acl_csv.simps)

lemma load_acl_csv_tmp: "load_acl_csv (after_create s) = load_acl_csv s" "load_acl_csv (after_encode v s) = load_acl_csv s"
  by (simp_all add: load_acl_csv_def slot_defs)

lemma mirror_atomic: "load_acl_csv (fst (mirror_acl_csv oc src dst)) \<in> {load_acl_csv dst, load_acl_csv src}"
proof (cases "sl_final src")
  case (Stored v)
  have l: "load_acl_csv src = v" using Stored by (simp add: load_acl_csv_def load_file_def)
  have k: "load_acl_csv (fst (save_acl_csv c v dst)) \<in> {load_acl_csv dst, load_acl_csv src}" for c
    using save_acl_csv_atomic(2) [of "[]" c v dst] l by (auto simp: load_acl_csv_def)
  show ?thesis
    unfolding mirror_acl_csv_def Stored stored_file.simps
    by (cases oc) (auto simp: load_acl_csv_tmp k simp del: save_acl_csv.simps insert_iff intro: insertI1 k split: step.splits)
qed (simp_all add: mirror_acl_csv_def)

subsection \<open>The round trip\<close>

definition no_crlf :: "string \<Rightarrow> bool" where
  "no_crlf s \<longleftrightarrow> successively (\<lambda>x y. \<not> (x = cr \<and> y = nl)) s"

lemma normalize_same: "no_crlf s \<Longrightarrow> (s \<noteq> [] \<longrightarrow> last s \<noteq> cr) \<Longrightarrow> normalize s = s"
proof (induction s)
  case (Cons c s)
  then show ?case by (cases s) (auto simp: no_crlf_def)
qed simp

lemma no_crlf_append: "no_crlf a \<Longrightarrow> no_crlf b \<Longrightarrow> (a \<noteq> [] \<Longrightarrow> last a \<noteq> cr) \<Longrightarrow> no_crlf (a @ b)"
  by (auto simp: no_crlf_def successively_append_iff)

lemma doubled_simps [simp]: "doubled [] = []" "doubled (c # s) = (if c = quo then quo # quo # doubled s else c # doubled s)"
  by (simp_all add: doubled_def)

lemma hd_doubled: "s \<noteq> [] \<Longrightarrow> hd (doubled s) = hd s"
  by (cases s) simp_all

lemma doubled_Nil [simp]: "doubled s = [] \<longleftrightarrow> s = []"
  by (cases s) simp_all

lemma no_crlf_Cons: "no_crlf (c # s) \<longleftrightarrow> no_crlf s \<and> (s = [] \<or> c \<noteq> cr \<or> hd s \<noteq> nl)"
  by (cases s) (auto simp: no_crlf_def)

lemma no_crlf_doubled: "no_crlf s \<Longrightarrow> no_crlf (doubled s)"
proof (induction s)
  case (Cons c s)
  have "doubled s = [] \<or> hd (doubled s) = hd s" using hd_doubled by (cases s) auto
  then show ?case using Cons by (auto simp: no_crlf_Cons)
qed simp

lemma no_crlf_field: "no_crlf f \<Longrightarrow> no_crlf (csv_field f)"
proof -
  assume f: "no_crlf f"
  have "no_crlf (doubled f @ [quo])"
    using no_crlf_doubled [OF f] by (auto simp: no_crlf_def successively_append_iff)
  then show ?thesis using f by (auto simp: csv_field_def no_crlf_Cons)
qed

lemma bare_chars: "\<not> needs_quotes f \<Longrightarrow> c \<in> set f \<Longrightarrow> c \<noteq> semi \<and> c \<noteq> quo \<and> c \<noteq> cr \<and> c \<noteq> nl"
  by (cases f) (auto simp: needs_quotes_def list_ex_iff)

lemma last_field: "csv_field f \<noteq> [] \<Longrightarrow> last (csv_field f) \<noteq> cr"
  using bare_chars [of f "last f"] by (auto simp: csv_field_def split: if_splits)

lemma in_quotes_Cons: "c \<noteq> quo \<Longrightarrow> s \<noteq> [] \<Longrightarrow> in_quotes (c # s) = map_option (\<lambda>(f, r). (c # f, r)) (in_quotes s)"
  by (cases s) simp_all

lemma in_quotes_doubled:
  "in_quotes (doubled f @ quo # semi # r) = Some (f, True, r)" "in_quotes (doubled f @ quo # nl # r) = Some (f, False, r)"
  by (induction f) (simp_all add: in_quotes_Cons)

lemma bare_word:
  assumes "\<not> needs_quotes f"
  shows "bare (f @ semi # r) = Some (f, True, r)" and "bare (f @ nl # r) = Some (f, False, r)"
proof -
  have "takeWhile (\<lambda>c. c \<noteq> semi \<and> c \<noteq> nl) (f @ x # r) = f \<and> dropWhile (\<lambda>c. c \<noteq> semi \<and> c \<noteq> nl) (f @ x # r) = x # r" if "x = semi \<or> x = nl" for x
    using bare_chars [OF assms] that by (auto simp: takeWhile_append dropWhile_append3)
  moreover have "quo \<notin> set f" using bare_chars [OF assms] by blast
  ultimately show "bare (f @ semi # r) = Some (f, True, r)" "bare (f @ nl # r) = Some (f, False, r)"
    by (simp_all add: bare_def Let_def)
qed

lemma cut_field_bare: "\<not> needs_quotes f \<Longrightarrow> x \<noteq> quo \<Longrightarrow> cut_field (f @ x # r) = bare (f @ x # r)"
  using bare_chars [of f] by (cases f) (auto simp: cut_field_def)

lemma cut_field_written:
  "cut_field (csv_field f @ semi # r) = Some (f, True, r)"
  "cut_field (csv_field f @ nl # r) = Some (f, False, r)"
proof -
  show "cut_field (csv_field f @ semi # r) = Some (f, True, r)"
    by (cases "needs_quotes f") (simp_all add: csv_field_def cut_field_bare bare_word, simp add: cut_field_def in_quotes_doubled)
  show "cut_field (csv_field f @ nl # r) = Some (f, False, r)"
    by (cases "needs_quotes f") (simp_all add: csv_field_def cut_field_bare bare_word, simp add: cut_field_def in_quotes_doubled)
qed

lemma csv_record_ne [simp]: "csv_record fs \<noteq> []"
  by (simp add: csv_record_def)

lemma read_fields_record: "fs \<noteq> [] \<Longrightarrow> read_fields (csv_record fs @ r) = Some (fs, r)"
proof (induction fs)
  case (Cons f fs)
  show ?case
  proof (cases "fs = []")
    case True
    then show ?thesis by (subst read_fields.simps) (simp add: csv_record_def cut_field_written)
  next
    case False
    then have "csv_record (f # fs) @ r = csv_field f @ semi # (csv_record fs @ r)"
      by (simp add: csv_record_def join_with_Cons)
    then show ?thesis using Cons.IH [OF False] by (subst read_fields.simps) (simp add: cut_field_written)
  qed
qed simp

lemma read_records_written:
  "\<forall>fs \<in> set rows. length fs = 3 \<Longrightarrow> read_records (concat (map csv_record rows)) = rows"
proof (induction rows)
  case Nil
  then show ?case by (subst read_records.simps) simp
next
  case (Cons fs rows)
  then obtain a b c where fs: "fs = [a, b, c]" by (auto simp: numeral_3_eq_3 length_Suc_conv)
  let ?s = "concat (map csv_record (fs # rows))"
  have s: "?s = csv_field a @ semi # csv_field b @ semi # csv_field c @ nl # concat (map csv_record rows)"
    by (simp add: fs csv_record_def join_with_Cons)
  obtain h t where ht: "?s = h # t" by (cases ?s) (auto simp: s)
  have "h \<noteq> nl"
  proof
    assume "h = nl"
    then have "csv_field a \<noteq> [] \<and> hd (csv_field a) = nl" using ht s by (cases "csv_field a") auto
    then show False using bare_chars [of a nl] by (cases a) (auto simp: csv_field_def split: if_splits)
  qed
  moreover have "read_fields ?s = Some (fs, concat (map csv_record rows))"
    using read_fields_record [of fs] fs by simp
  moreover have "length fs = 3" "read_records (concat (map csv_record rows)) = rows" using Cons by simp_all
  ultimately show ?case by (subst read_records.simps) (simp add: ht del: concat.simps list.map)
qed

lemma no_crlf_nl: "no_crlf s \<Longrightarrow> (s \<noteq> [] \<longrightarrow> last s \<noteq> cr) \<Longrightarrow> no_crlf (s @ [nl])"
  by (auto simp: no_crlf_def successively_append_iff)

lemma no_crlf_join: "\<forall>f \<in> set fs. no_crlf f \<Longrightarrow> no_crlf (join_with semi (map csv_field fs)) \<and>
   (join_with semi (map csv_field fs) \<noteq> [] \<longrightarrow> last (join_with semi (map csv_field fs)) \<noteq> cr)"
proof (induction fs)
  case (Cons f fs)
  show ?case
  proof (cases "fs = []")
    case True
    then show ?thesis using Cons.prems no_crlf_field last_field by simp
  next
    case False
    have "no_crlf (semi # join_with semi (map csv_field fs))" using Cons by (simp add: no_crlf_Cons)
    then have "no_crlf (csv_field f @ semi # join_with semi (map csv_field fs))"
      using Cons.prems no_crlf_append [OF no_crlf_field] last_field by simp
    then show ?thesis using Cons False by (auto simp: join_with_Cons)
  qed
qed (simp add: no_crlf_def)

lemma no_crlf_record: "\<forall>f \<in> set fs. no_crlf f \<Longrightarrow> no_crlf (csv_record fs)"
  using no_crlf_join no_crlf_nl unfolding csv_record_def by blast

lemma last_record [simp]: "last (csv_record fs) = nl"
  by (simp add: csv_record_def)

lemma no_crlf_text: "\<forall>fs \<in> set rows. \<forall>f \<in> set fs. no_crlf f \<Longrightarrow> no_crlf (concat (map csv_record rows))"
  by (induction rows) (auto intro!: no_crlf_append no_crlf_record simp: no_crlf_def [of "[]"])

lemma last_text: "rows \<noteq> [] \<Longrightarrow> last (concat (map csv_record rows)) = nl"
  by (induction rows) (auto simp: last_append)

lemma read_written_rows:
  assumes "\<forall>fs \<in> set rows. length fs = 3 \<and> (\<forall>f \<in> set fs. no_crlf f)"
  shows "read_records (normalize (concat (map csv_record rows))) = rows"
proof -
  have "normalize (concat (map csv_record rows)) = concat (map csv_record rows)"
    using assms no_crlf_text [of rows] last_text [of rows] by (intro normalize_same) (cases rows, auto)+
  then show ?thesis using assms read_records_written by simp
qed

text \<open>Writing and reading on the level of trees.\<close>

definition acl_tree_ok :: "tree \<Rightarrow> bool" where
  "acl_tree_ok t \<longleftrightarrow> amap_ok t \<and>
     (\<forall>(q, e) \<in> set t. e_path e = q \<and> q \<noteq> ''.'' \<and> no_crlf q \<and> no_crlf (e_acl e))"

definition dirs_of :: "tree \<Rightarrow> (string, string) amap" where
  "dirs_of t = map (\<lambda>(q, e). (q, e_acl e)) (filter (\<lambda>(q, e). e_type e = TypeDir) t)"

definition acl_pairs :: "string \<Rightarrow> tree \<Rightarrow> (string, string) amap" where
  "acl_pairs root_acl t = (if root_acl \<noteq> [] then [(''.'', root_acl)] else []) @ dirs_of t"

lemma acl_rows_pairs:
  assumes "acl_tree_ok t"
  shows "map (\<lambda>fs. (fs ! 0, fs ! 2)) (acl_rows acltype root_acl t) = acl_pairs root_acl t"
  using assms by (auto simp: acl_rows_def acl_pairs_def dirs_of_def acl_tree_ok_def)

lemma acl_rows_ok:
  assumes "acl_tree_ok t" and "no_crlf acltype" and "no_crlf root_acl"
  shows "\<forall>fs \<in> set (acl_rows acltype root_acl t). length fs = 3 \<and> (\<forall>f \<in> set fs. no_crlf f)"
  using assms by (auto simp: acl_rows_def acl_tree_ok_def no_crlf_def [of "''.''"])

lemma update_new: "k \<notin> fst ` set m \<Longrightarrow> AList.update k v m = m @ [(k, v)]"
  by (induction m) auto

lemma fold_update_append:
  "distinct (map fst m @ map fst xs) \<Longrightarrow> fold (\<lambda>(k, v) m. AList.update k v m) xs m = m @ xs"
proof (induction xs arbitrary: m)
  case (Cons x xs)
  obtain k v where x: "x = (k, v)" by (cases x)
  have "AList.update k v m = m @ [(k, v)]" using Cons.prems by (intro update_new) (auto simp: x)
  then show ?case using Cons.IH [of "m @ [(k, v)]"] Cons.prems by (simp add: x)
qed simp

lemma dirs_of_keys: "map fst (dirs_of t) = map fst (filter (\<lambda>(q, e). e_type e = TypeDir) t)"
  by (auto simp: dirs_of_def)

lemma acl_pairs_distinct: "acl_tree_ok t \<Longrightarrow> distinct (map fst (acl_pairs root_acl t))"
proof -
  assume t: "acl_tree_ok t"
  then have "distinct (map fst (dirs_of t))"
    unfolding dirs_of_keys acl_tree_ok_def amap_ok_def by (simp add: distinct_map inj_on_def)
  moreover have "''.'' \<notin> set (map fst (dirs_of t))"
    using t by (auto simp: dirs_of_def acl_tree_ok_def)
  ultimately show ?thesis by (simp add: acl_pairs_def)
qed

lemma read_written_acls:
  assumes "acl_tree_ok t" and "no_crlf acltype" and "no_crlf root_acl"
  shows "read_acl_csv (acl_csv_text acltype root_acl t) = acl_pairs root_acl t"
proof -
  have "read_acl_csv (acl_csv_text acltype root_acl t) =
      fold (\<lambda>fs m. AList.update (fs ! 0) (fs ! 2) m) (acl_rows acltype root_acl t) []"
    unfolding read_acl_csv_def acl_csv_text_def by (simp only: read_written_rows [OF acl_rows_ok [OF assms]])
  also have "\<dots> = fold (\<lambda>(k, v) m. AList.update k v m) (map (\<lambda>fs. (fs ! 0, fs ! 2)) (acl_rows acltype root_acl t)) []"
    by (simp add: fold_map comp_def)
  also have "\<dots> = acl_pairs root_acl t"
    unfolding acl_rows_pairs [OF assms(1)] using fold_update_append [of "[]" "acl_pairs root_acl t"] acl_pairs_distinct [OF assms(1)] by simp
  finally show ?thesis .
qed

lemma map_of_dirs_of:
  "amap_ok t \<Longrightarrow> map_of (dirs_of t) q =
     (case map_of t q of None \<Rightarrow> None | Some e \<Rightarrow> if e_type e = TypeDir then Some (e_acl e) else None)"
proof (induction t)
  case (Cons x t)
  obtain k e where x: "x = (k, e)" by (cases x)
  have "map_of t k = None" using Cons.prems by (simp add: x amap_ok_def map_of_eq_None_iff)
  moreover have "map_of (dirs_of t) q = (case map_of t q of None \<Rightarrow> None | Some e \<Rightarrow> if e_type e = TypeDir then Some (e_acl e) else None)"
    using Cons by (simp add: amap_ok_def)
  ultimately show ?case by (auto simp: x dirs_of_def)
qed (simp add: dirs_of_def)

text \<open>
  C38. The table of folder ACLs is read back exactly as it was written: every directory of the tree with
  its ACL, the root under \<open>.\<close>, in the same order and nothing else, whatever separators, quotes, spaces
  and line ends the paths and ACL texts contain, except the two-byte line end \<open>\r\n\<close>, which the reader
  turns into \<open>\n\<close>.
\<close>

theorem acl_csv_roundtrip:
  assumes "acl_tree_ok t" and "no_crlf acltype" and "no_crlf root_acl"
  shows "read_acl_csv (acl_csv_text acltype root_acl t) = acl_pairs root_acl t"
  by (rule read_written_acls [OF assms])

definition ex_acl_tree :: tree where
  "ex_acl_tree = [(''a;b'', zero_entry\<lparr>e_path := ''a;b'', e_type := TypeDir, e_acl := ''user:x'' @ [nl, quo]\<rparr>)]"

lemma acl_csv_roundtrip_witness:
  "acl_tree_ok ex_acl_tree \<and> read_acl_csv (acl_csv_text ''posix'' ''u'' ex_acl_tree) = [(''.'', ''u''), (''a;b'', ''user:x'' @ [nl, quo])]"
proof -
  have t: "acl_tree_ok ex_acl_tree"
    by (simp add: acl_tree_ok_def ex_acl_tree_def amap_ok_def no_crlf_def)
  have n: "no_crlf ''posix''" "no_crlf ''u''" by (simp_all add: no_crlf_def)
  show ?thesis
    using acl_csv_roundtrip [OF t n] t by (simp add: acl_pairs_def dirs_of_def ex_acl_tree_def)
qed

text \<open>The exception is a real one.\<close>

lemma crlf_is_not_kept: "read_acl_csv (csv_record [[CHR ''a'', cr, nl, CHR ''b''], ''x'', ''y'']) = [([CHR ''a'', nl, CHR ''b''], ''y'')]"
proof -
  let ?w = "csv_record [[CHR ''a'', nl, CHR ''b''], ''x'', ''y'']"
  have "normalize (csv_record [[CHR ''a'', cr, nl, CHR ''b''], ''x'', ''y'']) = ?w"
    by (simp add: csv_record_def csv_field_def needs_quotes_def lead_space_def has_prefix_def)
  moreover have "read_records ?w = [[[CHR ''a'', nl, CHR ''b''], ''x'', ''y'']]"
    using read_records_written [of "[[[CHR ''a'', nl, CHR ''b''], ''x'', ''y'']]"] by simp
  ultimately show ?thesis by (simp add: read_acl_csv_def)
qed

end
