(* ===== verification/Bootstrap.thy ===== *)
theory Bootstrap
  imports AclCsv Merge
begin

section \<open>Folder ACLs at the start of the service\<close>

text \<open>
  \<open>bootstrapACL\<close> of \<open>main.go\<close> with \<open>chooseACLSource\<close> and \<open>aclCSVMatches\<close>: before the first pass, the
  ACLs of the last run are put back on the folders of the primary and from there on those of the
  secondary. The world is the ACL of every folder of the two sides, by relative path (the root is
  \<open>.\<close>). The scans and the success of every call of the ACL tools are arguments; a call that succeeds
  sets the ACL of its folder and of no other one.
\<close>

record acl_world =
  aw_primary :: "string \<Rightarrow> string"
  aw_secondary :: "string \<Rightarrow> string"

record boot_env =
  bo_scan :: "tree option"
  bo_scan2 :: "tree option"
  bo_apply :: "side \<Rightarrow> string \<Rightarrow> bool"
  bo_read :: "string \<Rightarrow> bool"

definition is_dir_in :: "tree \<Rightarrow> string \<Rightarrow> bool" where
  "is_dir_in t q \<longleftrightarrow> (case map_of t q of None \<Rightarrow> False | Some e \<Rightarrow> e_type e = TypeDir)"

text \<open>\<open>acl.csv\<close> as a source of folder ACLs: all of its paths must be directories of the primary.\<close>

definition acl_csv_matches :: "(string, string) amap \<Rightarrow> tree \<Rightarrow> bool" where
  "acl_csv_matches csv t \<longleftrightarrow>
     list_all (\<lambda>(q, a). q = ''.'' \<or> is_dir_in t q) csv"

definition choose_acl_source ::
  "(string, string) amap \<Rightarrow> (string, string) amap \<Rightarrow> tree \<Rightarrow> (string, string) amap option" where
  "choose_acl_source csv_p csv_s t =
     (if csv_p \<noteq> [] \<and> acl_csv_matches csv_p t then Some csv_p
      else if csv_s \<noteq> [] \<and> acl_csv_matches csv_s t then Some csv_s
      else None)"

definition restore_one :: "boot_env \<Rightarrow> tree \<Rightarrow> string \<times> string \<Rightarrow> acl_world \<Rightarrow> acl_world" where
  "restore_one env t = (\<lambda>(q, a) w.
     if q \<noteq> ''.'' \<and> \<not> is_dir_in t q then w
     else if bo_apply env SidePrimary q then w\<lparr>aw_primary := (aw_primary w)(q := a)\<rparr> else w)"

definition push_root :: "boot_env \<Rightarrow> (string, string) amap \<Rightarrow> acl_world \<Rightarrow> acl_world" where
  "push_root env src w =
     (case map_of src ''.'' of
        None \<Rightarrow> w
      | Some a \<Rightarrow> if bo_apply env SideSecondary ''.'' then w\<lparr>aw_secondary := (aw_secondary w)(''.'' := a)\<rparr> else w)"

definition push_one :: "boot_env \<Rightarrow> tree \<Rightarrow> string \<times> entry \<Rightarrow> acl_world \<Rightarrow> acl_world" where
  "push_one env t = (\<lambda>(q, se) w.
     if e_type se \<noteq> TypeDir \<or> \<not> is_dir_in t q \<or> \<not> bo_read env q then w
     else if bo_apply env SideSecondary q then w\<lparr>aw_secondary := (aw_secondary w)(q := aw_primary w q)\<rparr> else w)"

definition bootstrap_acl ::
  "boot_env \<Rightarrow> (string, string) amap \<Rightarrow> (string, string) amap \<Rightarrow> acl_world \<Rightarrow> (string, string) amap option \<times> acl_world" where
  "bootstrap_acl env csv_p csv_s w =
     (case bo_scan env of
        None \<Rightarrow> (None, w)
      | Some t \<Rightarrow>
          (case choose_acl_source csv_p csv_s t of
             None \<Rightarrow> (None, w)
           | Some src \<Rightarrow>
               (let w' = push_root env src (fold (restore_one env t) src w)
                in case bo_scan2 env of
                     None \<Rightarrow> (Some src, w')
                   | Some s \<Rightarrow> (Some src, fold (push_one env t) s w'))))"

subsection \<open>What is restored\<close>

lemma restore_secondary [simp]: "aw_secondary (fold (restore_one env t) src w) = aw_secondary w"
  by (induction src arbitrary: w) (auto simp: restore_one_def)

lemma restore_primary:
  "distinct (map fst src) \<Longrightarrow> aw_primary (fold (restore_one env t) src w) q =
     (case map_of src q of
        None \<Rightarrow> aw_primary w q
      | Some a \<Rightarrow> if (q = ''.'' \<or> is_dir_in t q) \<and> bo_apply env SidePrimary q then a else aw_primary w q)"
proof (induction src arbitrary: w)
  case (Cons x src)
  obtain k a where x: "x = (k, a)" by (cases x)
  have "map_of src k = None" using Cons.prems by (simp add: x map_of_eq_None_iff)
  then show ?case
    using Cons.IH [of "restore_one env t x w"] Cons.prems by (auto simp: x restore_one_def split: option.splits)
qed simp

lemma push_root_primary [simp]: "aw_primary (push_root env src w) = aw_primary w"
  by (simp add: push_root_def split: option.splits)

lemma push_primary [simp]: "aw_primary (fold (push_one env t) s w) = aw_primary w"
  by (induction s arbitrary: w) (auto simp: push_one_def)

lemma push_secondary:
  "distinct (map fst s) \<Longrightarrow> aw_secondary (fold (push_one env t) s w) q =
     (if is_dir_in s q \<and> is_dir_in t q \<and> bo_read env q \<and> bo_apply env SideSecondary q then aw_primary w q else aw_secondary w q)"
proof (induction s arbitrary: w)
  case (Cons x s)
  obtain k e where x: "x = (k, e)" by (cases x)
  have n: "map_of s k = None" using Cons.prems by (simp add: x map_of_eq_None_iff)
  have p: "aw_primary (push_one env t x w) = aw_primary w" by (simp add: x push_one_def)
  show ?case
    using Cons.IH [of "push_one env t x w"] Cons.prems n p
    by (cases "q = k") (auto simp: x push_one_def is_dir_in_def)
qed (simp add: is_dir_in_def)

text \<open>A candidate table is used whole or not at all.\<close>

lemma acl_source_all_or_nothing:
  assumes "choose_acl_source csv_p csv_s t = Some src"
  shows "src \<in> {csv_p, csv_s} \<and> src \<noteq> [] \<and> (\<forall>q \<in> fst ` set src. q = ''.'' \<or> is_dir_in t q)"
  using assms by (auto simp: choose_acl_source_def acl_csv_matches_def list_all_iff split: if_splits)

lemma bootstrap_idle:
  "fst (bootstrap_acl env csv_p csv_s w) = None \<Longrightarrow> snd (bootstrap_acl env csv_p csv_s w) = w"
  by (auto simp: bootstrap_acl_def Let_def split: option.splits)

lemma dirs_of_is_dir: "acl_tree_ok t \<Longrightarrow> q \<in> fst ` set (dirs_of t) \<Longrightarrow> is_dir_in t q"
proof -
  assume t: "acl_tree_ok t" and q: "q \<in> fst ` set (dirs_of t)"
  have "map_of (dirs_of t) q \<noteq> None" using q by (simp add: map_of_eq_None_iff)
  then show "is_dir_in t q"
    using t map_of_dirs_of [of t q] by (auto simp: is_dir_in_def acl_tree_ok_def split: option.splits if_splits)
qed

lemma bootstrap_world:
  assumes "bo_scan env = Some t" and "bo_scan2 env = Some s" and "amap_ok s"
    and "choose_acl_source csv_p csv_s t = Some src" and "distinct (map fst src)"
    and "\<forall>d q. bo_apply env d q" and "\<forall>q. bo_read env q"
    and "snd (bootstrap_acl env csv_p csv_s w) = w'"
  shows "(\<forall>q. aw_primary w' q = (case map_of src q of None \<Rightarrow> aw_primary w q | Some a \<Rightarrow> a)) \<and>
    (\<forall>q. is_dir_in s q \<longrightarrow> is_dir_in t q \<longrightarrow> aw_secondary w' q = aw_primary w' q)"
proof -
  have w': "w' = fold (push_one env t) s (push_root env src (fold (restore_one env t) src w))"
    using assms(1,2,4,8) by (simp add: bootstrap_acl_def)
  have all: "q = ''.'' \<or> is_dir_in t q" if "map_of src q = Some a" for q a
    using acl_source_all_or_nothing [OF assms(4)] map_of_SomeD [OF that] by force
  show ?thesis
    using assms(3,6,7) all unfolding w' amap_ok_def
    by (auto simp: push_secondary restore_primary [OF assms(5)] split: option.splits)
qed

text \<open>
  After a restart the folder ACLs are those of the last run. If the table on the primary was written
  for a tree whose directories are all still there, the start-up restores every one of these ACLs and
  that of the root on the primary, whatever they were changed to in the meantime, leaves every other
  folder of the primary alone, and gives every folder that both sides have the primary's ACL on the
  secondary; here all calls of the ACL tools succeed.
\<close>

theorem restart_restores_acls:
  assumes "acl_tree_ok t0" and "no_crlf acltype" and "no_crlf root_acl" and "acl_pairs root_acl t0 \<noteq> []"
    and "bo_scan env = Some t" and "bo_scan2 env = Some s" and "amap_ok s"
    and "\<forall>q. is_dir_in t0 q \<longrightarrow> is_dir_in t q"
    and "\<forall>d q. bo_apply env d q" and "\<forall>q. bo_read env q"
    and "snd (bootstrap_acl env (read_acl_csv (acl_csv_text acltype root_acl t0)) csv_s w) = w'"
  shows "(root_acl \<noteq> [] \<longrightarrow> aw_primary w' ''.'' = root_acl) \<and>
    (\<forall>q e. map_of t0 q = Some e \<longrightarrow> e_type e = TypeDir \<longrightarrow> aw_primary w' q = e_acl e) \<and>
    (\<forall>q. q \<noteq> ''.'' \<longrightarrow> \<not> is_dir_in t0 q \<longrightarrow> aw_primary w' q = aw_primary w q) \<and>
    (\<forall>q. is_dir_in s q \<longrightarrow> is_dir_in t q \<longrightarrow> aw_secondary w' q = aw_primary w' q)"
proof -
  let ?src = "acl_pairs root_acl t0"
  have d: "map_of (dirs_of t0) q = (case map_of t0 q of None \<Rightarrow> None | Some e \<Rightarrow> if e_type e = TypeDir then Some (e_acl e) else None)" for q
    using assms(1) by (auto simp: acl_tree_ok_def intro: map_of_dirs_of)
  have "''.'' \<notin> fst ` set t0" using assms(1) by (auto simp: acl_tree_ok_def)
  then have dot: "map_of t0 ''.'' = None" by (simp add: map_of_eq_None_iff)
  have src: "map_of ?src q = (if q = ''.'' then if root_acl \<noteq> [] then Some root_acl else None
      else case map_of t0 q of None \<Rightarrow> None | Some e \<Rightarrow> if e_type e = TypeDir then Some (e_acl e) else None)" for q
    using dot by (auto simp: acl_pairs_def d)
  have "is_dir_in t (fst x)" if "x \<in> set (dirs_of t0)" for x
    using dirs_of_is_dir [OF assms(1)] assms(8) that by blast
  then have "acl_csv_matches ?src t"
    by (fastforce simp: acl_csv_matches_def list_all_iff acl_pairs_def)
  then have ch: "choose_acl_source (read_acl_csv (acl_csv_text acltype root_acl t0)) csv_s t = Some ?src"
    using assms(4) by (simp add: choose_acl_source_def read_written_acls [OF assms(1-3)])
  show ?thesis
    using bootstrap_world [OF assms(5-7) ch acl_pairs_distinct [OF assms(1)] assms(9-11)] dot
    by (auto simp: src is_dir_in_def split: option.splits if_splits)
qed

definition ex_boot :: boot_env where
  "ex_boot = \<lparr>bo_scan = Some ex_acl_tree, bo_scan2 = Some ex_acl_tree, bo_apply = (\<lambda>d q. True), bo_read = (\<lambda>q. True)\<rparr>"

definition ex_acl_world :: acl_world where
  "ex_acl_world = \<lparr>aw_primary = (\<lambda>q. ''lost''), aw_secondary = (\<lambda>q. ''other'')\<rparr>"

lemma restart_restores_acls_witness:
  "let w' = snd (bootstrap_acl ex_boot (read_acl_csv (acl_csv_text ''posix'' ''u'' ex_acl_tree)) [] ex_acl_world)
   in aw_primary w' ''.'' = ''u'' \<and> aw_primary w' ''a;b'' = ''user:x'' @ [CHR 0x0A, CHR 0x22] \<and>
      aw_primary w' ''c'' = ''lost'' \<and> aw_secondary w' ''a;b'' = aw_primary w' ''a;b''"
proof -
  have t: "acl_tree_ok ex_acl_tree" "amap_ok ex_acl_tree"
    by (simp_all add: acl_tree_ok_def ex_acl_tree_def amap_ok_def no_crlf_def)
  have n: "no_crlf ''posix''" "no_crlf ''u''" "acl_pairs ''u'' ex_acl_tree \<noteq> []" by (simp_all add: no_crlf_def acl_pairs_def)
  have e: "bo_scan ex_boot = Some ex_acl_tree" "bo_scan2 ex_boot = Some ex_acl_tree" "\<forall>d q. bo_apply ex_boot d q" "\<forall>q. bo_read ex_boot q"
    by (simp_all add: ex_boot_def)
  have d: "\<forall>q. is_dir_in ex_acl_tree q \<longrightarrow> is_dir_in ex_acl_tree q" by blast
  show ?thesis
    unfolding Let_def
    using restart_restores_acls [OF t(1) n e(1,2) t(2) d e(3,4) refl, of "[]" ex_acl_world]
    by (auto simp: ex_acl_tree_def is_dir_in_def ex_acl_world_def)
qed

end
