(* ===== verification/Rustfs.thy ===== *)
theory Rustfs
  imports Pass_Correct Paths
begin

section \<open>The RustFS side: listing, notifications and object keys\<close>

text \<open>
  \<open>internal/rustfs/scan.go\<close>, \<open>webhook.go\<close> and \<open>xlmeta.go\<close>. What \<open>rclone\<close> prints, the decoding of JSON
  and of RFC 3339 times are arguments (\<open>run\<close>, \<open>decode\<close>, \<open>parse_time\<close>), so is the presence of files on
  disk. The HTTP server is the function that answers one request and lists the events it hands on.
\<close>

subsection \<open>The listing of a bucket\<close>

record rclone_entry =
  rl_path :: string
  rl_size :: int
  rl_mtime :: string
  rl_isdir :: bool

definition lsjson_entry :: "(string \<Rightarrow> int option) \<Rightarrow> rclone_entry \<Rightarrow> entry" where
  "lsjson_entry parse_time x =
     (let e = zero_entry\<lparr>e_path := trim_prefix (rl_path x) ''/''\<rparr>
      in if rl_isdir x then e\<lparr>e_type := TypeDir\<rparr>
         else (let f = e\<lparr>e_type := TypeFile, e_size := rl_size x\<rparr>
               in case parse_time (rl_mtime x) of None \<Rightarrow> f | Some t \<Rightarrow> f\<lparr>e_mtime := t\<rparr>))"

definition parse_lsjson :: "(string \<Rightarrow> int option) \<Rightarrow> (string \<Rightarrow> rclone_entry list option) \<Rightarrow> string \<Rightarrow> tree option" where
  "parse_lsjson parse_time decode data =
     map_option (\<lambda>xs. fold (\<lambda>x t. if rl_path x = [] then t
                              else AList.update (trim_prefix (rl_path x) ''/'') (lsjson_entry parse_time x) t) xs [])
       (decode data)"

definition rustfs_scan ::
  "(string \<Rightarrow> int option) \<Rightarrow> (string \<Rightarrow> rclone_entry list option) \<Rightarrow> string option \<Rightarrow> tree option" where
  "rustfs_scan parse_time decode run = (case run of None \<Rightarrow> None | Some out \<Rightarrow> parse_lsjson parse_time decode out)"

definition bucket_tree :: "tree \<Rightarrow> bool" where
  "bucket_tree t \<longleftrightarrow> amap_ok t \<and> (\<forall>(q, e) \<in> set t. e_path e = q \<and> e_dev e = 0 \<and> e_ino e = 0 \<and> e_acl e = [] \<and> e_type e \<in> {TypeFile, TypeDir})"

lemma lsjson_entry_fields:
  "e_path (lsjson_entry pt x) = trim_prefix (rl_path x) ''/''" "e_dev (lsjson_entry pt x) = 0" "e_ino (lsjson_entry pt x) = 0"
  "e_acl (lsjson_entry pt x) = []" "e_type (lsjson_entry pt x) = (if rl_isdir x then TypeDir else TypeFile)"
  by (simp_all add: lsjson_entry_def zero_entry_def Let_def split: option.split)

lemma set_update: "(q, e) \<in> set (AList.update k v m) \<Longrightarrow> (q = k \<and> e = v) \<or> (q, e) \<in> set m"
  by (induction m) (auto split: if_splits)

lemma bucket_tree_update:
  "bucket_tree t \<Longrightarrow> bucket_tree (AList.update (trim_prefix (rl_path x) ''/'') (lsjson_entry pt x) t)"
  unfolding bucket_tree_def by (auto simp: lsjson_entry_fields dest!: set_update)

lemma parse_lsjson_tree: "parse_lsjson pt decode data = Some t \<Longrightarrow> bucket_tree t"
proof -
  have "bucket_tree (fold (\<lambda>x t. if rl_path x = [] then t
      else AList.update (trim_prefix (rl_path x) ''/'') (lsjson_entry pt x) t) xs u)" if "bucket_tree u" for xs u
    using that by (induction xs arbitrary: u) (auto intro: bucket_tree_update)
  moreover have "bucket_tree []" by (simp add: bucket_tree_def)
  ultimately show "parse_lsjson pt decode data = Some t \<Longrightarrow> bucket_tree t" by (auto simp: parse_lsjson_def)
qed

lemma rustfs_scan_tree: "rustfs_scan pt decode run = Some t \<Longrightarrow> bucket_tree t"
  using parse_lsjson_tree by (auto simp: rustfs_scan_def split: option.splits)

lemma bucket_hits_nothing: "bucket_tree s \<Longrightarrow> ne \<in> set s \<Longrightarrow> rename_hit b dk other ne = None"
  by (cases ne) (auto simp: bucket_tree_def rename_hit_def)

lemma bucket_side_recs: "range_order rng \<Longrightarrow> bucket_tree s \<Longrightarrow> side_recs b b' s (rng n s) d other = []"
  using bucket_hits_nothing range_order_set [of rng n s] by (auto simp: side_recs_def rename_recs_def Let_def)

text \<open>
  Every listing of a bucket that is read gives a tree with distinct paths, each entry a file or a
  folder under its own path, without device, inode and ACL. Merging such a tree never takes anything in
  the bucket for the renaming of a file: a rename is only ever announced towards the bucket.
\<close>

theorem bucket_never_renames:
  assumes "rustfs_scan parse_time decode run = Some s" and "range_order rng"
    and "x \<in> set (r_ops (reconcile rng now b p s))" and "o_kind x = OpRename"
  shows "bucket_tree s \<and> o_dst x = SideSecondary"
proof -
  have s: "bucket_tree s" by (rule rustfs_scan_tree [OF assms(1)])
  from assms(3) show ?thesis
  proof (cases rule: reconcile_opE)
    case (renamed y)
    obtain d old np e where y: "y = (d, old, np, e)" by (cases y)
    have "y \<in> set (side_recs b (rng 0 b) p (rng 1 p) SideSecondary s)"
      using renamed(1) bucket_side_recs [OF assms(2) s] by (simp add: all_recs_def)
    then have "d = SideSecondary" using side_recs_side y by blast
    then show ?thesis using s renamed(2) by (simp add: y rec_op_def)
  next
    case (path q t)
    then show ?thesis using path_ops_kind assms(4) by blast
  qed
qed

definition ex_listing :: "rclone_entry list" where
  "ex_listing = [\<lparr>rl_path = ''/a'', rl_size = 5, rl_mtime = ''t'', rl_isdir = False\<rparr>]"

definition ex_local :: tree where
  "ex_local = [(''b'', zero_entry\<lparr>e_path := ''b'', e_type := TypeFile, e_size := 5, e_dev := 1, e_ino := 2\<rparr>)]"

definition ex_before_rename :: tree where
  "ex_before_rename = [(''a'', zero_entry\<lparr>e_path := ''a'', e_type := TypeFile, e_size := 5, e_mtime := 9, e_dev := 1, e_ino := 2\<rparr>)]"

lemma bucket_never_renames_witness:
  "\<exists>s x. rustfs_scan (\<lambda>m. Some 9) (\<lambda>d. Some ex_listing) (Some []) = Some s \<and>
     x \<in> set (r_ops (reconcile (\<lambda>n m. m) (\<lambda>n. []) ex_before_rename ex_local s)) \<and> o_kind x = OpRename \<and> o_dst x = SideSecondary"
proof -
  let ?s = "[(''a'', zero_entry\<lparr>e_path := ''a'', e_type := TypeFile, e_size := 5, e_mtime := 9\<rparr>)]"
  let ?x = "mk_op OpRename SideSecondary SideNone ''b'' ''a'' TypeFile"
  have t: "trim_prefix ''/a'' ''/'' = ''a''" using trim_prefix_append [of "''/''" "''a''"] by simp
  have s: "rustfs_scan (\<lambda>m. Some 9) (\<lambda>d. Some ex_listing) (Some []) = Some ?s"
    by (simp add: rustfs_scan_def parse_lsjson_def ex_listing_def lsjson_entry_def Let_def t)
  have "(SideSecondary, ''a'', ''b'', snd (hd ex_local)) \<in> set (all_recs (\<lambda>n m. m) ex_before_rename ex_local ?s)"
    by (simp add: all_recs_def side_recs_def rename_recs_def rename_hit_def deleted_by_key_def same_identity_def
        ex_local_def ex_before_rename_def zero_entry_def)
  then have x: "?x \<in> set (r_ops (reconcile (\<lambda>n m. m) (\<lambda>n. []) ex_before_rename ex_local ?s))"
    unfolding reconcile_blocks(1) by (force simp: rec_op_def)
  have "o_dst ?x = SideSecondary"
    using bucket_never_renames [OF s range_order_id x] by simp
  then show ?thesis using s x by (intro exI [of _ ?s] exI [of _ ?x]) simp
qed

subsection \<open>Notifications\<close>

record webhook_event =
  wh_event :: string
  wh_bucket :: string
  wh_key :: string

definition is_create :: "webhook_event \<Rightarrow> bool" where
  "is_create e \<longleftrightarrow> has_prefix (wh_event e) ''s3:ObjectCreated:''"

definition is_remove :: "webhook_event \<Rightarrow> bool" where
  "is_remove e \<longleftrightarrow> has_prefix (wh_event e) ''s3:ObjectRemoved:''"

definition hex_val :: "char \<Rightarrow> nat option" where
  "hex_val c =
     (let n = of_char c :: nat
      in if 48 \<le> n \<and> n \<le> 57 then Some (n - 48)
         else if 97 \<le> n \<and> n \<le> 102 then Some (n - 87)
         else if 65 \<le> n \<and> n \<le> 70 then Some (n - 55)
         else None)"

text \<open>\<open>url.QueryUnescape\<close>.\<close>

fun query_unescape :: "string \<Rightarrow> string option" where
  "query_unescape [] = Some []"
| "query_unescape (c # s) =
     (if c = CHR ''%'' then
        (case s of
           a # b # t \<Rightarrow>
             (case (hex_val a, hex_val b) of
                (Some m, Some n) \<Rightarrow> map_option (\<lambda>r. char_of (16 * m + n) # r) (query_unescape t)
              | _ \<Rightarrow> None)
         | _ \<Rightarrow> None)
      else map_option (\<lambda>r. (if c = CHR ''+'' then CHR '' '' else c) # r) (query_unescape s))"

definition parse_webhook :: "(string \<Rightarrow> webhook_event list option) \<Rightarrow> string \<Rightarrow> webhook_event list option" where
  "parse_webhook decode body =
     map_option (map (\<lambda>r. r\<lparr>wh_key := (case query_unescape (wh_key r) of None \<Rightarrow> wh_key r | Some k \<Rightarrow> k)\<rparr>)) (decode body)"

text \<open>\<open>net.SplitHostPort\<close>, the host only.\<close>

definition split_host :: "string \<Rightarrow> string option" where
  "split_host s =
     (case last_index CHR '':'' s of
        None \<Rightarrow> None
      | Some i \<Rightarrow>
          if hd s = CHR ''['' then
            (case str_index CHR '']'' s of
               None \<Rightarrow> None
             | Some e \<Rightarrow>
                 if e + 1 \<noteq> i then None
                 else if CHR ''['' \<in> set (drop 1 s) \<or> CHR '']'' \<in> set (drop (e + 1) s) then None
                 else Some (take (e - 1) (drop 1 s)))
          else if CHR '':'' \<in> set (take i s) then None
          else if CHR ''['' \<in> set s \<or> CHR '']'' \<in> set s then None
          else Some (take i s))"

record http_req =
  hr_method :: string
  hr_remote :: string
  hr_auth :: string
  hr_body :: "string option"

definition body_cap :: nat where "body_cap = 10 * 1024 * 1024"

definition source_host :: "http_req \<Rightarrow> string" where
  "source_host r = (case split_host (hr_remote r) of None \<Rightarrow> hr_remote r | Some h \<Rightarrow> h)"

definition handle_hook ::
  "(string \<Rightarrow> webhook_event list option) \<Rightarrow> string \<Rightarrow> string \<Rightarrow> http_req \<Rightarrow> nat \<times> webhook_event list" where
  "handle_hook decode token allow_ip r =
     (if hr_method r = ''GET'' \<or> hr_method r = ''HEAD'' then (200, [])
      else if hr_method r \<noteq> ''POST'' then (405, [])
      else if allow_ip \<noteq> [] \<and> source_host r \<noteq> allow_ip then (403, [])
      else if token \<noteq> [] \<and> hr_auth r \<noteq> ''Bearer '' @ token then (401, [])
      else case hr_body r of
        None \<Rightarrow> (400, [])
      | Some b \<Rightarrow>
          (case parse_webhook decode (take body_cap b) of
             None \<Rightarrow> (400, [])
           | Some es \<Rightarrow> (200, es)))"

text \<open>Nobody without the address and the token triggers a pass.\<close>

lemma hook_gate:
  assumes "snd (handle_hook decode token allow_ip r) \<noteq> []"
  shows "hr_method r = ''POST'' \<and> (allow_ip = [] \<or> source_host r = allow_ip) \<and> (token = [] \<or> hr_auth r = ''Bearer '' @ token) \<and>
    fst (handle_hook decode token allow_ip r) = 200"
  using assms by (auto simp: handle_hook_def split: if_splits option.splits)

text \<open>A key whose bytes are all percent-encoded is decoded to those bytes, a key without escapes stays.\<close>

definition hex_digit :: "nat \<Rightarrow> char" where
  "hex_digit n = char_of (if n < 10 then 48 + n else 55 + n)"

definition percent :: "char \<Rightarrow> string" where
  "percent c = [CHR ''%'', hex_digit (of_char c div 16), hex_digit (of_char c mod 16)]"

lemma hex_val_digit: "n < 16 \<Longrightarrow> hex_val (hex_digit n) = Some n"
  by (simp add: hex_val_def hex_digit_def Let_def)

lemma of_char_less: "(of_char c :: nat) < 256"
  by (rule nat_of_char_less_256)

lemma unescape_percent: "query_unescape (concat (map percent s)) = Some s"
proof (induction s)
  case (Cons c s)
  have "(of_char c :: nat) div 16 < 16" using of_char_less [of c] by (simp only: less_mult_imp_div_less)
  then show ?case using Cons by (simp add: percent_def hex_val_digit)
qed simp

lemma unescape_plain: "CHR ''%'' \<notin> set s \<Longrightarrow> CHR ''+'' \<notin> set s \<Longrightarrow> query_unescape s = Some s"
  by (induction s) auto

subsection \<open>The object a path on disk belongs to\<close>

text \<open>
  \<open>ResolveObjectKey\<close>: \<open>plain p\<close> says that \<open>Stat\<close> finds a file that is no directory at \<open>p\<close>, \<open>has_meta p\<close>
  that there is an \<open>xl.meta\<close> in the directory \<open>p\<close>. The inner \<open>option\<close> is \<open>ok = false\<close>; the outer \<open>None\<close>
  would be a loop that does not end.
\<close>

partial_function (option) resolve_up :: "(string \<Rightarrow> bool) \<Rightarrow> string \<Rightarrow> string \<Rightarrow> string option option" where
  "resolve_up has_meta root dir =
     (if dir = root then Some None
      else if has_meta dir then Some (rel_path root dir)
      else if dir_of dir = dir then Some None
      else resolve_up has_meta root (dir_of dir))"

definition resolve_object_key :: "(string \<Rightarrow> bool) \<Rightarrow> (string \<Rightarrow> bool) \<Rightarrow> string \<Rightarrow> string \<Rightarrow> string option option" where
  "resolve_object_key has_meta plain changed root0 =
     (let c = clean changed; root = clean root0
      in case rel_path root c of
           None \<Rightarrow> Some None
         | Some rel \<Rightarrow>
             if rel = dotdot \<or> has_prefix rel (dotdot @ ''/'') then Some None
             else resolve_up has_meta root (if plain c then dir_of c else c))"

lemma abs_path_inj: "list_all good_comp as \<Longrightarrow> list_all good_comp bs \<Longrightarrow> abs_path as = abs_path bs \<longleftrightarrow> as = bs"
  by (metis pcomps_abs_path)

lemma rel_below:
  assumes "list_all good_comp R" "list_all good_comp (R @ T)" "T \<noteq> []"
  shows "rel_path (abs_path R) (abs_path (R @ T)) = Some (join_with CHR ''/'' T)"
  using assms by (simp add: rel_path_def clean_abs_path pcomps_abs_path abs_path_inj)

text \<open>The nearest directory at or above a path and below the root that holds an object.\<close>

definition nearest :: "(string \<Rightarrow> bool) \<Rightarrow> string list \<Rightarrow> string list \<Rightarrow> string option" where
  "nearest has_meta R T =
     map_option (\<lambda>n. join_with CHR ''/'' (take n T))
       (find (\<lambda>n. has_meta (abs_path (R @ take n T))) (rev [1..<Suc (length T)]))"

lemma nearest_snoc:
  "nearest has_meta R (T @ [c]) =
     (if has_meta (abs_path (R @ T @ [c])) then Some (join_with CHR ''/'' (T @ [c])) else nearest has_meta R T)"
proof -
  define L where "L = rev [1..<Suc (length T)]"
  let ?P = "\<lambda>n. has_meta (abs_path (R @ take n (T @ [c])))" and ?Q = "\<lambda>n. has_meta (abs_path (R @ take n T))"
  have e: "rev [1..<Suc (length (T @ [c]))] = Suc (length T) # L" by (simp add: L_def)
  have l: "n \<le> length T" if "n \<in> set L" for n using that by (auto simp: L_def)
  have "find ?P L = find ?Q L" by (rule find_cong) (use l in auto)
  moreover have "map_option (\<lambda>n. join_with CHR ''/'' (take n (T @ [c]))) (find ?Q L) = map_option (\<lambda>n. join_with CHR ''/'' (take n T)) (find ?Q L)"
  proof (rule option.map_cong [OF refl])
    fix n assume "n \<in> set_option (find ?Q L)"
    then have "n \<in> set L" by (metis find_Some_iff nth_mem elem_set)
    then show "join_with CHR ''/'' (take n (T @ [c])) = join_with CHR ''/'' (take n T)" using l by simp
  qed
  moreover have "nearest has_meta R (T @ [c]) = map_option (\<lambda>n. join_with CHR ''/'' (take n (T @ [c]))) (find ?P (Suc (length T) # L))"
    unfolding nearest_def e ..
  moreover have "nearest has_meta R T = map_option (\<lambda>n. join_with CHR ''/'' (take n T)) (find ?Q L)"
    unfolding nearest_def L_def ..
  ultimately show ?thesis by simp
qed

lemma resolve_up_nearest:
  "list_all good_comp (R @ T) \<Longrightarrow> resolve_up has_meta (abs_path R) (abs_path (R @ T)) = Some (nearest has_meta R T)"
proof (induction T rule: rev_induct)
  case Nil
  then show ?case by (simp add: resolve_up.simps nearest_def)
next
  case (snoc c T)
  then have g: "list_all good_comp R" "list_all good_comp (R @ T @ [c])" "list_all good_comp (R @ T)" by simp_all
  have "abs_path (R @ T @ [c]) \<noteq> abs_path R" using g by (simp add: abs_path_inj)
  moreover have "dir_of (abs_path (R @ T @ [c])) = abs_path (R @ T)"
    using dir_of_abs_path [OF g(2)] by (simp add: butlast_append)
  moreover have "abs_path (R @ T) \<noteq> abs_path (R @ T @ [c])" using g abs_path_inj [OF g(3,2)] by simp
  ultimately show ?case
    using snoc.IH [OF g(3)] rel_below [OF g(1,2)] by (subst resolve_up.simps) (simp add: nearest_snoc)
qed

text \<open>
  For absolute paths the search ends, and what it finds is the nearest object directory above the
  changed path and strictly below the root of the bucket.
\<close>

lemma resolve_object_key_below:
  assumes "list_all good_comp (R @ T)" and "clean root0 = abs_path R" and "clean changed = abs_path (R @ T)"
    and "plain (abs_path (R @ T)) \<longrightarrow> T \<noteq> []"
  shows "resolve_object_key has_meta plain changed root0 =
    Some (nearest has_meta R (if plain (abs_path (R @ T)) then butlast T else T))"
proof -
  have g: "list_all good_comp R" "list_all good_comp T" using assms(1) by simp_all
  obtain rel where rel: "rel_path (abs_path R) (abs_path (R @ T)) = Some rel" "\<not> (rel = dotdot \<or> has_prefix rel (dotdot @ ''/''))"
  proof (cases "T = []")
    case True
    then show thesis using that [of "''.''"] by (simp add: rel_path_def dotdot_def has_prefix_def)
  next
    case False
    have "split_on CHR ''/'' (join_with CHR ''/'' T) = T"
      using g(2) False by (intro split_join) (auto simp: list_all_iff good_comp_def)
    then have h: "hd (split_on CHR ''/'' (join_with CHR ''/'' T)) \<noteq> dotdot"
      using g(2) False by (cases T) (auto simp: good_comp_def)
    have "\<not> has_prefix (join_with CHR ''/'' T) (dotdot @ ''/'')"
    proof
      assume "has_prefix (join_with CHR ''/'' T) (dotdot @ ''/'')"
      then obtain r where "join_with CHR ''/'' T = dotdot @ CHR ''/'' # r" by (auto elim: has_prefixE)
      then show False using h split_on_append [of "CHR ''/''" dotdot r] by (simp add: dotdot_def)
    qed
    moreover have "join_with CHR ''/'' T \<noteq> dotdot"
      using h split_on_word [of "CHR ''/''" dotdot] by (auto simp: dotdot_def)
    ultimately show thesis using that [OF rel_below [OF g(1) assms(1) False]] by blast
  qed
  have "dir_of (abs_path (R @ T)) = abs_path (R @ butlast T)" if "T \<noteq> []"
    using dir_of_abs_path [OF assms(1)] that by (simp add: butlast_append)
  moreover have "list_all good_comp (R @ butlast T)" using assms(1) by (auto simp: list_all_iff in_set_butlastD)
  ultimately show ?thesis
    using rel assms resolve_up_nearest [of R T has_meta] resolve_up_nearest [of R "butlast T" has_meta]
    by (auto simp: resolve_object_key_def Let_def)
qed

end
