(* ===== verification/Zfscheck.thy ===== *)
theory Zfscheck
  imports Paths
begin

section \<open>The preconditions on ZFS\<close>

text \<open>
  \<open>internal/zfscheck/zfscheck.go\<close>: the dataset a folder lies on, its ACL type, and \<open>aclinherit\<close>. What
  \<open>zfs list\<close> and \<open>zfs get\<close> print is an argument (\<open>None\<close> is a command that fails); the result is an
  error or the ACL type, with the dataset on which \<open>aclinherit=passthrough\<close> is set, if any. The folder is
  given as \<open>filepath.Abs\<close> returns it.
\<close>

record dataset =
  ds_name :: string
  ds_mount :: string

datatype goos = Illumos | Solaris | FreeBSD | Windows | Darwin | Linux

datatype check_error =
    ListFailed
  | NoDataset string
  | GetFailed
  | AclOff string
  | BadAclType string string

definition chomp_cr :: "string \<Rightarrow> string" where
  "chomp_cr s = (if s \<noteq> [] \<and> last s = CHR 0x0D then butlast s else s)"

text \<open>\<open>bufio.Scanner\<close> over the output: lines without their line end; no last line when the text ends in one.\<close>

definition text_lines :: "string \<Rightarrow> string list" where
  "text_lines s =
     (let ls = split_on CHR 0x0A s in map chomp_cr (if last ls = [] then butlast ls else ls))"

definition list_datasets :: "string option \<Rightarrow> dataset list option" where
  "list_datasets out =
     map_option (\<lambda>s. concat (map (\<lambda>l. case split_on CHR 0x09 l of [n, m] \<Rightarrow> [\<lparr>ds_name = n, ds_mount = m\<rparr>] | _ \<Rightarrow> []) (text_lines s))) out"

definition mounted_above :: "string \<Rightarrow> dataset \<Rightarrow> bool" where
  "mounted_above folder d \<longleftrightarrow>
     ds_mount d \<noteq> ''-'' \<and> ds_mount d \<noteq> ''none'' \<and>
     (folder = clean (ds_mount d) \<or> has_prefix folder (clean (ds_mount d) @ ''/''))"

definition no_dataset :: dataset where "no_dataset = \<lparr>ds_name = [], ds_mount = []\<rparr>"

definition better :: "string \<Rightarrow> dataset \<Rightarrow> dataset \<times> int \<Rightarrow> dataset \<times> int" where
  "better folder d st =
     (case st of (best, len) \<Rightarrow>
        if mounted_above folder d \<and> int (length (clean (ds_mount d))) > len then (d, int (length (clean (ds_mount d)))) else st)"

definition parent_dataset :: "string option \<Rightarrow> string \<Rightarrow> check_error + dataset" where
  "parent_dataset out folder =
     (case list_datasets out of
        None \<Rightarrow> Inl ListFailed
      | Some ds \<Rightarrow>
          (case fold (better folder) ds (no_dataset, -1) of
             (best, len) \<Rightarrow> Inr (if len < 0 then no_dataset else best)))"

definition skip_live :: "goos \<Rightarrow> bool" where
  "skip_live os \<longleftrightarrow> os = Illumos \<or> os = Solaris \<or> os = FreeBSD \<or> os = Windows"

definition fallback_acl :: "goos \<Rightarrow> check_error \<Rightarrow> check_error + string" where
  "fallback_acl os e = (if os = Windows then Inr ''nfs4'' else if os = Darwin then Inr ''none'' else Inl e)"

definition live_acl :: "string \<Rightarrow> string option \<Rightarrow> check_error + string" where
  "live_acl name got =
     (case got of
        None \<Rightarrow> Inl GetFailed
      | Some out \<Rightarrow>
          (let raw = trim_space out
           in if raw = ''off'' then Inl (AclOff name)
              else if raw = ''posixacl'' \<or> raw = ''posix'' then Inr ''posix''
              else if raw = ''nfsv4'' \<or> raw = ''nfs4'' then Inr ''nfs4''
              else Inl (BadAclType name raw)))"

definition check_and_prepare ::
  "goos \<Rightarrow> string option \<Rightarrow> (string \<Rightarrow> string option) \<Rightarrow> string \<Rightarrow> (check_error + string) \<times> string option" where
  "check_and_prepare os out get folder =
     (case parent_dataset out folder of
        Inl e \<Rightarrow> (fallback_acl os e, None)
      | Inr d \<Rightarrow>
          if ds_name d = [] then (fallback_acl os (NoDataset folder), None)
          else (case (if skip_live os then Inr ''nfs4'' else live_acl (ds_name d) (get (ds_name d))) of
                  Inl e \<Rightarrow> (Inl e, None)
                | Inr a \<Rightarrow> (Inr a, Some (ds_name d))))"

subsection \<open>The longest mount point\<close>

abbreviation mount_len :: "dataset \<Rightarrow> int" where
  "mount_len d \<equiv> int (length (clean (ds_mount d)))"

lemma better_result:
  "fold (better folder) ds (best, len) = (b, l) \<Longrightarrow> (b = best \<and> l = len) \<or> (b \<in> set ds \<and> mounted_above folder b \<and> l = mount_len b)"
proof (induction ds arbitrary: best len)
  case (Cons d ds)
  then show ?case
    using Cons.IH [of d "mount_len d"] Cons.IH [of best len] by (cases "mounted_above folder d \<and> mount_len d > len") (auto simp: better_def)
qed simp

lemma better_max:
  "fold (better folder) ds (best, len) = (b, l) \<Longrightarrow> len \<le> l \<and> (\<forall>d \<in> set ds. mounted_above folder d \<longrightarrow> mount_len d \<le> l)"
proof (induction ds arbitrary: best len)
  case (Cons d ds)
  show ?case
  proof (cases "mounted_above folder d \<and> mount_len d > len")
    case True
    then have "better folder d (best, len) = (d, mount_len d)" by (simp add: better_def)
    then have "fold (better folder) ds (d, mount_len d) = (b, l)" using Cons.prems by simp
    from Cons.IH [OF this] True show ?thesis by simp
  next
    case False
    then have "better folder d (best, len) = (best, len)" by (auto simp: better_def)
    then have "fold (better folder) ds (best, len) = (b, l)" using Cons.prems by simp
    from Cons.IH [OF this] False show ?thesis by auto
  qed
qed simp

text \<open>
  The dataset found is one of the listed ones that are mounted at or above the folder, and none of these
  has a longer mount point; the answer is empty exactly if there is none.
\<close>

theorem parent_dataset_longest:
  assumes "list_datasets out = Some ds" and "parent_dataset out folder = Inr d"
  shows "(d = no_dataset \<and> (\<forall>x \<in> set ds. \<not> mounted_above folder x)) \<or>
    (d \<in> set ds \<and> mounted_above folder d \<and>
     (\<forall>x \<in> set ds. mounted_above folder x \<longrightarrow> length (clean (ds_mount x)) \<le> length (clean (ds_mount d))))"
proof -
  obtain b l where f: "fold (better folder) ds (no_dataset, -1) = (b, l)" by force
  have "d = (if l < 0 then no_dataset else b)" using assms f by (simp add: parent_dataset_def)
  then show ?thesis using better_result [OF f] better_max [OF f] by (cases "l < 0") fastforce+
qed

definition ex_list :: string where
  "ex_list = ''tank'' @ [CHR 0x09] @ ''/tank'' @ [CHR 0x0A] @ ''tank/a'' @ [CHR 0x09] @ ''/tank/a'' @ [CHR 0x0A]"

lemma parent_dataset_longest_witness:
  "parent_dataset (Some ex_list) ''/tank/a/b'' = Inr \<lparr>ds_name = ''tank/a'', ds_mount = ''/tank/a''\<rparr> \<and>
   mounted_above ''/tank/a/b'' \<lparr>ds_name = ''tank/a'', ds_mount = ''/tank/a''\<rparr>"
proof -
  let ?t = "\<lparr>ds_name = ''tank'', ds_mount = ''/tank''\<rparr>" and ?a = "\<lparr>ds_name = ''tank/a'', ds_mount = ''/tank/a''\<rparr>"
  have l: "list_datasets (Some ex_list) = Some [?t, ?a]"
    by (simp add: list_datasets_def text_lines_def ex_list_def split_on_def chomp_cr_def)
  have c: "clean ''/tank'' = ''/tank''" "clean ''/tank/a'' = ''/tank/a''"
    by (simp_all add: clean_def pcomps_def clean_comps_def split_on_def clean_step_def is_abs_def has_prefix_def dotdot_def)
  have p: "parent_dataset (Some ex_list) ''/tank/a/b'' = Inr ?a"
    unfolding parent_dataset_def l by (simp add: better_def mounted_above_def c has_prefix_def)
  show ?thesis using parent_dataset_longest [OF l p] p by (auto simp: no_dataset_def)
qed

text \<open>
  What the ACL type depends on: only on Linux and macOS the property is read, so the other systems never
  get \<open>posix\<close>, whatever \<open>zfs\<close> reports; without a dataset only Windows and macOS go on; and
  \<open>aclinherit\<close> is set on the dataset that was found exactly when the check succeeds on one.
\<close>

lemma check_outcome:
  assumes "check_and_prepare os out get folder = (r, touched)"
  shows "(skip_live os \<longrightarrow> r \<noteq> Inr ''posix'') \<and>
    (\<forall>a. r = Inr a \<longrightarrow> a \<in> {''posix'', ''nfs4'', ''none''} \<and> (a = ''none'' \<longrightarrow> os = Darwin)) \<and>
    (touched \<noteq> None \<longrightarrow> (\<exists>a. r = Inr a) \<and> (\<exists>d. parent_dataset out folder = Inr d \<and> touched = Some (ds_name d) \<and> ds_name d \<noteq> [])) \<and>
    (touched = None \<longrightarrow> r \<in> {Inr ''nfs4'', Inr ''none''} \<and> os \<in> {Windows, Darwin} \<or> (\<exists>e. r = Inl e))"
  using assms
  by (auto simp: check_and_prepare_def fallback_acl_def live_acl_def skip_live_def Let_def split: sum.splits if_splits option.splits)

text \<open>
  A dataset mounted at \<open>/\<close> never counts: the code appends a separator to the mount point and looks for a path
  that starts with \<open>//\<close>. On a system that has its root on ZFS and no dataset further down, every folder is refused.
\<close>

lemma root_mount_never_matches:
  assumes "is_abs folder" and "clean folder = folder" and "folder \<noteq> ''/''" and "clean (ds_mount d) = ''/''"
  shows "\<not> mounted_above folder d"
proof
  assume "mounted_above folder d"
  then have "has_prefix folder ''//''" using assms(3,4) by (simp add: mounted_above_def)
  then obtain r where r: "folder = ''//'' @ r" by (rule has_prefixE)
  have c: "folder = abs_path (pcomps folder)" using clean_abs [OF assms(1)] assms(2) by simp
  show False
  proof (cases "pcomps folder")
    case Nil
    then show False using c assms(3) by (simp add: abs_path_def)
  next
    case (Cons x xs)
    have "good_comp x" using pcomps_good [OF assms(1)] Cons by simp
    then obtain y ys where "x = y # ys" "y \<noteq> CHR ''/''" by (cases x) (auto simp: good_comp_def)
    then have "folder ! 1 \<noteq> CHR ''/''" using c Cons by (cases xs) (auto simp: abs_path_def)
    then show False using r by simp
  qed
qed

end
