(* ===== verification/Zfs_Store.thy ===== *)
theory Zfs_Store
  imports Zfs_Correct Endpoint
begin

section \<open>ZFS as a store of properties and snapshots\<close>

text \<open>
  The other theories about \<open>zfs.go\<close> hold whatever \<open>zfs\<close> answers. Here the answers are those its manual
  documents, for the commands the library needs: user properties are strings below 8 KB, set and
  cleared one by one and inherited, by a dataset from its parent and by a snapshot from its dataset;
  a rename moves a snapshot with its properties to a free name, a destroy removes both, a list prints them in the order of
  creation, and asked for a dataset by name it fails if there is none (it is asked for the snapshots of existing datasets
  only). A snapshot gets the next identity (a guid, numbered here in the order of creation) and its time; a
  full stream creates a dataset with the snapshot, an increment asks for the base on both sides and, with
  \<open>-F\<close>, first removes what the receiver has after it. A receive is done or not done: the store holds no
  partial ones. What has been written since a snapshot is not the store's to know: any text. A run \<open>follows\<close> the store when the answers to its commands are those of the store, command
  by command; \<open>ensures\<close> is the triple over runs that do.
\<close>

record snapshot =
  sn_ds :: string
  sn_name :: string
  sn_guid :: nat
  sn_time :: nat

record zstore =
  st_own :: "string \<Rightarrow> string \<Rightarrow> string option"
  st_snaps :: "snapshot list"
  st_sets :: "string list"
  st_next :: nat
  st_clock :: "nat \<Rightarrow> nat"
  st_written :: "string \<times> bool"

definition full_name :: "snapshot \<Rightarrow> string" where
  "full_name s = sn_ds s @ ''@'' @ sn_name s"

text \<open>A target and what it inherits from, nearest first.\<close>

definition chain :: "string \<Rightarrow> string list" where
  "chain t = t # map (\<lambda>i. take i t) (filter (\<lambda>i. t ! i = CHR ''/'' \<or> t ! i = CHR ''@'') (rev [0..<length t]))"

definition prop_value :: "zstore \<Rightarrow> string \<Rightarrow> string \<Rightarrow> string" where
  "prop_value st p t =
     (case find (\<lambda>x. st_own st x p \<noteq> None) (chain t) of
        None \<Rightarrow> ''-''
      | Some x \<Rightarrow> (case st_own st x p of None \<Rightarrow> ''-'' | Some v \<Rightarrow> v))"

definition set_own :: "string \<Rightarrow> string \<Rightarrow> string option \<Rightarrow> zstore \<Rightarrow> zstore" where
  "set_own t p v st = st\<lparr>st_own := (st_own st)(t := (st_own st t)(p := v))\<rparr>"

definition snap_line :: "snapshot \<Rightarrow> string" where
  "snap_line s = full_name s @ [CHR 0x09] @ nat_str (sn_guid s) @ [CHR 0x09] @ nat_str (sn_time s)"

definition list_text :: "zstore \<Rightarrow> string \<Rightarrow> string" where
  "list_text st ds = concat (map (\<lambda>s. snap_line s @ [CHR 0x0A]) (filter (\<lambda>s. sn_ds s = ds) (st_snaps st)))"

definition rename_snap :: "string \<Rightarrow> string \<Rightarrow> zstore \<Rightarrow> zstore" where
  "rename_snap a b st =
     st\<lparr>st_snaps := map (\<lambda>s. if full_name s = a then s\<lparr>sn_name := drop (length (sn_ds s) + 1) b\<rparr> else s) (st_snaps st),
        st_own := (st_own st)(b := st_own st a, a := \<lambda>p. None)\<rparr>"

definition destroy_named :: "string \<Rightarrow> zstore \<Rightarrow> zstore" where
  "destroy_named a st =
     st\<lparr>st_snaps := filter (\<lambda>s. full_name s \<noteq> a) (st_snaps st), st_own := (st_own st)(a := \<lambda>p. None)\<rparr>"

definition take_snap :: "string \<Rightarrow> string \<Rightarrow> zstore \<Rightarrow> zstore" where
  "take_snap ds n st =
     st\<lparr>st_snaps := st_snaps st @ [\<lparr>sn_ds = ds, sn_name = n, sn_guid = st_next st, sn_time = st_clock st (st_next st)\<rparr>],
        st_own := (st_own st)(ds @ ''@'' @ n := \<lambda>p. None), st_next := Suc (st_next st)\<rparr>"

definition has_snap :: "zstore \<Rightarrow> string \<Rightarrow> bool" where
  "has_snap st n \<longleftrightarrow> n \<in> full_name ` set (st_snaps st)"

definition split_prop :: "string \<Rightarrow> string \<times> string" where
  "split_prop a = (case str_index CHR ''='' a of None \<Rightarrow> (a, []) | Some i \<Rightarrow> (take i a, drop (i + 1) a))"

text \<open>What a command prints, whether it succeeds, and the store after it.\<close>

definition zfs_answer :: "string list \<Rightarrow> zstore \<Rightarrow> (string \<times> bool) \<times> zstore" where
  "zfs_answer args st =
     (case args of
        [a1, a2, a3, a4, p, t] \<Rightarrow>
          if [a1, a2, a3, a4] = [''get'', ''-H'', ''-o'', ''value''] then ((prop_value st p t @ [CHR 0x0A], True), st)
          else (([], False), st)
      | [c, a, b] \<Rightarrow>
          if c = ''set'' then
            (case split_prop a of (p, v) \<Rightarrow>
               if length v < 8192 then (([], True), set_own b p (Some v) st) else (([], False), st))
          else if c = ''inherit'' then (([], True), set_own b a None st)
          else if c = ''rename'' then
            (if has_snap st a \<and> \<not> has_snap st b then (([], True), rename_snap a b st) else (([], False), st))
          else (([], False), st)
      | [c, a] \<Rightarrow>
          if c = ''destroy'' then
            (if has_snap st a then (([], True), destroy_named a st) else (([], False), st))
          else if c = ''snapshot'' then
            (case str_index CHR ''@'' a of
               None \<Rightarrow> (([], False), st)
             | Some i \<Rightarrow>
                 if take i a \<in> set (st_sets st) \<and> \<not> has_snap st a
                 then (([], True), take_snap (take i a) (drop (i + 1) a) st) else (([], False), st))
          else (([], False), st)
      | [a1, a2, a3, a4, a5, p, t] \<Rightarrow>
          if [a1, a2, a3, a4, a5] = [''get'', ''-H'', ''-p'', ''-o'', ''value''] then (st_written st, st) else (([], False), st)
      | [b1, b2, b3, b4, b5, b6, b7, b8, b9, b10, b11, ds] \<Rightarrow>
          if [b1, b2, b3, b4, b5, b6, b7, b8, b9, b10, b11] =
             [''list'', ''-H'', ''-p'', ''-t'', ''snapshot'', ''-d'', ''1'', ''-o'', ''name,guid,creation'', ''-s'', ''createtxg'']
          then ((list_text st ds, True), st) else (([], False), st)
      | [b1, b2, b3, b4, ds] \<Rightarrow>
          if [b1, b2, b3, b4] = [''list'', ''-H'', ''-o'', ''name''] \<and> ds \<in> set (st_sets st)
          then ((ds @ [CHR 0x0A], True), st) else (([], False), st)
      | _ \<Rightarrow> (([], False), st))"

text \<open>What a single command can do to the store.\<close>

definition store_step :: "zstore \<Rightarrow> zstore \<Rightarrow> bool" where
  "store_step s s' \<longleftrightarrow> s' = s \<or> (\<exists>t p v. s' = set_own t p v s) \<or>
     (\<exists>a b. has_snap s a \<and> \<not> has_snap s b \<and> s' = rename_snap a b s) \<or> (\<exists>a. s' = destroy_named a s) \<or>
     (\<exists>ds n. ds \<in> set (st_sets s) \<and> \<not> has_snap s (ds @ ''@'' @ n) \<and> CHR ''@'' \<notin> set ds \<and> s' = take_snap ds n s)"

lemma store_step_intros:
  "store_step s s" "store_step s (set_own t p v s)" "store_step s (destroy_named a s)"
  "has_snap s a \<Longrightarrow> \<not> has_snap s b \<Longrightarrow> store_step s (rename_snap a b s)"
  "ds \<in> set (st_sets s) \<Longrightarrow> \<not> has_snap s (ds @ ''@'' @ n) \<Longrightarrow> CHR ''@'' \<notin> set ds \<Longrightarrow> store_step s (take_snap ds n s)"
  unfolding store_step_def by blast+

lemma zfs_effect: "store_step s (snd (zfs_answer args s))"
proof -
  have two: "store_step s (snd (zfs_answer [c, a] s))" for c a
  proof (cases "str_index CHR ''@'' a")
    case None
    show ?thesis unfolding zfs_answer_def list.case None option.case by (simp add: store_step_intros)
  next
    case (Some i)
    then obtain x y where "a = x @ CHR ''@'' # y" "length x = i" "CHR ''@'' \<notin> set x" by (rule str_index_SomeE)
    then show ?thesis using Some by (simp add: zfs_answer_def store_step_intros)
  qed
  have three: "store_step s (snd (zfs_answer [c, a, b] s))" for c a b
    by (simp add: zfs_answer_def store_step_intros split: prod.split)
  have long: "snd (zfs_answer (a # b # c # d # rest) s) = s" for a b c d rest
    by (simp add: zfs_answer_def split: list.split)
  have short: "snd (zfs_answer [] s) = s" "snd (zfs_answer [a] s) = s" for a
    by (simp_all add: zfs_answer_def)
  consider "args = []" | a where "args = [a]" | c a where "args = [c, a]" | c a b where "args = [c, a, b]"
    | a b c d rest where "args = a # b # c # d # rest"
    by (metis list.exhaust)
  then show ?thesis
    by cases (use two three long short in \<open>simp_all add: store_step_intros\<close>)
qed

text \<open>A stream piped into a receive: a full one into a dataset that is not there, or an increment.\<close>

definition snap_at :: "zstore \<Rightarrow> string \<Rightarrow> snapshot option" where
  "snap_at st n = find (\<lambda>u. full_name u = n) (st_snaps st)"

definition receive :: "string \<Rightarrow> snapshot \<Rightarrow> zstore \<Rightarrow> zstore" where
  "receive ds u st =
     st\<lparr>st_snaps := st_snaps st @ [u\<lparr>sn_ds := ds\<rparr>], st_own := (st_own st)(ds @ ''@'' @ sn_name u := \<lambda>p. None)\<rparr>"

definition roll_back :: "string \<Rightarrow> nat \<Rightarrow> zstore \<Rightarrow> zstore" where
  "roll_back ds g st = st\<lparr>st_snaps := filter (\<lambda>u. \<not> (sn_ds u = ds \<and> g < sn_guid u)) (st_snaps st)\<rparr>"

definition receive_full :: "string \<Rightarrow> string \<Rightarrow> zstore \<Rightarrow> bool \<times> zstore" where
  "receive_full full ds st =
     (case snap_at st full of
        None \<Rightarrow> (False, st)
      | Some u \<Rightarrow>
          if ds \<in> set (st_sets st) then (False, st) else (True, receive ds u (st\<lparr>st_sets := st_sets st @ [ds]\<rparr>)))"

definition receive_inc :: "string \<Rightarrow> string \<Rightarrow> string \<Rightarrow> zstore \<Rightarrow> bool \<times> zstore" where
  "receive_inc base full ds st =
     (case (snap_at st base, snap_at st full) of
        (Some b, Some u) \<Rightarrow>
          if sn_ds b = sn_ds u \<and> sn_guid b < sn_guid u \<and> ds \<in> set (st_sets st) \<and>
             list_ex (\<lambda>x. sn_ds x = ds \<and> sn_guid x = sn_guid b) (st_snaps st) \<and>
             \<not> has_snap (roll_back ds (sn_guid b) st) (ds @ ''@'' @ sn_name u)
          then (True, receive ds u (roll_back ds (sn_guid b) st)) else (False, st)
      | _ \<Rightarrow> (False, st))"

definition pipe_answer :: "string list \<Rightarrow> string list \<Rightarrow> zstore \<Rightarrow> bool \<times> zstore" where
  "pipe_answer snd_args rcv_args st =
     (case snd_args of
        [a, full] \<Rightarrow>
          (case rcv_args of
             [r1, r2, r3, ds] \<Rightarrow>
               if a = ''send'' \<and> [r1, r2, r3] = [''recv'', ''-s'', ''-u''] then receive_full full ds st else (False, st)
           | _ \<Rightarrow> (False, st))
      | [a1, a2, base, full] \<Rightarrow>
          (case rcv_args of
             [r1, r2, r3, r4, ds] \<Rightarrow>
               if [a1, a2] = [''send'', ''-i''] \<and> [r1, r2, r3, r4] = [''recv'', ''-s'', ''-F'', ''-u'']
               then receive_inc base full ds st else (False, st)
           | _ \<Rightarrow> (False, st))
      | _ \<Rightarrow> (False, st))"

fun after_cmd :: "zcmd \<Rightarrow> zstore \<Rightarrow> zstore" where
  "after_cmd (Zfs args) st = snd (zfs_answer args st)"
| "after_cmd (Pipe a b) st = snd (pipe_answer a b st)"
| "after_cmd _ st = st"

definition after_log :: "zstore \<Rightarrow> zcmd list \<Rightarrow> zstore" where
  "after_log st log = fold after_cmd log st"

definition follows :: "zenv \<Rightarrow> zstore \<Rightarrow> zcmd list \<Rightarrow> bool" where
  "follows env st log \<longleftrightarrow>
     (\<forall>k < length log.
        (\<forall>args. log ! k = Zfs args \<longrightarrow> ze_zfs env k = fst (zfs_answer args (after_log st (take k log)))) \<and>
        (\<forall>a b. log ! k = Pipe a b \<longrightarrow> ze_pipe env k = fst (pipe_answer a b (after_log st (take k log)))))"

definition ensures :: "zenv \<Rightarrow> zstore \<Rightarrow> 'a z \<Rightarrow> (zstore \<Rightarrow> 'a \<Rightarrow> zstore \<Rightarrow> bool) \<Rightarrow> bool" where
  "ensures env st0 m P \<longleftrightarrow>
     (\<forall>w r w'. m w = (r, w') \<longrightarrow>
        (\<exists>xs. zw_log w' = zw_log w @ xs) \<and>
        (follows env st0 (zw_log w') \<longrightarrow> P (after_log st0 (zw_log w)) r (after_log st0 (zw_log w'))))"

text \<open>The same, in one pass over the commands.\<close>

fun answered :: "zenv \<Rightarrow> nat \<Rightarrow> zstore \<Rightarrow> zcmd list \<Rightarrow> bool" where
  "answered env n s [] = True"
| "answered env n s (cmd # log) =
     ((case cmd of Zfs args \<Rightarrow> ze_zfs env n = fst (zfs_answer args s) | Pipe a b \<Rightarrow> ze_pipe env n = fst (pipe_answer a b s) | _ \<Rightarrow> True) \<and>
      answered env (Suc n) (after_cmd cmd s) log)"

lemma answered_nth:
  "answered env n s log \<Longrightarrow> k < length log \<Longrightarrow>
   (log ! k = Zfs args \<longrightarrow> ze_zfs env (n + k) = fst (zfs_answer args (after_log s (take k log)))) \<and>
   (log ! k = Pipe a b \<longrightarrow> ze_pipe env (n + k) = fst (pipe_answer a b (after_log s (take k log))))"
proof (induction log arbitrary: n s k)
  case (Cons cmd log)
  show ?case
  proof (cases k)
    case 0
    then show ?thesis using Cons.prems by (cases cmd) (simp_all add: after_log_def)
  next
    case (Suc j)
    then show ?thesis using Cons.IH [of "Suc n" "after_cmd cmd s" j] Cons.prems by (simp add: after_log_def)
  qed
qed simp

lemma follows_answered: "answered env 0 st log \<Longrightarrow> follows env st log"
  unfolding follows_def using answered_nth [of env 0 st log] by simp

lemma follows_prefix: "follows env st (a @ b) \<Longrightarrow> follows env st a"
  unfolding follows_def by (auto simp: nth_append dest: spec [of _ "_ :: nat"])

lemma ensures_ret: "P = (\<lambda>s r s'. r = x \<and> s' = s) \<Longrightarrow> ensures env st0 (zret x) P"
  by (simp add: ensures_def zret_def)

lemma ensures_weaken: "ensures env st0 m P \<Longrightarrow> (\<And>s r s'. P s r s' \<Longrightarrow> Q s r s') \<Longrightarrow> ensures env st0 m Q"
  unfolding ensures_def by blast

lemma ensures_seq:
  assumes "ensures env st0 m P" and "\<And>x. ensures env st0 (f x) (Q x)"
  shows "ensures env st0 (zseq m f) (\<lambda>s r s2. \<exists>x s1. P s x s1 \<and> Q x s1 r s2)"
  unfolding ensures_def
proof (intro allI impI)
  fix w r w'
  assume run: "zseq m f w = (r, w')"
  obtain x w1 where m: "m w = (x, w1)" by force
  then have f: "f x w1 = (r, w')" using run by (simp add: zseq_def)
  obtain xs where xs: "zw_log w1 = zw_log w @ xs" using assms(1) m unfolding ensures_def by blast
  obtain ys where ys: "zw_log w' = zw_log w1 @ ys" using assms(2) f unfolding ensures_def by blast
  have "\<exists>x s1. P (after_log st0 (zw_log w)) x s1 \<and> Q x s1 r (after_log st0 (zw_log w'))" if fo: "follows env st0 (zw_log w')"
  proof -
    have "follows env st0 (zw_log w1)" using fo ys follows_prefix by metis
    then have "P (after_log st0 (zw_log w)) x (after_log st0 (zw_log w1))" using assms(1) m unfolding ensures_def by blast
    moreover have "Q x (after_log st0 (zw_log w1)) r (after_log st0 (zw_log w'))"
      using assms(2) f fo unfolding ensures_def by blast
    ultimately show ?thesis by blast
  qed
  then show "(\<exists>xs. zw_log w' = zw_log w @ xs) \<and>
      (follows env st0 (zw_log w') \<longrightarrow> (\<exists>x s1. P (after_log st0 (zw_log w)) x s1 \<and> Q x s1 r (after_log st0 (zw_log w'))))"
    using xs ys by auto
qed

lemma ensures_try:
  assumes "ensures env st0 m P" and "\<And>x. ensures env st0 (f x) (Q x)"
  shows "ensures env st0 (ztry m f) (\<lambda>s r s2. (\<exists>e. P s (Inl e) s2 \<and> r = Inl e) \<or> (\<exists>x s1. P s (Inr x) s1 \<and> Q x s1 r s2))"
proof -
  have "ensures env st0 (case r of Inl e \<Rightarrow> zret (Inl e) | Inr x \<Rightarrow> f x)
      (\<lambda>s v s2. (\<exists>e. r = Inl e \<and> v = Inl e \<and> s2 = s) \<or> (\<exists>x. r = Inr x \<and> Q x s v s2))" for r
  proof (cases r)
    case (Inl e)
    then show ?thesis by (auto simp: ensures_def zret_def)
  next
    case (Inr x)
    then show ?thesis using assms(2) [of x] by simp
  qed
  from ensures_seq [OF assms(1) this] show ?thesis
    unfolding ztry_def by (rule ensures_weaken) blast
qed

lemma after_log_snoc: "after_log st (log @ [c]) = after_cmd c (after_log st log)"
  by (simp add: after_log_def)

lemma ensures_run:
  "ensures env st0 (zfs_run env args)
     (\<lambda>s r s'. case zfs_answer args s of ((out, ok), t) \<Rightarrow> s' = t \<and> r = (if ok then Inr (trim_space out) else Inl (ZfsFailed args)))"
  unfolding ensures_def
proof (intro allI impI)
  fix w r w'
  assume run: "zfs_run env args w = (r, w')"
  obtain out ok where a: "ze_zfs env (length (zw_log w)) = (out, ok)" by force
  have l: "zw_log w' = zw_log w @ [Zfs args]" and r: "r = (if ok then Inr (trim_space out) else Inl (ZfsFailed args))"
    using run a by (auto simp: zfs_run_def issue_def)
  have "ze_zfs env (length (zw_log w)) = fst (zfs_answer args (after_log st0 (zw_log w)))" if "follows env st0 (zw_log w')"
    using that unfolding follows_def l by (auto dest!: spec [of _ "length (zw_log w)"])
  then show "(\<exists>xs. zw_log w' = zw_log w @ xs) \<and> (follows env st0 (zw_log w') \<longrightarrow>
      (case zfs_answer args (after_log st0 (zw_log w)) of ((out, ok), t) \<Rightarrow>
         after_log st0 (zw_log w') = t \<and> r = (if ok then Inr (trim_space out) else Inl (ZfsFailed args))))"
    using a r by (auto simp: l after_log_snoc split: prod.splits)
qed

subsection \<open>The configuration of a guest\<close>

lemma ensures_get:
  "ensures env st0 (zfs_get env p t) (\<lambda>s r s'. s' = s \<and> r = trim_space (prop_value s p t @ [CHR 0x0A]))"
  unfolding zfs_get_def
  by (rule ensures_weaken [OF ensures_seq [OF ensures_run]], rule ensures_ret, rule refl) (auto simp: zfs_answer_def)

lemma ensures_set:
  assumes "CHR ''='' \<notin> set p" and "length v < 8192"
  shows "ensures env st0 (zfs_run env [''set'', p @ ''='' @ v, t]) (\<lambda>s r s'. r = Inr [] \<and> s' = set_own t p (Some v) s)"
  by (rule ensures_weaken [OF ensures_run])
    (use assms str_index_cut [OF assms(1), of v] in \<open>auto simp: zfs_answer_def split_prop_def trim_space_def\<close>)

lemma ensures_inherit:
  "ensures env st0 (zdo env [''inherit'', p, t]) (\<lambda>s r s'. s' = set_own t p None s)"
  unfolding zdo_def
  by (rule ensures_weaken [OF ensures_seq [OF ensures_run]], rule ensures_ret, rule refl) (auto simp: zfs_answer_def)

definition clean_value :: "string \<Rightarrow> bool" where
  "clean_value v \<longleftrightarrow> (\<forall>c \<in> set v. \<not> is_space c)"

lemma trim_line: "clean_value v \<Longrightarrow> trim_space (v @ [CHR 0x0A]) = v"
proof -
  assume v: "clean_value v"
  have 1: "dropWhile is_space t = t" if "\<forall>c \<in> set t. \<not> is_space c" for t
    using that by (cases t) auto
  show ?thesis
  proof (cases "v = []")
    case True
    then show ?thesis by (simp add: trim_space_def is_space_def)
  next
    case False
    then have "dropWhile is_space (v @ [CHR 0x0A]) = v @ [CHR 0x0A]"
      using v by (cases v) (auto simp: clean_value_def)
    then show ?thesis using v 1 [of "rev v"] by (simp add: trim_space_def clean_value_def is_space_def)
  qed
qed

text \<open>Reading the chunks, without the commands.\<close>

fun conf_read :: "zstore \<Rightarrow> string \<Rightarrow> nat \<Rightarrow> nat \<Rightarrow> string" where
  "conf_read st t 0 i = []"
| "conf_read st t (Suc n) i =
     (let v = trim_space (prop_value st (conf_prop i) t @ [CHR 0x0A])
      in if unset v then [] else v @ conf_read st t n (i + 1))"

lemma ensures_cong: "ensures env st0 m P \<Longrightarrow> (\<And>w. m w = m' w) \<Longrightarrow> ensures env st0 m' P"
  by (simp add: ensures_def)

lemma ensures_read: "ensures env st0 (get_conf_from env t n i) (\<lambda>s r s'. s' = s \<and> r = conf_read s t n i)"
proof (induction n arbitrary: i)
  case 0
  have "ensures env st0 (zret []) (\<lambda>s r s'. s' = s \<and> r = conf_read s t 0 i)" by (auto simp: ensures_def zret_def)
  then show ?case by (rule ensures_cong) simp
next
  case (Suc n)
  have "ensures env st0 (if unset v then zret [] else zseq (get_conf_from env t n (i + 1)) (\<lambda>r. zret (v @ r)))
      (\<lambda>s r s'. s' = s \<and> r = (if unset v then [] else v @ conf_read s t n (i + 1)))" for v
  proof (cases "unset v")
    case True
    then show ?thesis by (auto simp: ensures_def zret_def)
  next
    case False
    have "ensures env st0 (zseq (get_conf_from env t n (i + 1)) (\<lambda>r. zret (v @ r)))
        (\<lambda>s r s'. \<exists>x s1. (s1 = s \<and> x = conf_read s t n (i + 1)) \<and> (r = v @ x \<and> s' = s1))"
      by (rule ensures_seq [OF Suc]) (rule ensures_ret, rule refl)
    then show ?thesis using False by (auto elim!: ensures_weaken)
  qed
  from ensures_seq [OF ensures_get this]
  have "ensures env st0 (zseq (zfs_get env (conf_prop i) t) (\<lambda>v. if unset v then zret [] else zseq (get_conf_from env t n (i + 1)) (\<lambda>r. zret (v @ r))))
      (\<lambda>s r s'. s' = s \<and> r = conf_read s t (Suc n) i)"
    by (rule ensures_weaken) (auto simp: Let_def)
  then show ?case by (rule ensures_cong) simp
qed

fun put_pieces :: "string \<Rightarrow> nat \<Rightarrow> string list \<Rightarrow> zstore \<Rightarrow> zstore" where
  "put_pieces t i [] st = st"
| "put_pieces t i (p # ps) st = put_pieces t (i + 1) ps (set_own t (conf_prop i) (Some p) st)"

lemma nat_str_inj: "nat_str m = nat_str n \<longleftrightarrow> m = n"
  by (metis digits_val_nat_str)

lemma conf_prop_inj: "conf_prop i = conf_prop j \<longleftrightarrow> i = j"
  by (simp add: conf_prop_def nat_str_inj)

lemma conf_prop_no_eq: "CHR ''='' \<notin> set (conf_prop i)"
  using nat_str_no [of "CHR ''=''" i] by (auto simp: conf_prop_def is_digit_def)

lemma ensures_pieces:
  "\<forall>p \<in> set ps. length p < 8192 \<Longrightarrow> ensures env st0 (set_pieces env t i ps) (\<lambda>s r s'. r = Inr () \<and> s' = put_pieces t i ps s)"
proof (induction ps arbitrary: i)
  case Nil
  have "ensures env st0 (zret (Inr ())) (\<lambda>s r s'. r = Inr () \<and> s' = put_pieces t i [] s)" by (auto simp: ensures_def zret_def)
  then show ?case by (rule ensures_cong) simp
next
  case (Cons p ps)
  have "length p < 8192" using Cons.prems by simp
  have ih: "ensures env st0 (set_pieces env t (i + 1) ps) (\<lambda>s r s'. r = Inr () \<and> s' = put_pieces t (i + 1) ps s)" for x :: string
    using Cons by simp
  from ensures_try [OF ensures_set [OF conf_prop_no_eq [of i] \<open>length p < 8192\<close>] ih]
  have "ensures env st0 (ztry (zfs_run env [''set'', conf_prop i @ ''='' @ p, t]) (\<lambda>_. set_pieces env t (i + 1) ps))
      (\<lambda>s r s'. r = Inr () \<and> s' = put_pieces t i (p # ps) s)"
    by (rule ensures_weaken) auto
  then show ?case by (rule ensures_cong) simp
qed

lemma put_pieces_other:
  "x \<noteq> t \<or> (\<forall>k < length ps. q \<noteq> conf_prop (i + k)) \<Longrightarrow> st_own (put_pieces t i ps st) x q = st_own st x q"
proof (induction ps arbitrary: i st)
  case (Cons p ps)
  have "q \<noteq> conf_prop (i + 1 + k)" if "x = t" "k < length ps" for k
    using Cons.prems that by (auto dest!: spec [of _ "Suc k"])
  then have "x \<noteq> t \<or> (\<forall>k < length ps. q \<noteq> conf_prop (i + 1 + k))" by blast
  moreover have "x \<noteq> t \<or> q \<noteq> conf_prop i" using Cons.prems by (auto dest!: spec [of _ 0])
  ultimately show ?case using Cons.IH by (auto simp: set_own_def)
qed simp

lemma put_pieces_at: "k < length ps \<Longrightarrow> st_own (put_pieces t i ps st) t (conf_prop (i + k)) = Some (ps ! k)"
proof (induction ps arbitrary: i k st)
  case (Cons p ps)
  show ?case
  proof (cases k)
    case 0
    have "st_own (put_pieces t (i + 1) ps (set_own t (conf_prop i) (Some p) st)) t (conf_prop i) = Some p"
      by (subst put_pieces_other) (auto simp: conf_prop_inj set_own_def)
    then show ?thesis using 0 by simp
  next
    case (Suc j)
    then show ?thesis using Cons.IH [of j "i + 1"] Cons.prems by simp
  qed
qed simp

text \<open>Nothing the target inherits from carries a configuration.\<close>

definition clean_above :: "zstore \<Rightarrow> string \<Rightarrow> bool" where
  "clean_above st t \<longleftrightarrow> (\<forall>x \<in> set (tl (chain t)). \<forall>i. st_own st x (conf_prop i) = None)"

lemma chain_above: "x \<in> set (tl (chain t)) \<Longrightarrow> x \<noteq> t"
  by (auto simp: chain_def dest!: arg_cong [of _ _ length])

lemma clean_above_value:
  assumes "clean_above st t"
  shows "prop_value st (conf_prop i) t = (case st_own st t (conf_prop i) of None \<Rightarrow> ''-'' | Some v \<Rightarrow> v)"
proof -
  obtain L where L: "chain t = t # L" by (simp add: chain_def)
  have f: "find (\<lambda>x. st_own st x (conf_prop i) \<noteq> None) L = None"
    using assms by (simp add: clean_above_def find_None_iff L)
  show ?thesis by (cases "st_own st t (conf_prop i)") (simp_all only: prop_value_def L find.simps f option.simps not_True_eq_False not_False_eq_True if_True if_False simp_thms)
qed

lemma clean_above_keeps: "clean_above st t \<Longrightarrow> (\<forall>x q. x \<noteq> t \<longrightarrow> st_own st' x q = st_own st x q) \<Longrightarrow> clean_above st' t"
  using chain_above unfolding clean_above_def by metis

lemma unset_dash: "unset (trim_space (''-'' @ [CHR 0x0A]))"
  using trim_line [of "''-''"] by (simp add: unset_def clean_value_def is_space_def)

definition dropped :: "string \<Rightarrow> nat \<Rightarrow> nat \<Rightarrow> zstore \<Rightarrow> zstore \<Rightarrow> bool" where
  "dropped t n i s s' \<longleftrightarrow>
     (\<forall>x q. x \<noteq> t \<or> (\<forall>j \<ge> i. q \<noteq> conf_prop j) \<longrightarrow> st_own s' x q = st_own s x q) \<and>
     (0 < n \<longrightarrow> clean_above s t \<longrightarrow> unset (trim_space (prop_value s' (conf_prop i) t @ [CHR 0x0A])))"

lemma dropped_step:
  assumes "dropped t n (i + 1) (set_own t (conf_prop i) None s) s'"
  shows "dropped t (Suc n) i s s'"
proof -
  have o: "st_own s' x q = st_own (set_own t (conf_prop i) None s) x q" if "x \<noteq> t \<or> (\<forall>j \<ge> i + 1. q \<noteq> conf_prop j)" for x q
    using assms that unfolding dropped_def by blast
  have "st_own s' t (conf_prop i) = None" using o [of t "conf_prop i"] by (auto simp: conf_prop_inj set_own_def)
  moreover have "st_own s' x q = st_own s x q" if "x \<noteq> t" for x q using o [of x q] that by (simp add: set_own_def)
  ultimately have "clean_above s t \<Longrightarrow> unset (trim_space (prop_value s' (conf_prop i) t @ [CHR 0x0A]))"
    using clean_above_value [OF clean_above_keeps [of s t s']] unset_dash by simp
  moreover have "st_own s' x q = st_own s x q" if "x \<noteq> t \<or> (\<forall>j \<ge> i. q \<noteq> conf_prop j)" for x q
    using o [of x q] that by (auto simp: set_own_def)
  ultimately show ?thesis unfolding dropped_def by blast
qed

lemma ensures_drop: "ensures env st0 (drop_old_chunks env t n i) (\<lambda>s r s'. dropped t n i s s')"
proof (induction n arbitrary: i)
  case 0
  have "ensures env st0 (zret ()) (\<lambda>s r s'. dropped t 0 i s s')" by (auto simp: ensures_def zret_def dropped_def)
  then show ?case by (rule ensures_cong) simp
next
  case (Suc n)
  have "ensures env st0 (if unset v then zret () else zseq (zdo env [''inherit'', conf_prop i, t]) (\<lambda>_. drop_old_chunks env t n (i + 1)))
      (\<lambda>s r s'. (unset v \<and> s' = s) \<or> dropped t (Suc n) i s s')" for v
  proof (cases "unset v")
    case True
    then show ?thesis by (auto simp: ensures_def zret_def)
  next
    case False
    have "ensures env st0 (zseq (zdo env [''inherit'', conf_prop i, t]) (\<lambda>_. drop_old_chunks env t n (i + 1)))
        (\<lambda>s r s'. dropped t (Suc n) i s s')"
      by (rule ensures_weaken [OF ensures_seq [OF ensures_inherit Suc]]) (auto intro: dropped_step)
    then show ?thesis using False by (auto elim!: ensures_weaken)
  qed
  from ensures_seq [OF ensures_get this]
  have "ensures env st0 (zseq (zfs_get env (conf_prop i) t) (\<lambda>v. if unset v then zret () else zseq (zdo env [''inherit'', conf_prop i, t]) (\<lambda>_. drop_old_chunks env t n (i + 1))))
      (\<lambda>s r s'. dropped t (Suc n) i s s')"
    by (rule ensures_weaken) (auto simp: dropped_def)
  then show ?case by (rule ensures_cong) simp
qed

lemma concat_pieces: "concat (conf_pieces enc) = enc"
proof (induction enc rule: conf_pieces.induct)
  case (1 enc)
  then show ?case by (cases "enc = []") (simp_all add: conf_pieces.simps [of enc] conf_pieces.simps [of "[]"])
qed

lemma piece_ok: "p \<in> set (conf_pieces enc) \<Longrightarrow> p \<noteq> [] \<and> length p \<le> conf_chunk \<and> set p \<subseteq> set enc"
proof (induction enc rule: conf_pieces.induct)
  case (1 enc)
  show ?case
  proof (cases "enc = []")
    case True
    then show ?thesis using 1(2) by (simp add: conf_pieces.simps)
  next
    case False
    then have "p = take conf_chunk enc \<or> p \<in> set (conf_pieces (drop conf_chunk enc))"
      using 1(2) by (simp add: conf_pieces.simps [of enc])
    then show ?thesis
      using 1(1) [OF False] False set_take_subset [of conf_chunk enc] set_drop_subset [of conf_chunk enc] by (auto simp: conf_chunk_def)
  qed
qed

lemma conf_read_concat:
  assumes "length ps < n" and "\<forall>k < length ps. trim_space (prop_value s (conf_prop (i + k)) t @ [CHR 0x0A]) = ps ! k \<and> \<not> unset (ps ! k)"
    and "unset (trim_space (prop_value s (conf_prop (i + length ps)) t @ [CHR 0x0A]))"
  shows "conf_read s t n i = concat ps"
  using assms
proof (induction ps arbitrary: i n)
  case Nil
  then show ?case by (cases n) (simp_all add: Let_def)
next
  case (Cons p ps)
  obtain m where n: "n = Suc m" using Cons.prems(1) by (cases n) auto
  have "conf_read s t m (i + 1) = concat ps"
  proof (rule Cons.IH)
    have "trim_space (prop_value s (conf_prop (i + 1 + k)) t @ [CHR 0x0A]) = ps ! k \<and> \<not> unset (ps ! k)" if "k < length ps" for k
      using spec [OF Cons.prems(2), of "Suc k"] that by simp
    then show "\<forall>k < length ps. trim_space (prop_value s (conf_prop (i + 1 + k)) t @ [CHR 0x0A]) = ps ! k \<and> \<not> unset (ps ! k)"
      by blast
  qed (use Cons.prems n in simp_all)
  moreover have "trim_space (prop_value s (conf_prop i) t @ [CHR 0x0A]) = p" "\<not> unset p"
    using Cons.prems(2) by (auto dest!: spec [of _ 0])
  ultimately show ?case by (simp add: n Let_def)
qed

definition conf_text_ok :: "string \<Rightarrow> bool" where
  "conf_text_ok enc \<longleftrightarrow> clean_value enc \<and> CHR ''-'' \<notin> set enc"

lemma ensures_set_conf:
  assumes "CHR ''@'' \<notin> set t" and "conf_text_ok enc" and "length (conf_pieces enc) < ze_chunks env"
  shows "ensures env st0 (set_conf_prop env t enc)
    (\<lambda>s r s'. clean_above s t \<longrightarrow> r = Inr () \<and> clean_above s' t \<and> conf_read s' t (ze_chunks env) 0 = enc)"
proof -
  let ?ps = "conf_pieces enc"
  have len: "\<forall>p \<in> set ?ps. length p < 8192" using piece_ok by (fastforce simp: conf_chunk_def)
  have good: "clean_value (?ps ! k) \<and> \<not> unset (?ps ! k)" if "k < length ?ps" for k
    using piece_ok [OF nth_mem [OF that]] assms(2) by (auto simp: conf_text_ok_def clean_value_def unset_def)
  have post: "clean_above s' t \<and> conf_read s' t (ze_chunks env) 0 = enc"
    if c: "clean_above s t" and d: "dropped t (ze_chunks env) (length ?ps) (put_pieces t 0 ?ps s) s'" for s s'
  proof -
    have c1: "clean_above (put_pieces t 0 ?ps s) t" by (rule clean_above_keeps [OF c]) (simp add: put_pieces_other)
    have o: "st_own s' x q = st_own (put_pieces t 0 ?ps s) x q" if "x \<noteq> t \<or> (\<forall>j \<ge> length ?ps. q \<noteq> conf_prop j)" for x q
      using d that unfolding dropped_def by blast
    have c2: "clean_above s' t" by (rule clean_above_keeps [OF c1]) (simp add: o)
    have "st_own s' t (conf_prop k) = Some (?ps ! k)" if "k < length ?ps" for k
      using o [of t "conf_prop k"] put_pieces_at [OF that, of t 0 s] that by (auto simp: conf_prop_inj)
    then have "trim_space (prop_value s' (conf_prop (0 + k)) t @ [CHR 0x0A]) = ?ps ! k \<and> \<not> unset (?ps ! k)" if "k < length ?ps" for k
      using that good [OF that] clean_above_value [OF c2, of k] trim_line [of "?ps ! k"] by simp
    moreover have "unset (trim_space (prop_value s' (conf_prop (0 + length ?ps)) t @ [CHR 0x0A]))"
      using d c1 assms(3) unfolding dropped_def by simp
    ultimately have "conf_read s' t (ze_chunks env) 0 = concat ?ps" using assms(3) by (intro conf_read_concat) auto
    then show ?thesis using c2 concat_pieces by simp
  qed
  have "ensures env st0 (zseq (drop_old_chunks env t (ze_chunks env) (length ?ps)) (\<lambda>_. zret (Inr ())))
      (\<lambda>s r s'. r = Inr () \<and> dropped t (ze_chunks env) (length ?ps) s s')" for x :: unit
    by (rule ensures_weaken [OF ensures_seq [OF ensures_drop]], rule ensures_ret, rule refl) auto
  from ensures_try [OF ensures_pieces [OF len] this]
  have "ensures env st0 (ztry (set_pieces env t 0 ?ps) (\<lambda>_. zseq (drop_old_chunks env t (ze_chunks env) (length ?ps)) (\<lambda>_. zret (Inr ()))))
      (\<lambda>s r s'. clean_above s t \<longrightarrow> r = Inr () \<and> clean_above s' t \<and> conf_read s' t (ze_chunks env) 0 = enc)"
    by (rule ensures_weaken) (use post in auto)
  then show ?thesis by (rule ensures_cong) (simp add: set_conf_prop_def assms(1))
qed

lemma conf_set_and_read:
  assumes "CHR ''@'' \<notin> set t" and "conf_text_ok enc" and "length (conf_pieces enc) < ze_chunks env"
  shows "ensures env st0 (zseq (set_conf_prop env t enc) (\<lambda>_. get_conf_prop env t)) (\<lambda>s r s'. clean_above s t \<longrightarrow> r = enc)"
  by (rule ensures_weaken [OF ensures_seq [OF ensures_set_conf [OF assms]]], unfold get_conf_prop_def, rule ensures_read) auto

subsection \<open>What is stored can be restored\<close>

text \<open>
  \<open>encodeConf\<close> and \<open>decodeConf\<close>; \<open>pack\<close> is gzip followed by base64, \<open>unpack\<close> its inverse, which fails on
  what is no output of it.
\<close>

definition encode_conf :: "(string \<Rightarrow> string) \<Rightarrow> string \<Rightarrow> string \<Rightarrow> string \<Rightarrow> string" where
  "encode_conf pack kind i body = ''gz1:'' @ pack (''#cs-pve '' @ kind @ '' '' @ i @ [CHR 0x0A] @ body)"

definition decode_conf :: "(string \<Rightarrow> string option) \<Rightarrow> string \<Rightarrow> (string \<times> string \<times> string) option" where
  "decode_conf unpack s =
     (if \<not> has_prefix s ''gz1:'' then None
      else case unpack (drop 4 s) of
        None \<Rightarrow> None
      | Some t \<Rightarrow>
          (case str_index CHR 0x0A t of
             None \<Rightarrow> None
           | Some n \<Rightarrow>
               (case str_fields (take n t) of
                  [h, k, i] \<Rightarrow> if h = ''#cs-pve'' then Some (k, i, drop (n + 1) t) else None
                | _ \<Rightarrow> None)))"

definition base64_char :: "char \<Rightarrow> bool" where
  "base64_char c \<longleftrightarrow> is_alpha c \<or> is_digit c \<or> c = CHR ''+'' \<or> c = CHR ''/'' \<or> c = CHR ''=''"

definition codec :: "(string \<Rightarrow> string) \<Rightarrow> (string \<Rightarrow> string option) \<Rightarrow> bool" where
  "codec pack unpack \<longleftrightarrow> (\<forall>x. unpack (pack x) = Some x \<and> (\<forall>c \<in> set (pack x). base64_char c))"

definition word :: "string \<Rightarrow> bool" where
  "word s \<longleftrightarrow> s \<noteq> [] \<and> (\<forall>c \<in> set s. \<not> is_space c)"

lemma fields_three: "word a \<Longrightarrow> word b \<Longrightarrow> word c \<Longrightarrow> str_fields (a @ '' '' @ b @ '' '' @ c) = [a, b, c]"
proof -
  assume w: "word a" "word b" "word c"
  have sp: "is_space CHR '' ''" by (simp add: is_space_def)
  have "split_by is_space (a @ CHR '' '' # b @ CHR '' '' # c) = a # split_by is_space (b @ CHR '' '' # c)"
    using w(1) sp by (intro split_by_append) (auto simp: word_def)
  also have "split_by is_space (b @ CHR '' '' # c) = b # split_by is_space c"
    using w(2) sp by (intro split_by_append) (auto simp: word_def)
  also have "split_by is_space c = [c]" using w(3) by (intro split_by_word) (auto simp: word_def)
  finally show ?thesis using w by (simp add: str_fields_def word_def)
qed

lemma decode_encode:
  assumes "codec pack unpack" and "word kind" and "word i"
  shows "decode_conf unpack (encode_conf pack kind i body) = Some (kind, i, body)"
proof -
  let ?h = "''#cs-pve'' @ '' '' @ kind @ '' '' @ i"
  have h: "word ''#cs-pve''" by (simp add: word_def is_space_def)
  have "CHR 0x0A \<notin> set ?h" using assms(2,3) by (auto simp: word_def is_space_def)
  then have x: "str_index CHR 0x0A (?h @ CHR 0x0A # body) = Some (length ?h)" by (rule str_index_cut)
  have u: "unpack (pack (?h @ CHR 0x0A # body)) = Some (?h @ CHR 0x0A # body)" using assms(1) by (simp add: codec_def)
  have e: "encode_conf pack kind i body = ''gz1:'' @ pack (?h @ CHR 0x0A # body)" by (simp add: encode_conf_def)
  have f: "str_fields (take (length ?h) (?h @ CHR 0x0A # body)) = [''#cs-pve'', kind, i]"
    using fields_three [OF h assms(2,3)] by simp
  have d: "drop (length ?h + 1) (?h @ CHR 0x0A # body) = body" by simp
  have p: "has_prefix (''gz1:'' @ z) ''gz1:''" "drop 4 (''gz1:'' @ z) = z" for z by (simp_all add: has_prefix_def)
  show ?thesis unfolding decode_conf_def e p u option.simps x f d by (simp only: p simp_thms if_False list.simps if_True)
qed

lemma base64_clean: "base64_char c \<Longrightarrow> \<not> is_space c \<and> c \<noteq> CHR ''-''"
  by (auto simp: base64_char_def is_space_def is_alpha_def is_digit_def)

lemma encode_ok: "codec pack unpack \<Longrightarrow> conf_text_ok (encode_conf pack kind i body)"
  using base64_clean by (fastforce simp: codec_def encode_conf_def conf_text_ok_def clean_value_def is_space_def)

definition ex_pack :: "string \<Rightarrow> string" where
  "ex_pack s = concat (map (\<lambda>c. [char_of (65 + (of_char c :: nat) div 16), char_of (65 + (of_char c :: nat) mod 16)]) s)"

fun ex_unpack :: "string \<Rightarrow> string option" where
  "ex_unpack (a # b # s) = map_option (\<lambda>t. char_of (16 * ((of_char a :: nat) - 65) + ((of_char b :: nat) - 65)) # t) (ex_unpack s)"
| "ex_unpack [] = Some []"
| "ex_unpack [a] = None"

lemma ex_letter: "n < 16 \<Longrightarrow> base64_char (char_of (65 + n :: nat))"
  by (simp add: base64_char_def is_alpha_def less_eq_char_def)

lemma ex_codec: "codec ex_pack ex_unpack"
  unfolding codec_def
proof (intro allI conjI)
  fix s
  have n: "(of_char c :: nat) div 16 < 16" for c :: char using nat_of_char_less_256 [of c] by (simp only: less_mult_imp_div_less)
  show "ex_unpack (ex_pack s) = Some s"
  proof (induction s)
    case (Cons c s)
    have "(65 + (of_char c :: nat) div 16) mod 256 = 65 + of_char c div 16" using n [of c] by simp
    moreover have "(65 + (of_char c :: nat) mod 16) mod 256 = 65 + of_char c mod 16" by simp
    ultimately show ?case using Cons by (simp add: ex_pack_def)
  qed (simp add: ex_pack_def)
  show "\<forall>c \<in> set (ex_pack s). base64_char c"
    using n ex_letter by (auto simp: ex_pack_def)
qed

definition ex_conf :: string where
  "ex_conf = encode_conf ex_pack ''qemu'' ''1'' []"

definition ex_answers :: "nat \<Rightarrow> string \<times> bool" where
  "ex_answers n = (if n = 0 then ([], True) else if n = 2 then (ex_conf @ [CHR 0x0A], True) else (''-'' @ [CHR 0x0A], True))"

definition ex_store :: zstore where
  "ex_store = \<lparr>st_own = (\<lambda>t p. None), st_snaps = [], st_sets = [], st_next = 9, st_clock = (\<lambda>n. n), st_written = ([], True)\<rparr>"

definition ex_store_env :: zenv where
  "ex_store_env = ex_zenv\<lparr>ze_zfs := ex_answers, ze_chunks := 2\<rparr>"

lemma ex_conf_facts: "ex_conf \<noteq> []" "length ex_conf \<le> conf_chunk" "conf_text_ok ex_conf" "\<not> unset ex_conf"
proof -
  show ok: "conf_text_ok ex_conf" unfolding ex_conf_def by (rule encode_ok [OF ex_codec])
  have "length (ex_pack s) = 2 * length s" for s by (induction s) (simp_all add: ex_pack_def)
  then show l: "length ex_conf \<le> conf_chunk" by (simp add: ex_conf_def encode_conf_def conf_chunk_def)
  show ne: "ex_conf \<noteq> []" by (simp add: ex_conf_def encode_conf_def)
  have "ex_conf \<noteq> ''-''" by (simp add: ex_conf_def encode_conf_def)
  then show "\<not> unset ex_conf" using ne by (simp add: unset_def)
qed

lemma ex_conf_trim: "trim_space (ex_conf @ [CHR 0x0A]) = ex_conf"
  using trim_line ex_conf_facts(3) by (simp add: conf_text_ok_def)

lemma dash_trim: "trim_space [CHR ''-'', CHR 0x0A] = ''-''"
  using trim_line [of "''-''"] by (simp add: clean_value_def is_space_def)

lemma ex_conf_pieces: "conf_pieces ex_conf = [ex_conf]"
  using ex_conf_facts by (simp add: conf_pieces.simps [of ex_conf] conf_pieces.simps [of "[]"])

definition ex_conf_log :: "zcmd list" where
  "ex_conf_log = [Zfs [''set'', ''cs:pveconf='' @ ex_conf, ''t''], Zfs [''get'', ''-H'', ''-o'', ''value'', ''cs:pveconf.1'', ''t''],
     Zfs [''get'', ''-H'', ''-o'', ''value'', ''cs:pveconf'', ''t''], Zfs [''get'', ''-H'', ''-o'', ''value'', ''cs:pveconf.1'', ''t'']]"

lemma nat_str_one: "nat_str (Suc 0) = ''1''"
  by code_simp

lemma ex_conf_run:
  "zseq (set_conf_prop ex_store_env ''t'' ex_conf) (\<lambda>_. get_conf_prop ex_store_env ''t'') (ex_zw\<lparr>zw_log := []\<rparr>) =
     (ex_conf, ex_zw\<lparr>zw_log := ex_conf_log\<rparr>)"
proof -
  have u: "unset ''-''" by (simp add: unset_def)
  have e: "ze_zfs ex_store_env = ex_answers" "ze_chunks ex_store_env = 2" by (simp_all add: ex_store_env_def)
  show ?thesis
    using ex_conf_facts(4)
    by (simp add: set_conf_prop_def get_conf_prop_def ex_conf_pieces numeral_2_eq_2 zseq_def ztry_def zret_def zdo_def zfs_get_def zfs_run_def issue_def
        e ex_answers_def ex_conf_trim dash_trim u conf_prop_def nat_str_one ex_conf_log_def)
qed

lemma ex_conf_follows: "follows ex_store_env ex_store ex_conf_log"
proof -
  have v: "length ex_conf < 8192" using ex_conf_facts(2) by (simp add: conf_chunk_def)
  have i: "split_prop (''cs:pveconf='' @ ex_conf) = (''cs:pveconf'', ex_conf)" by (simp add: split_prop_def)
  have a: "zfs_answer [''set'', ''cs:pveconf='' @ ex_conf, ''t''] ex_store = (([], True), set_own ''t'' ''cs:pveconf'' (Some ex_conf) ex_store)"
    using v by (simp add: zfs_answer_def i del: append.simps)
  have g: "prop_value (set_own ''t'' ''cs:pveconf'' (Some ex_conf) ex_store) ''cs:pveconf'' ''t'' = ex_conf"
    "prop_value (set_own ''t'' ''cs:pveconf'' (Some ex_conf) ex_store) ''cs:pveconf.1'' ''t'' = ''-''"
    by (simp_all add: prop_value_def chain_def set_own_def ex_store_def)
  let ?s = "set_own ''t'' ''cs:pveconf'' (Some ex_conf) ex_store"
  have b: "zfs_answer [''get'', ''-H'', ''-o'', ''value'', p, ''t''] s = ((prop_value s p ''t'' @ [CHR 0x0A], True), s)" for p s
    by (simp add: zfs_answer_def)
  have s: "after_log ex_store (take 1 ex_conf_log) = ?s" "after_log ex_store (take 2 ex_conf_log) = ?s" "after_log ex_store (take 3 ex_conf_log) = ?s"
    by (simp_all add: ex_conf_log_def after_log_def a b del: append.simps)
  have z: "after_log ex_store (take 0 ex_conf_log) = ex_store" by (simp add: after_log_def)
  have n: "ex_conf_log ! 0 = Zfs [''set'', ''cs:pveconf='' @ ex_conf, ''t'']"
    "ex_conf_log ! 1 = Zfs [''get'', ''-H'', ''-o'', ''value'', ''cs:pveconf.1'', ''t'']"
    "ex_conf_log ! 2 = Zfs [''get'', ''-H'', ''-o'', ''value'', ''cs:pveconf'', ''t'']"
    "ex_conf_log ! 3 = Zfs [''get'', ''-H'', ''-o'', ''value'', ''cs:pveconf.1'', ''t'']"
    by (simp_all add: ex_conf_log_def del: append.simps)
  have "ze_zfs ex_store_env k = fst (zfs_answer args (after_log ex_store (take k ex_conf_log)))"
    if k: "k < length ex_conf_log" and args: "ex_conf_log ! k = Zfs args" for k args
  proof -
    have "k = 0 \<or> k = 1 \<or> k = 2 \<or> k = 3" using k by (auto simp: ex_conf_log_def)
    then show ?thesis
    proof (elim disjE)
      assume k: "k = 0"
      have "args = [''set'', ''cs:pveconf='' @ ex_conf, ''t'']" using args n(1) k by (simp del: append.simps)
      then show ?thesis by (simp only: k z a) (simp add: ex_store_env_def ex_answers_def)
    next
      assume k: "k = 1"
      have "args = [''get'', ''-H'', ''-o'', ''value'', ''cs:pveconf.1'', ''t'']" using args n(2) k by simp
      then show ?thesis by (simp only: k s b g) (simp add: ex_store_env_def ex_answers_def)
    next
      assume k: "k = 2"
      have "args = [''get'', ''-H'', ''-o'', ''value'', ''cs:pveconf'', ''t'']" using args n(3) k by simp
      then show ?thesis by (simp only: k s b g) (simp add: ex_store_env_def ex_answers_def)
    next
      assume k: "k = 3"
      have "args = [''get'', ''-H'', ''-o'', ''value'', ''cs:pveconf.1'', ''t'']" using args n(4) k by simp
      then show ?thesis by (simp only: k s b g) (simp add: ex_store_env_def ex_answers_def)
    qed
  qed
  moreover have "ex_conf_log ! k \<noteq> Pipe a b" if "k < length ex_conf_log" for k a b
  proof -
    have "k = 0 \<or> k = 1 \<or> k = 2 \<or> k = 3" using that by (auto simp: ex_conf_log_def)
    then show ?thesis using n by auto
  qed
  ultimately show ?thesis unfolding follows_def by blast
qed

text \<open>
  A snapshot inherits from its dataset, and there the old chunks are not cleared: with a configuration of
  one chunk on the snapshot and one of two chunks on the dataset, reading the snapshot gives the first
  chunk of the one followed by the second chunk of the other.
\<close>

lemma snapshot_conf_mixed:
  "conf_read (set_own ''t@s'' (conf_prop 0) (Some ''A'') (set_own ''t'' (conf_prop 1) (Some ''C'') (set_own ''t'' (conf_prop 0) (Some ''B'') ex_store))) ''t@s'' 3 0 = ''AC''"
proof -
  let ?s = "set_own ''t@s'' (conf_prop 0) (Some ''A'') (set_own ''t'' (conf_prop 1) (Some ''C'') (set_own ''t'' (conf_prop 0) (Some ''B'') ex_store))"
  have c: "chain ''t@s'' = [''t@s'', ''t'']" by (simp add: chain_def upt_rec)
  have v: "prop_value ?s (conf_prop 0) ''t@s'' = ''A''" "prop_value ?s (conf_prop 1) ''t@s'' = ''C''" "prop_value ?s (conf_prop 2) ''t@s'' = ''-''"
    by (simp_all add: prop_value_def c set_own_def ex_store_def conf_prop_inj)
  have t: "trim_space (''A'' @ [CHR 0x0A]) = ''A''" "trim_space (''C'' @ [CHR 0x0A]) = ''C''" "trim_space (''-'' @ [CHR 0x0A]) = ''-''"
    by (rule trim_line, simp add: clean_value_def is_space_def)+
  show ?thesis
    using v t by (simp add: numeral_3_eq_3 Let_def unset_def numeral_2_eq_2)
qed

end
