(* ===== verification/Zfs_Rotate.thy ===== *)
theory Zfs_Rotate
  imports Zfs_Store
begin

section \<open>The rotation of the slots\<close>

text \<open>
  \<open>rotate\<close> of \<open>zfs.go\<close> on the store: the abstract state is the map from slot to guid that the snapshots
  of a service make, and the rotation is one update of that map. The service is not recursive here, so
  the snapshots of the dataset are all that counts.
\<close>

definition plain_name :: "string \<Rightarrow> bool" where
  "plain_name s \<longleftrightarrow> (\<forall>c \<in> set s. \<not> is_space c \<and> c \<noteq> CHR ''@'')"

definition store_ok :: "zstore \<Rightarrow> bool" where
  "store_ok st \<longleftrightarrow> distinct (map full_name (st_snaps st)) \<and>
     (\<forall>s \<in> set (st_snaps st). sn_ds s \<noteq> [] \<and> plain_name (sn_ds s) \<and> plain_name (sn_name s) \<and> int (sn_time s) \<le> int_max)"

definition service_snaps :: "zcfg \<Rightarrow> string \<Rightarrow> zstore \<Rightarrow> snapshot list" where
  "service_snaps c ds st = filter (\<lambda>s. sn_ds s = ds \<and> has_prefix (sn_name s) (zc_prefix c)) (st_snaps st)"

text \<open>The abstract state, guid and time of creation of each slot, and everything else.\<close>

type_synonym slot_map = "string \<Rightarrow> (nat \<times> nat) option"

definition snap_id :: "snapshot \<Rightarrow> nat \<times> nat" where
  "snap_id s = (sn_guid s, sn_time s)"

definition slots :: "zcfg \<Rightarrow> string \<Rightarrow> zstore \<Rightarrow> slot_map" where
  "slots c ds st x = map_option snap_id (find (\<lambda>s. full_name s = snap_name c ds x) (st_snaps st))"

definition others :: "zcfg \<Rightarrow> string \<Rightarrow> zstore \<Rightarrow> snapshot list" where
  "others c ds st = filter (\<lambda>s. \<not> has_prefix (full_name s) (snap_name c ds [])) (st_snaps st)"

definition as_zsnap :: "zcfg \<Rightarrow> snapshot \<Rightarrow> zsnap" where
  "as_zsnap c s =
     \<lparr>zs_full = full_name s, zs_slot = drop (length (zc_prefix c)) (sn_name s), zs_guid = nat_str (sn_guid s), zs_created = int (sn_time s)\<rparr>"

text \<open>The abstract rotation: the oldest slot is kept under a free name or dropped, the others move up, and
  what is older than the limits goes.\<close>

definition retire_spec :: "zenv \<Rightarrow> bool \<Rightarrow> bool \<Rightarrow> slot_map \<Rightarrow> slot_map" where
  "retire_spec env frozen keep m =
     (case m ''n1'' of
        None \<Rightarrow> m
      | Some (g, t) \<Rightarrow>
          (let day = ze_mmdd env (int t); hour = day @ ze_hh env (int t); kept = (\<lambda>k. m(''n1'' := None, k := Some (g, t)))
           in if frozen \<and> m (''kf'' @ day) = None then kept (''kf'' @ day)
              else if keep \<and> m (''kd'' @ day) = None then kept (''kd'' @ day)
              else if keep \<and> m (''kh'' @ hour) = None then kept (''kh'' @ hour)
              else m(''n1'' := None)))"

definition outdated :: "zcfg \<Rightarrow> int \<Rightarrow> string \<Rightarrow> nat \<Rightarrow> bool" where
  "outdated c now x t \<longleftrightarrow>
     (take 2 x = ''kh'' \<and> now - int t > zc_keep_hours c * 3600) \<or>
     (take 2 x \<in> {''kd'', ''kf''} \<and> now - int t > zc_keep_days c * 86400)"

definition prune_spec :: "zcfg \<Rightarrow> int \<Rightarrow> slot_map \<Rightarrow> slot_map" where
  "prune_spec c now m x = (case m x of None \<Rightarrow> None | Some (g, t) \<Rightarrow> if outdated c now x t then None else Some (g, t))"

definition rotate_spec :: "zenv \<Rightarrow> zcfg \<Rightarrow> bool \<Rightarrow> bool \<Rightarrow> int \<Rightarrow> slot_map \<Rightarrow> slot_map" where
  "rotate_spec env c frozen keep now m =
     (let m' = retire_spec env frozen keep m
      in prune_spec c now (m'(''n1'' := m' ''n0'', ''n0'' := m' ''new'', ''new'' := None)))"

subsection \<open>What a listing is parsed to\<close>

lemma digit_plain: "is_digit c \<Longrightarrow> \<not> is_space c \<and> c \<noteq> CHR ''@''"
  by (auto simp: is_digit_def is_space_def less_eq_char_def)

lemma nat_str_plain: "plain_name (nat_str n)"
  using nat_str_no digit_plain by (auto simp: plain_name_def)

lemma parse_int_nat_str: "int n \<le> int_max \<Longrightarrow> parse_int (nat_str n) = int n"
  by (simp add: parse_int_def atoi_nat_str)

lemma snap_line_facts:
  assumes "sn_ds s \<noteq> []" "plain_name (sn_ds s)" "plain_name (sn_name s)"
  shows "trim_space (snap_line s) = snap_line s" and "CHR 0x0A \<notin> set (snap_line s)"
    and "split_on CHR 0x09 (snap_line s) = [full_name s, nat_str (sn_guid s), nat_str (sn_time s)]"
proof -
  have at: "\<not> is_space CHR ''@''" by (simp add: is_space_def)
  have pf: "\<not> is_space c" if "c \<in> set (full_name s)" for c
    using that assms at by (auto simp: full_name_def plain_name_def)
  have pn: "\<not> is_space c" if "c \<in> set (nat_str n)" for c n
    using that nat_str_plain [of n] by (simp add: plain_name_def)
  have ne: "full_name s \<noteq> []" by (simp add: full_name_def)
  have "hd (snap_line s) = hd (full_name s)" using ne by (simp add: snap_line_def)
  then have 1: "\<not> is_space (hd (snap_line s))" using pf [OF hd_in_set [OF ne]] by simp
  have "last (snap_line s) = last (nat_str (sn_time s))" by (simp add: snap_line_def nat_str_nonempty)
  then have 2: "\<not> is_space (last (snap_line s))" using pn [OF last_in_set [OF nat_str_nonempty]] by simp
  show "trim_space (snap_line s) = snap_line s"
    by (rule trim_space_ends_id) (use 1 2 in \<open>simp_all add: snap_line_def\<close>)
  have sp: "is_space CHR 0x0A" "is_space CHR 0x09" by (simp_all add: is_space_def)
  then have n: "CHR 0x0A \<notin> set (full_name s)" "CHR 0x09 \<notin> set (full_name s)" "CHR 0x0A \<notin> set (nat_str n)" "CHR 0x09 \<notin> set (nat_str n)" for n
    using pf pn by blast+
  show "CHR 0x0A \<notin> set (snap_line s)" using n by (simp add: snap_line_def)
  show "split_on CHR 0x09 (snap_line s) = [full_name s, nat_str (sn_guid s), nat_str (sn_time s)]"
    using n by (simp add: snap_line_def split_on_append split_on_word)
qed

lemma parse_snap_line:
  assumes "sn_ds s \<noteq> []" "plain_name (sn_ds s)" "plain_name (sn_name s)" "int (sn_time s) \<le> int_max"
  shows "parse_snap (zc_prefix c) (snap_line s) = (if has_prefix (sn_name s) (zc_prefix c) then Some (as_zsnap c s) else None)"
proof -
  have "CHR ''@'' \<notin> set (sn_ds s)" using assms(2) by (auto simp: plain_name_def)
  then have "str_index CHR ''@'' (full_name s) = Some (length (sn_ds s))"
    using str_index_cut [of "CHR ''@''" "sn_ds s" "sn_name s"] by (simp add: full_name_def)
  moreover have "drop (length (sn_ds s) + 1) (full_name s) = sn_name s" by (simp add: full_name_def)
  ultimately show ?thesis
    using snap_line_facts [OF assms(1-3)] assms(4)
    by (simp add: parse_snap_def parse_int_nat_str as_zsnap_def Let_def)
qed

lemma join_lines: "ls \<noteq> [] \<Longrightarrow> concat (map (\<lambda>l. l @ [c]) ls) = join_with c ls @ [c]"
proof (induction ls)
  case (Cons l ls)
  then show ?case by (cases "ls = []") (simp_all add: join_with_Cons)
qed simp

lemma trim_nl: "trim_space s = s \<Longrightarrow> s \<noteq> [] \<Longrightarrow> trim_space (s @ [CHR 0x0A]) = s"
proof -
  assume t: "trim_space s = s" "s \<noteq> []"
  have e: "\<not> is_space (hd s)" "\<not> is_space (last s)" using trim_space_ends [of s] t by simp_all
  have 1: "dropWhile is_space t = t" if "t \<noteq> []" "\<not> is_space (hd t)" for t
    using that by (cases t) auto
  show ?thesis using t(2) e 1 [of "s @ [CHR 0x0A]"] 1 [of "rev s"] by (simp add: trim_space_def hd_rev is_space_def)
qed

lemma last_join: "ls \<noteq> [] \<Longrightarrow> last ls \<noteq> [] \<Longrightarrow> last (join_with c ls) = last (last ls) \<and> join_with c ls \<noteq> []"
proof (induction ls)
  case (Cons l ls)
  then show ?case by (cases "ls = []") (auto simp: join_with_Cons)
qed simp

lemma hd_join: "ls \<noteq> [] \<Longrightarrow> hd ls \<noteq> [] \<Longrightarrow> hd (join_with c ls) = hd (hd ls)"
  by (cases ls; cases "tl ls") auto

lemma parse_listing:
  assumes "store_ok st"
  shows "parse_snaps (zc_prefix c) (trim_space (list_text st ds)) = map (as_zsnap c) (service_snaps c ds st)"
proof -
  let ?L = "filter (\<lambda>s. sn_ds s = ds) (st_snaps st)"
  have ok: "sn_ds s \<noteq> [] \<and> plain_name (sn_ds s) \<and> plain_name (sn_name s) \<and> int (sn_time s) \<le> int_max" if "s \<in> set ?L" for s
    using assms that by (auto simp: store_ok_def)
  have m: "List.map_filter (parse_snap (zc_prefix c)) (map snap_line xs) = map (as_zsnap c) (filter (\<lambda>s. has_prefix (sn_name s) (zc_prefix c)) xs)"
    if "set xs \<subseteq> set ?L" for xs
    using that by (induction xs) (use ok in \<open>auto simp: parse_snap_line List.map_filter_simps\<close>)
  have f: "filter (\<lambda>s. has_prefix (sn_name s) (zc_prefix c)) ?L = service_snaps c ds st"
    by (simp add: service_snaps_def conj_commute)
  show ?thesis
  proof (cases "?L = []")
    case True
    have "parse_snap (zc_prefix c) [] = None" by (simp add: parse_snap_def trim_space_def split_on_def)
    then show ?thesis using True f by (simp add: list_text_def trim_space_def parse_snaps_def split_on_def List.map_filter_simps)
  next
    case False
    let ?ls = "map snap_line ?L"
    have ne: "?ls \<noteq> []" "hd ?ls \<noteq> []" "last ?ls \<noteq> []"
      using False by (auto simp: snap_line_def hd_map last_map simp del: filter.simps)
    have hl: "hd ?L \<in> set ?L" "last ?L \<in> set ?L" using False by (blast intro: hd_in_set last_in_set)+
    have e: "\<not> is_space (hd (snap_line s)) \<and> \<not> is_space (last (snap_line s))" if "s \<in> set ?L" for s
      using trim_space_ends [of "snap_line s"] snap_line_facts(1) ok [OF that] by (metis Nil_is_append_conv list.discI snap_line_def)
    have "trim_space (join_with CHR 0x0A ?ls) = join_with CHR 0x0A ?ls"
      using e [OF hl(1)] e [OF hl(2)] hd_join [OF ne(1,2)] last_join [OF ne(1,3)] False
      by (intro trim_space_ends_id) (simp_all add: hd_map last_map)
    then have "trim_space (list_text st ds) = join_with CHR 0x0A ?ls"
      using trim_nl last_join [OF ne(1,3)] join_lines [OF ne(1), of "CHR 0x0A"] by (simp add: list_text_def comp_def)
    moreover have "split_on CHR 0x0A (join_with CHR 0x0A ?ls) = ?ls"
      using ne(1) snap_line_facts(2) ok by (intro split_join) (auto simp: list_all_iff)
    ultimately show ?thesis using m [of ?L] f by (simp add: parse_snaps_def)
  qed
qed

subsection \<open>Slots by name\<close>

lemma full_name_snap_name:
  assumes "plain_name (sn_ds s)" and "plain_name ds"
  shows "full_name s = snap_name c ds x \<longleftrightarrow> sn_ds s = ds \<and> sn_name s = zc_prefix c @ x"
proof
  assume e: "full_name s = snap_name c ds x"
  have "takeWhile (\<lambda>y. y \<noteq> CHR ''@'') (a @ CHR ''@'' # b) = a" if "plain_name a" for a b
    using that by (subst takeWhile_append2) (auto simp: plain_name_def)
  from this [OF assms(1), of "sn_name s"] this [OF assms(2), of "zc_prefix c @ x"]
  have "sn_ds s = ds" using e by (simp add: full_name_def snap_name_def)
  then show "sn_ds s = ds \<and> sn_name s = zc_prefix c @ x" using e by (simp add: full_name_def snap_name_def)
qed (simp add: full_name_def snap_name_def)

lemma snap_name_inj: "snap_name c ds x = snap_name c ds y \<longleftrightarrow> x = y"
  by (simp add: snap_name_def)

lemma has_prefix_drop: "has_prefix n p \<and> drop (length p) n = x \<longleftrightarrow> n = p @ x"
  by (auto simp: has_prefix_def prefix_def)

lemma find_listed:
  assumes "store_ok st" and "plain_name ds"
  shows "find_slot (map (as_zsnap c) (service_snaps c ds st)) x = map_option (as_zsnap c) (find (\<lambda>s. full_name s = snap_name c ds x) (st_snaps st))"
proof -
  have "find (\<lambda>s. zs_slot s = x) (map (as_zsnap c) (filter (\<lambda>s. sn_ds s = ds \<and> has_prefix (sn_name s) (zc_prefix c)) xs)) =
      map_option (as_zsnap c) (find (\<lambda>s. full_name s = snap_name c ds x) xs)" if "set xs \<subseteq> set (st_snaps st)" for xs
    using that
  proof (induction xs)
    case (Cons s xs)
    have "plain_name (sn_ds s)" using Cons.prems assms(1) by (simp add: store_ok_def)
    then have f: "full_name s = snap_name c ds x \<longleftrightarrow> sn_ds s = ds \<and> has_prefix (sn_name s) (zc_prefix c) \<and> zs_slot (as_zsnap c s) = x"
      using full_name_snap_name [OF _ assms(2), of s c x] has_prefix_drop [of "sn_name s" "zc_prefix c" x] by (auto simp: as_zsnap_def)
    show ?case using Cons f by auto
  qed simp
  then show ?thesis by (simp add: find_slot_def service_snaps_def)
qed

lemma slots_none: "slots c ds st x = None \<longleftrightarrow> \<not> has_snap st (snap_name c ds x)"
  by (force simp: slots_def has_snap_def find_None_iff)

text \<open>What a rename and a destroy do to the slots.\<close>

lemma find_map_guid:
  "(\<And>s. s \<in> set xs \<Longrightarrow> snap_id (f s) = snap_id s) \<Longrightarrow> map_option snap_id (find P (map f xs)) = map_option snap_id (find (\<lambda>s. P (f s)) xs)"
  by (induction xs) auto

lemma find_agree: "(\<And>s. s \<in> set xs \<Longrightarrow> P s = Q s) \<Longrightarrow> find P xs = find Q xs"
  by (induction xs) auto

lemma plain_append: "plain_name (a @ b) \<longleftrightarrow> plain_name a \<and> plain_name b"
  by (auto simp: plain_name_def)

lemma rename_effect:
  assumes "store_ok st" "plain_name ds" "plain_name (zc_prefix c)" "plain_name b"
    and "slots c ds st a \<noteq> None" "slots c ds st b = None"
  defines "st' \<equiv> rename_snap (snap_name c ds a) (snap_name c ds b) st"
  shows "store_ok st'" and "slots c ds st' = (slots c ds st)(a := None, b := slots c ds st a)" and "others c ds st' = others c ds st"
proof -
  let ?A = "snap_name c ds a" and ?B = "snap_name c ds b"
  let ?f = "\<lambda>s. if full_name s = ?A then s\<lparr>sn_name := drop (length (sn_ds s) + 1) ?B\<rparr> else s"
  have st': "st_snaps st' = map ?f (st_snaps st)" by (simp add: st'_def rename_snap_def)
  have ab: "a \<noteq> b" using assms(5,6) by auto
  have noB: "full_name s \<noteq> ?B" if "s \<in> set (st_snaps st)" for s
    using that assms(6) by (force simp: slots_none has_snap_def)
  have f: "full_name (?f s) = (if full_name s = ?A then ?B else full_name s) \<and> snap_id (?f s) = snap_id s \<and>
      sn_ds (?f s) = sn_ds s \<and> sn_time (?f s) = sn_time s \<and> plain_name (sn_name (?f s))" if "s \<in> set (st_snaps st)" for s
  proof -
    have p: "plain_name (sn_ds s)" "plain_name (sn_name s)" using that assms(1) by (simp_all add: store_ok_def)
    show ?thesis
      using p assms(3,4) full_name_snap_name [OF p(1) assms(2), of c a]
      by (auto simp: full_name_def snap_name_def snap_id_def plain_append)
  qed
  let ?g = "\<lambda>n. if n = ?A then ?B else n"
  have "map full_name (map ?f (st_snaps st)) = map ?g (map full_name (st_snaps st))" using f by simp
  moreover have "inj_on ?g (set (map full_name (st_snaps st)))" using noB by (force simp: inj_on_def)
  ultimately have "distinct (map full_name (map ?f (st_snaps st)))"
    using assms(1) by (simp only: store_ok_def distinct_map [of ?g] simp_thms)
  moreover have "sn_ds u \<noteq> [] \<and> plain_name (sn_ds u) \<and> plain_name (sn_name u) \<and> int (sn_time u) \<le> int_max" if u: "u \<in> ?f ` set (st_snaps st)" for u
  proof -
    obtain s where s: "s \<in> set (st_snaps st)" "u = ?f s" using u by blast
    have "sn_ds s \<noteq> [] \<and> plain_name (sn_ds s) \<and> int (sn_time s) \<le> int_max" using s(1) assms(1) by (simp add: store_ok_def)
    then show ?thesis using f [OF s(1)] s(2) by metis
  qed
  ultimately show "store_ok st'" using assms(1) by (simp add: store_ok_def st' del: map_map)
  show "slots c ds st' = (slots c ds st)(a := None, b := slots c ds st a)"
  proof
    fix x
    have 1: "slots c ds st' x = map_option snap_id (find (\<lambda>s. full_name (?f s) = snap_name c ds x) (st_snaps st))"
      unfolding slots_def st' by (rule find_map_guid) (use f in blast)
    consider "x = a" | "x = b" | "x \<noteq> a" "x \<noteq> b" by blast
    then show "slots c ds st' x = ((slots c ds st)(a := None, b := slots c ds st a)) x"
    proof cases
      case 1
      then have "\<not> full_name (?f s) = snap_name c ds x" if "s \<in> set (st_snaps st)" for s
        using f [OF that] ab snap_name_inj by metis
      then show ?thesis using \<open>slots c ds st' x = _\<close> 1 ab by (simp add: find_None_iff)
    next
      case 2
      have "find (\<lambda>s. full_name (?f s) = snap_name c ds x) (st_snaps st) = find (\<lambda>s. full_name s = ?A) (st_snaps st)"
        by (rule find_agree) (use f noB 2 in metis)
      then show ?thesis using 1 2 by (simp add: slots_def)
    next
      case 3
      have "find (\<lambda>s. full_name (?f s) = snap_name c ds x) (st_snaps st) = find (\<lambda>s. full_name s = snap_name c ds x) (st_snaps st)"
        by (rule find_agree) (use f noB 3 snap_name_inj in metis)
      then show ?thesis using 1 3 by (simp add: slots_def)
    qed
  qed
  have pre: "has_prefix (snap_name c ds x) (snap_name c ds [])" for x by (simp add: snap_name_def has_prefix_def)
  have "filter (\<lambda>s. \<not> has_prefix (full_name s) (snap_name c ds [])) (map ?f xs) = filter (\<lambda>s. \<not> has_prefix (full_name s) (snap_name c ds [])) xs"
    if "set xs \<subseteq> set (st_snaps st)" for xs
    using that
  proof (induction xs)
    case (Cons s xs)
    then show ?case using f [of s] pre by (cases "full_name s = ?A") auto
  qed simp
  then show "others c ds st' = others c ds st" by (simp add: others_def st')
qed

lemma destroy_effect:
  assumes "store_ok st"
  shows "store_ok (destroy_named (snap_name c ds a) st)"
    and "slots c ds (destroy_named (snap_name c ds a) st) = (slots c ds st)(a := None)"
    and "others c ds (destroy_named (snap_name c ds a) st) = others c ds st"
proof -
  let ?A = "snap_name c ds a"
  show "store_ok (destroy_named ?A st)"
    using assms distinct_map_filter by (auto simp: store_ok_def destroy_named_def)
  show "slots c ds (destroy_named ?A st) = (slots c ds st)(a := None)"
  proof
    fix x
    have "find P (filter Q xs) = find (\<lambda>s. Q s \<and> P s) xs" for P Q and xs :: "snapshot list" by (induction xs) auto
    moreover have "find (\<lambda>s. full_name s \<noteq> ?A \<and> full_name s = snap_name c ds x) xs = (if x = a then None else find (\<lambda>s. full_name s = snap_name c ds x) xs)" for xs
      by (auto simp: find_None_iff snap_name_inj intro!: find_agree)
    ultimately show "slots c ds (destroy_named ?A st) x = ((slots c ds st)(a := None)) x"
      by (simp add: slots_def destroy_named_def)
  qed
  have "has_prefix ?A (snap_name c ds [])" by (simp add: snap_name_def has_prefix_def)
  then show "others c ds (destroy_named ?A st) = others c ds st"
    by (auto simp: others_def destroy_named_def intro!: filter_cong)
qed

subsection \<open>The steps\<close>

text \<open>What every step keeps, and the map it leaves behind.\<close>

definition moved :: "zcfg \<Rightarrow> string \<Rightarrow> zstore \<Rightarrow> slot_map \<Rightarrow> zstore \<Rightarrow> bool" where
  "moved c ds s m s' \<longleftrightarrow> store_ok s' \<and> slots c ds s' = m \<and> others c ds s' = others c ds s"

lemma moved_refl: "store_ok s \<Longrightarrow> moved c ds s (slots c ds s) s"
  by (simp add: moved_def)

lemma moved_trans: "moved c ds s m s1 \<Longrightarrow> moved c ds s1 m' s2 \<Longrightarrow> moved c ds s m' s2"
  by (simp add: moved_def)

definition plain_cfg :: "zcfg \<Rightarrow> string \<Rightarrow> bool" where
  "plain_cfg c ds \<longleftrightarrow> \<not> zc_recursive c \<and> plain_name ds \<and> plain_name (zc_prefix c)"

lemma ensures_list:
  "plain_cfg c ds \<Longrightarrow> ensures env st0 (list_snaps env c ds)
     (\<lambda>s r s'. s' = s \<and> (store_ok s \<longrightarrow> r = Inr (map (as_zsnap c) (service_snaps c ds s))))"
  unfolding list_snaps_def
  by (rule ensures_weaken [OF ensures_try [OF ensures_run]], rule ensures_ret, rule refl)
    (auto simp: zfs_answer_def parse_listing)

lemma ensures_unit: "ensures env st0 m P \<Longrightarrow>
    ensures env st0 (ztry m (\<lambda>_. zret (Inr ()))) (\<lambda>s r s'. (\<exists>e. P s (Inl e) s' \<and> r = Inl e) \<or> (\<exists>x. P s (Inr x) s' \<and> r = Inr ()))"
  by (rule ensures_weaken [OF ensures_try], assumption, rule ensures_ret, rule refl) auto

lemma ensures_rename:
  assumes "plain_cfg c ds" and "plain_name b"
  shows "ensures env st0 (rename_slot env c ds a b) (\<lambda>s r s'.
     store_ok s \<and> slots c ds s a \<noteq> None \<and> slots c ds s b = None \<longrightarrow>
       r = Inr () \<and> moved c ds s ((slots c ds s)(a := None, b := slots c ds s a)) s')"
  unfolding rename_slot_def
  by (rule ensures_weaken [OF ensures_unit [OF ensures_run]])
    (use assms rename_effect [of _ ds c b a] in \<open>auto simp: plain_cfg_def zfs_answer_def slots_none moved_def\<close>)

lemma destroy_answer:
  "zfs_answer [''destroy'', snap_name c ds a] s =
     (if slots c ds s a = None then (([], False), s) else (([], True), destroy_named (snap_name c ds a) s))"
  by (simp add: zfs_answer_def slots_none)

lemma ensures_destroy:
  assumes "plain_cfg c ds" and "full = snap_name c ds a"
  shows "ensures env st0 (destroy_snap env c full) (\<lambda>s r s'.
     store_ok s \<longrightarrow> moved c ds s ((slots c ds s)(a := None)) s' \<and> (slots c ds s a \<noteq> None \<longrightarrow> (\<exists>x. r = Inr x)))"
  unfolding destroy_snap_def
proof (rule ensures_weaken [OF ensures_run], intro impI)
  fix s r s'
  assume a: "case zfs_answer (if zc_recursive c then [''destroy'', ''-r'', full] else [''destroy'', full]) s of
      ((out, ok), t) \<Rightarrow> s' = t \<and> r = (if ok then Inr (trim_space out)
        else Inl (ZfsFailed (if zc_recursive c then [''destroy'', ''-r'', full] else [''destroy'', full])))"
    and ok: "store_ok s"
  have n: "\<not> zc_recursive c" using assms(1) by (simp add: plain_cfg_def)
  show "moved c ds s ((slots c ds s)(a := None)) s' \<and> (slots c ds s a \<noteq> None \<longrightarrow> (\<exists>x. r = Inr x))"
  proof (cases "slots c ds s a = None")
    case True
    then have "(slots c ds s)(a := None) = slots c ds s" by auto
    then show ?thesis using a True n assms(2) ok by (simp add: destroy_answer moved_refl)
  next
    case False
    then have "s' = destroy_named (snap_name c ds a) s \<and> (\<exists>x. r = Inr x)"
      using a n assms(2) by (simp only: destroy_answer if_False prod.case if_True) blast
    then show ?thesis using destroy_effect [OF ok, of c ds a] by (simp add: moved_def)
  qed
qed

lemma ensures_zdestroy:
  assumes "plain_cfg c ds" and "full = snap_name c ds a"
  shows "ensures env st0 (zdestroy env c full) (\<lambda>s r s'.
     store_ok s \<and> slots c ds s a \<noteq> None \<longrightarrow> r = Inr () \<and> moved c ds s ((slots c ds s)(a := None)) s')"
  unfolding zdestroy_def by (rule ensures_weaken [OF ensures_unit [OF ensures_destroy [OF assms]]]) auto

lemma slots_listed:
  assumes "store_ok s" and "plain_name ds"
  shows "slots c ds s x = None \<longleftrightarrow> find_slot (map (as_zsnap c) (service_snaps c ds s)) x = None"
    and "find_slot (map (as_zsnap c) (service_snaps c ds s)) x = Some z \<Longrightarrow>
      \<exists>g t. slots c ds s x = Some (g, t) \<and> zs_full z = snap_name c ds x \<and> zs_created z = int t"
  using find_listed [OF assms, of c x]
  by (auto simp: slots_def snap_id_def as_zsnap_def dest: find_Some_iff [THEN iffD1])

definition frozen_in :: "zstore \<Rightarrow> string \<Rightarrow> bool" where
  "frozen_in s n \<longleftrightarrow> frozen_val (trim_space (prop_value s ''cs:consistent'' n @ [CHR 0x0A]))"

lemma ensures_retire:
  assumes "plain_cfg c ds" and "\<And>t. plain_name (ze_mmdd env t) \<and> plain_name (ze_hh env t)"
  shows "ensures env st0 (retire_n1 env c ds keep l) (\<lambda>s r s'.
     store_ok s \<and> l = map (as_zsnap c) (service_snaps c ds s) \<longrightarrow>
       r = Inr () \<and> moved c ds s (retire_spec env (frozen_in s (snap_name c ds ''n1'')) keep (slots c ds s)) s')"
proof -
  have pd: "plain_name ds" using assms(1) by (simp add: plain_cfg_def)
  show ?thesis
  proof (cases "find_slot l ''n1''")
    case None
    have "slots c ds s ''n1'' = None" if "store_ok s" "l = map (as_zsnap c) (service_snaps c ds s)" for s
      using slots_listed(1) [OF that(1) pd] None that(2) by blast
    then have "ensures env st0 (zret (Inr ())) (\<lambda>s r s'. store_ok s \<and> l = map (as_zsnap c) (service_snaps c ds s) \<longrightarrow>
       r = Inr () \<and> moved c ds s (retire_spec env (frozen_in s (snap_name c ds ''n1'')) keep (slots c ds s)) s')"
      by (intro ensures_weaken [OF ensures_ret [OF refl]]) (auto simp: retire_spec_def moved_refl)
    then show ?thesis using None by (simp add: retire_n1_def)
  next
    case (Some z)
    let ?d = "ze_mmdd env (zs_created z)" and ?h = "ze_hh env (zs_created z)"
    let ?kf = "''kf'' @ ?d" and ?kd = "''kd'' @ ?d" and ?kh = "''kh'' @ ?d @ ?h"
    have pk: "plain_name ?kf" "plain_name ?kd" "plain_name ?kh"
      using assms(2) by (simp_all add: plain_name_def is_space_def ball_Un)
    let ?act = "\<lambda>v. if frozen_val v \<and> find_slot l ?kf = None then rename_slot env c ds ''n1'' ?kf
              else if keep \<and> find_slot l ?kd = None then rename_slot env c ds ''n1'' ?kd
              else if keep \<and> find_slot l ?kh = None then rename_slot env c ds ''n1'' ?kh
              else zdestroy env c (zs_full z)"
    have ren: "ensures env st0 (rename_slot env c ds ''n1'' k) (\<lambda>s r s'. store_ok s \<and> l = map (as_zsnap c) (service_snaps c ds s) \<longrightarrow>
        r = Inr () \<and> moved c ds s ((slots c ds s)(''n1'' := None, k := slots c ds s ''n1'')) s')"
      if "plain_name k" "find_slot l k = None" for k
      by (rule ensures_weaken [OF ensures_rename [OF assms(1) that(1)]])
        (use slots_listed [OF _ pd, of _ c] that(2) Some in fastforce)
    have del: "ensures env st0 (zdestroy env c (zs_full z)) (\<lambda>s r s'. store_ok s \<and> l = map (as_zsnap c) (service_snaps c ds s) \<longrightarrow>
        r = Inr () \<and> moved c ds s ((slots c ds s)(''n1'' := None)) s')"
    proof (cases "zs_full z = snap_name c ds ''n1''")
      case True
      show ?thesis
        by (rule ensures_weaken [OF ensures_zdestroy [OF assms(1) True]])
          (use slots_listed(2) [OF _ pd, of _ c "''n1''"] Some in fastforce)
    next
      case False
      have "\<not> (store_ok s \<and> l = map (as_zsnap c) (service_snaps c ds s))" for s
        using slots_listed(2) [OF _ pd, of s c "''n1''"] Some False by blast
      moreover have "ensures env st0 (zdestroy env c (zs_full z)) (\<lambda>s r s'. True)"
        unfolding zdestroy_def destroy_snap_def
        by (rule ensures_weaken [OF ensures_unit [OF ensures_run]]) simp
      ultimately show ?thesis by (blast intro: ensures_weaken)
    qed
    have act: "ensures env st0 (?act v) (\<lambda>s r s'. store_ok s \<and> l = map (as_zsnap c) (service_snaps c ds s) \<longrightarrow>
        r = Inr () \<and> moved c ds s (retire_spec env (frozen_val v) keep (slots c ds s)) s')" for v
    proof -
      have spec: "retire_spec env (frozen_val v) keep (slots c ds s) =
          (if frozen_val v \<and> find_slot l ?kf = None then (slots c ds s)(''n1'' := None, ?kf := slots c ds s ''n1'')
           else if keep \<and> find_slot l ?kd = None then (slots c ds s)(''n1'' := None, ?kd := slots c ds s ''n1'')
           else if keep \<and> find_slot l ?kh = None then (slots c ds s)(''n1'' := None, ?kh := slots c ds s ''n1'')
           else (slots c ds s)(''n1'' := None))"
        if ok: "store_ok s" and l: "l = map (as_zsnap c) (service_snaps c ds s)" for s
      proof -
        obtain g t where g: "slots c ds s ''n1'' = Some (g, t)" "zs_created z = int t"
          using slots_listed(2) [OF ok pd, of c "''n1''" z] Some l by blast
        show ?thesis using slots_listed(1) [OF ok pd, of c] l g by (simp add: retire_spec_def Let_def)
      qed
      consider "frozen_val v \<and> find_slot l ?kf = None" | "\<not> (frozen_val v \<and> find_slot l ?kf = None)" "keep \<and> find_slot l ?kd = None"
        | "\<not> (frozen_val v \<and> find_slot l ?kf = None)" "\<not> (keep \<and> find_slot l ?kd = None)" "keep \<and> find_slot l ?kh = None"
        | "\<not> (frozen_val v \<and> find_slot l ?kf = None)" "\<not> (keep \<and> find_slot l ?kd = None)" "\<not> (keep \<and> find_slot l ?kh = None)"
        by blast
      then show ?thesis
      proof cases
        case 1
        then have f: "find_slot l ?kf = None" by blast
        show ?thesis unfolding if_P [OF 1] by (rule ensures_weaken [OF ren [OF pk(1) f]]) (use spec 1 in metis)
      next
        case 2
        then have f: "find_slot l ?kd = None" by blast
        show ?thesis unfolding if_not_P [OF 2(1)] if_P [OF 2(2)] by (rule ensures_weaken [OF ren [OF pk(2) f]]) (use spec 2 in metis)
      next
        case 3
        then have f: "find_slot l ?kh = None" by blast
        show ?thesis unfolding if_not_P [OF 3(1)] if_not_P [OF 3(2)] if_P [OF 3(3)]
          by (rule ensures_weaken [OF ren [OF pk(3) f]]) (use spec 3 in metis)
      next
        case 4
        show ?thesis unfolding if_not_P [OF 4(1)] if_not_P [OF 4(2)] if_not_P [OF 4(3)]
          by (rule ensures_weaken [OF del]) (use spec 4 in metis)
      qed
    qed
    have "zs_full z = snap_name c ds ''n1''" if "store_ok s" "l = map (as_zsnap c) (service_snaps c ds s)" for s
      using slots_listed(2) [OF that(1) pd, of c "''n1''" z] Some that(2) by blast
    then have "ensures env st0 (zseq (zfs_get env ''cs:consistent'' (zs_full z)) ?act) (\<lambda>s r s'.
        store_ok s \<and> l = map (as_zsnap c) (service_snaps c ds s) \<longrightarrow>
          r = Inr () \<and> moved c ds s (retire_spec env (frozen_in s (snap_name c ds ''n1'')) keep (slots c ds s)) s')"
      by (intro ensures_weaken [OF ensures_seq [OF ensures_get act]]) (auto simp: frozen_in_def)
    then show ?thesis unfolding retire_n1_def Some option.case Let_def append_assoc .
  qed
qed

lemma find_distinct: "distinct (map f xs) \<Longrightarrow> find (\<lambda>s. f s = n) xs = Some s \<longleftrightarrow> s \<in> set xs \<and> f s = n"
  by (induction xs) force+

lemma slots_some:
  assumes "store_ok st" and "plain_name ds"
  shows "slots c ds st x = Some (g, t) \<longleftrightarrow> (\<exists>s \<in> set (service_snaps c ds st). zs_slot (as_zsnap c s) = x \<and> snap_id s = (g, t))"
proof -
  have d: "distinct (map full_name (st_snaps st))" using assms(1) by (simp add: store_ok_def)
  have "full_name s = snap_name c ds x \<longleftrightarrow> sn_ds s = ds \<and> has_prefix (sn_name s) (zc_prefix c) \<and> zs_slot (as_zsnap c s) = x"
    if "s \<in> set (st_snaps st)" for s
  proof -
    have "plain_name (sn_ds s)" using that assms(1) by (simp add: store_ok_def)
    then show ?thesis
      using full_name_snap_name [OF _ assms(2), of s c x] has_prefix_drop [of "sn_name s" "zc_prefix c" x] by (auto simp: as_zsnap_def)
  qed
  then show ?thesis
    using find_distinct [OF d, of "snap_name c ds x"] by (auto simp: slots_def service_snaps_def)
qed

lemma listed_full:
  assumes "store_ok st" and "plain_name ds" and "s \<in> set (service_snaps c ds st)"
  shows "zs_full (as_zsnap c s) = snap_name c ds (zs_slot (as_zsnap c s))"
  using assms has_prefix_drop [of "sn_name s" "zc_prefix c" "drop (length (zc_prefix c)) (sn_name s)"]
  by (simp add: service_snaps_def as_zsnap_def full_name_def snap_name_def)

lemma ensures_destroy_all:
  assumes "plain_cfg c ds" and "\<forall>z \<in> set zs. zs_full z = snap_name c ds (zs_slot z)"
  shows "ensures env st0 (destroy_all env c zs) (\<lambda>s r s'.
     store_ok s \<longrightarrow> moved c ds s (\<lambda>x. if x \<in> zs_slot ` set zs then None else slots c ds s x) s')"
  using assms(2)
proof (induction zs)
  case Nil
  have "ensures env st0 (zret ()) (\<lambda>s r s'. store_ok s \<longrightarrow> moved c ds s (\<lambda>x. if x \<in> zs_slot ` set [] then None else slots c ds s x) s')"
    by (auto simp: ensures_def zret_def moved_refl)
  then show ?case by (rule ensures_cong) simp
next
  case (Cons z zs)
  have z: "zs_full z = snap_name c ds (zs_slot z)" using Cons.prems by simp
  have ih: "ensures env st0 (destroy_all env c zs) (\<lambda>s r s'. store_ok s \<longrightarrow> moved c ds s (\<lambda>x. if x \<in> zs_slot ` set zs then None else slots c ds s x) s')"
    for x :: "zerr + string" using Cons by simp
  have "ensures env st0 (zseq (destroy_snap env c (zs_full z)) (\<lambda>_. destroy_all env c zs)) (\<lambda>s r s'.
      store_ok s \<longrightarrow> moved c ds s (\<lambda>x. if x \<in> zs_slot ` set (z # zs) then None else slots c ds s x) s')"
  proof (rule ensures_weaken [OF ensures_seq [OF ensures_destroy [OF assms(1) z] ih]], intro impI)
    fix s r s2
    assume a: "\<exists>x s1. (store_ok s \<longrightarrow> moved c ds s ((slots c ds s)(zs_slot z := None)) s1 \<and> (slots c ds s (zs_slot z) \<noteq> None \<longrightarrow> (\<exists>y. x = Inr y))) \<and>
        (store_ok s1 \<longrightarrow> moved c ds s1 (\<lambda>x. if x \<in> zs_slot ` set zs then None else slots c ds s1 x) s2)" and ok: "store_ok s"
    obtain s1 where m: "moved c ds s ((slots c ds s)(zs_slot z := None)) s1"
      and n: "store_ok s1 \<Longrightarrow> moved c ds s1 (\<lambda>x. if x \<in> zs_slot ` set zs then None else slots c ds s1 x) s2" using a ok by blast
    have "(\<lambda>x. if x \<in> zs_slot ` set zs then None else slots c ds s1 x) = (\<lambda>x. if x \<in> zs_slot ` set (z # zs) then None else slots c ds s x)"
      using m by (auto simp: moved_def)
    then show "moved c ds s (\<lambda>x. if x \<in> zs_slot ` set (z # zs) then None else slots c ds s x) s2"
      using moved_trans [OF m n] m by (simp add: moved_def)
  qed
  then show ?case by (rule ensures_cong) simp
qed

lemma ensures_at: "(\<And>k. ensures env st0 (g k) (P k)) \<Longrightarrow> ensures env st0 (\<lambda>w. g (h w) w) (\<lambda>s r s'. \<exists>k. P k s r s')"
  unfolding ensures_def by blast

lemma has_prefix_two: "has_prefix x [a, b] \<longleftrightarrow> take 2 x = [a, b]"
  by (cases x; cases "tl x") (auto simp: has_prefix_def)

lemma pruned_slots:
  assumes "store_ok s" and "plain_name ds"
  shows "(\<lambda>x. if x \<in> zs_slot ` set (filter (expired c now) (map (as_zsnap c) (service_snaps c ds s))) then None else slots c ds s x) =
    prune_spec c now (slots c ds s)"
proof
  fix x
  have e: "expired c now (as_zsnap c s) \<longleftrightarrow> outdated c now (zs_slot (as_zsnap c s)) (sn_time s)" for s
    by (simp add: expired_def outdated_def has_prefix_two as_zsnap_def)
  have "x \<in> zs_slot ` set (filter (expired c now) (map (as_zsnap c) (service_snaps c ds s))) \<longleftrightarrow>
      (\<exists>u \<in> set (service_snaps c ds s). zs_slot (as_zsnap c u) = x \<and> outdated c now x (sn_time u))"
    using e by auto
  also have "\<dots> \<longleftrightarrow> (\<exists>g t. slots c ds s x = Some (g, t) \<and> outdated c now x t)"
    unfolding slots_some [OF assms] by (auto simp: snap_id_def)
  finally show "(if x \<in> zs_slot ` set (filter (expired c now) (map (as_zsnap c) (service_snaps c ds s))) then None else slots c ds s x) =
    prune_spec c now (slots c ds s) x"
    by (auto simp: prune_spec_def split: option.splits)
qed

lemma ensures_prune:
  assumes "plain_cfg c ds"
  shows "ensures env st0 (prune env c ds) (\<lambda>s r s'. store_ok s \<longrightarrow> (\<exists>k. moved c ds s (prune_spec c (ze_now env k) (slots c ds s)) s'))"
proof -
  have pd: "plain_name ds" using assms by (simp add: plain_cfg_def)
  have "ensures env st0 (\<lambda>w. case r of Inl e \<Rightarrow> zret () w | Inr l \<Rightarrow> destroy_all env c (filter (expired c (ze_now env (length (zw_log w)))) l) w)
      (\<lambda>s v s'. store_ok s \<and> r = Inr (map (as_zsnap c) (service_snaps c ds s)) \<longrightarrow> (\<exists>k. moved c ds s (prune_spec c (ze_now env k) (slots c ds s)) s'))" for r
  proof (cases r)
    case (Inl e)
    then show ?thesis by (auto simp: ensures_def zret_def)
  next
    case (Inr l)
    have "ensures env st0 (destroy_all env c (filter (expired c (ze_now env k)) l))
      (\<lambda>s v s'. store_ok s \<and> l = map (as_zsnap c) (service_snaps c ds s) \<longrightarrow> moved c ds s (prune_spec c (ze_now env k) (slots c ds s)) s')" for k
    proof (cases "\<forall>z \<in> set l. zs_full z = snap_name c ds (zs_slot z)")
      case True
      then have t: "\<forall>z \<in> set (filter (expired c (ze_now env k)) l). zs_full z = snap_name c ds (zs_slot z)" by simp
      show ?thesis
        by (rule ensures_weaken [OF ensures_destroy_all [OF assms t]]) (auto simp: pruned_slots [OF _ pd, symmetric])
    next
      case False
      have any: "ensures env st0 (destroy_all env c zs) (\<lambda>s r s'. True)" for zs
      proof (induction zs)
        case Nil
        then show ?case by (simp add: ensures_def zret_def)
      next
        case (Cons z zs)
        have "ensures env st0 (destroy_snap env c (zs_full z)) (\<lambda>s r s'. True)"
          unfolding destroy_snap_def by (rule ensures_weaken [OF ensures_run]) simp
        from ensures_seq [OF this Cons] show ?case by (rule ensures_cong [OF ensures_weaken]) simp_all
      qed
      have "\<not> (store_ok s \<and> l = map (as_zsnap c) (service_snaps c ds s))" for s
        using False listed_full [OF _ pd, of s _ c] by auto
      then show ?thesis using any by (blast intro: ensures_weaken)
    qed
    from ensures_at [where g = "\<lambda>k. destroy_all env c (filter (expired c (ze_now env k)) l)" and h = "\<lambda>w. length (zw_log w)", OF this]
    show ?thesis
      unfolding Inr by (simp only: sum.case) (erule ensures_weaken, blast)
  qed
  then show ?thesis unfolding prune_def by (rule ensures_weaken [OF ensures_seq [OF ensures_list [OF assms]]]) auto
qed

lemma retire_spec_keeps:
  "retire_spec env frozen keep m ''n1'' = None" "retire_spec env frozen keep m ''n0'' = m ''n0''"
  "retire_spec env frozen keep m ''new'' = m ''new''"
  by (auto simp: retire_spec_def Let_def split: option.splits)

lemma ensures_then:
  assumes "ensures env st0 m (\<lambda>s r s'. A' s \<longrightarrow> r = Inr () \<and> M s s')"
    and "ensures env st0 n (\<lambda>s r s'. B s \<longrightarrow> r = Inr () \<and> N s s')"
    and "\<And>s. A s \<Longrightarrow> A' s"
    and "\<And>s s1. A s \<Longrightarrow> M s s1 \<Longrightarrow> B s1" and "\<And>s s1 s2. A s \<Longrightarrow> M s s1 \<Longrightarrow> N s1 s2 \<Longrightarrow> Q s s2"
  shows "ensures env st0 (ztry m (\<lambda>_. n)) (\<lambda>s r s'. A s \<longrightarrow> r = Inr () \<and> Q s s')"
  by (rule ensures_weaken [OF ensures_try [OF assms(1) assms(2)]]) (use assms(3-5) in blast)

lemma ensures_rotate:
  assumes "plain_cfg c ds" and "\<And>t. plain_name (ze_mmdd env t) \<and> plain_name (ze_hh env t)"
  shows "ensures env st0 (rotate env c ds keep) (\<lambda>s r s'. store_ok s \<longrightarrow>
     (if slots c ds s ''new'' = None then r = Inl NoNewSnapshot \<and> s' = s
      else r = Inr () \<and> (\<exists>k. moved c ds s (rotate_spec env c (frozen_in s (snap_name c ds ''n1'')) keep (ze_now env k) (slots c ds s)) s')))"
proof -
  have pd: "plain_name ds" using assms(1) by (simp add: plain_cfg_def)
  have pn: "plain_name ''n0''" "plain_name ''n1''" by (simp_all add: plain_name_def is_space_def)
  let ?clear = "zseq (clear_blocked c) (\<lambda>_. zret (Inr ()))"
  have cl: "ensures env st0 ?clear (\<lambda>s r s'. s' = s \<and> r = Inr ())"
    by (auto simp: ensures_def zseq_def clear_blocked_def zret_def)
  have fin: "ensures env st0 (zseq (prune env c ds) (\<lambda>_. ?clear))
      (\<lambda>s r s'. store_ok s \<longrightarrow> r = Inr () \<and> (\<exists>k. moved c ds s (prune_spec c (ze_now env k) (slots c ds s)) s'))"
    by (rule ensures_weaken [OF ensures_seq [OF ensures_prune [OF assms(1)] cl]]) auto
  have new: "ensures env st0 (ztry (rename_slot env c ds ''new'' ''n0'') (\<lambda>_. zseq (prune env c ds) (\<lambda>_. ?clear)))
      (\<lambda>s r s'. store_ok s \<and> slots c ds s ''new'' \<noteq> None \<and> slots c ds s ''n0'' = None \<longrightarrow>
         r = Inr () \<and> (\<exists>k. moved c ds s (prune_spec c (ze_now env k) ((slots c ds s)(''new'' := None, ''n0'' := slots c ds s ''new''))) s'))"
  proof (rule ensures_then [OF ensures_rename [OF assms(1) pn(1)] fin])
    fix s s1 s2
    assume m: "moved c ds s ((slots c ds s)(''new'' := None, ''n0'' := slots c ds s ''new'')) s1"
      and n: "\<exists>k. moved c ds s1 (prune_spec c (ze_now env k) (slots c ds s1)) s2"
    have "slots c ds s1 = (slots c ds s)(''new'' := None, ''n0'' := slots c ds s ''new'')" using m by (simp add: moved_def)
    then show "\<exists>k. moved c ds s (prune_spec c (ze_now env k) ((slots c ds s)(''new'' := None, ''n0'' := slots c ds s ''new''))) s2"
      using n moved_trans [OF m] by metis
  qed (simp_all add: moved_def)
  have up: "ensures env st0 (if b then rename_slot env c ds ''n0'' ''n1'' else zret (Inr ()))
      (\<lambda>s r s'. store_ok s \<and> slots c ds s ''n1'' = None \<and> b = (slots c ds s ''n0'' \<noteq> None) \<longrightarrow>
         r = Inr () \<and> moved c ds s ((slots c ds s)(''n0'' := None, ''n1'' := slots c ds s ''n0'')) s')" for b
  proof (cases b)
    case True
    then show ?thesis by (simp only: if_True) (rule ensures_weaken [OF ensures_rename [OF assms(1) pn(2)]], blast)
  next
    case False
    have "(slots c ds s)(''n0'' := None, ''n1'' := slots c ds s ''n0'') = slots c ds s" if "slots c ds s ''n1'' = None" "slots c ds s ''n0'' = None" for s
      using that by auto
    then show ?thesis
      using False by (simp only: if_False) (rule ensures_weaken [OF ensures_ret [OF refl]], metis moved_refl)
  qed
  have rest: "ensures env st0 (ztry (if b then rename_slot env c ds ''n0'' ''n1'' else zret (Inr ())) (\<lambda>_.
      ztry (rename_slot env c ds ''new'' ''n0'') (\<lambda>_. zseq (prune env c ds) (\<lambda>_. ?clear))))
      (\<lambda>s r s'. store_ok s \<and> slots c ds s ''n1'' = None \<and> b = (slots c ds s ''n0'' \<noteq> None) \<and> slots c ds s ''new'' \<noteq> None \<longrightarrow>
         r = Inr () \<and> (\<exists>k. moved c ds s (prune_spec c (ze_now env k)
           ((slots c ds s)(''n1'' := slots c ds s ''n0'', ''n0'' := slots c ds s ''new'', ''new'' := None))) s'))" for b
  proof (rule ensures_then [OF up new])
    fix s s1 s2
    assume pre: "store_ok s \<and> slots c ds s ''n1'' = None \<and> b = (slots c ds s ''n0'' \<noteq> None) \<and> slots c ds s ''new'' \<noteq> None"
      and m: "moved c ds s ((slots c ds s)(''n0'' := None, ''n1'' := slots c ds s ''n0'')) s1"
    have e: "slots c ds s1 = (slots c ds s)(''n0'' := None, ''n1'' := slots c ds s ''n0'')" using m by (simp add: moved_def)
    then show "store_ok s1 \<and> slots c ds s1 ''new'' \<noteq> None \<and> slots c ds s1 ''n0'' = None" using m pre by (simp add: moved_def)
    assume n: "\<exists>k. moved c ds s1 (prune_spec c (ze_now env k) ((slots c ds s1)(''new'' := None, ''n0'' := slots c ds s1 ''new''))) s2"
    have "(slots c ds s1)(''new'' := None, ''n0'' := slots c ds s1 ''new'') =
        (slots c ds s)(''n1'' := slots c ds s ''n0'', ''n0'' := slots c ds s ''new'', ''new'' := None)"
      unfolding e by auto
    then show "\<exists>k. moved c ds s (prune_spec c (ze_now env k)
           ((slots c ds s)(''n1'' := slots c ds s ''n0'', ''n0'' := slots c ds s ''new'', ''new'' := None))) s2"
      using n moved_trans [OF m] by metis
  qed blast
  have all: "ensures env st0 (ztry (retire_n1 env c ds keep l) (\<lambda>_.
      ztry (if find_slot l ''n0'' \<noteq> None then rename_slot env c ds ''n0'' ''n1'' else zret (Inr ())) (\<lambda>_.
      ztry (rename_slot env c ds ''new'' ''n0'') (\<lambda>_. zseq (prune env c ds) (\<lambda>_. ?clear)))))
      (\<lambda>s r s'. store_ok s \<and> l = map (as_zsnap c) (service_snaps c ds s) \<and> slots c ds s ''new'' \<noteq> None \<longrightarrow>
         r = Inr () \<and> (\<exists>k. moved c ds s (rotate_spec env c (frozen_in s (snap_name c ds ''n1'')) keep (ze_now env k) (slots c ds s)) s'))" for l
  proof (rule ensures_then [OF ensures_retire [OF assms] rest])
    fix s s1 s2
    let ?m = "retire_spec env (frozen_in s (snap_name c ds ''n1'')) keep (slots c ds s)"
    assume pre: "store_ok s \<and> l = map (as_zsnap c) (service_snaps c ds s) \<and> slots c ds s ''new'' \<noteq> None"
      and m: "moved c ds s ?m s1"
    have e: "slots c ds s1 = ?m" "store_ok s1" using m by (simp_all add: moved_def)
    have "slots c ds s ''n0'' = None \<longleftrightarrow> find_slot l ''n0'' = None" using slots_listed(1) [of s ds c "''n0''"] pre pd by simp
    then show "store_ok s1 \<and> slots c ds s1 ''n1'' = None \<and> (find_slot l ''n0'' \<noteq> None) = (slots c ds s1 ''n0'' \<noteq> None) \<and> slots c ds s1 ''new'' \<noteq> None"
      using pre by (simp only: e retire_spec_keeps simp_thms)
    assume n: "\<exists>k. moved c ds s1 (prune_spec c (ze_now env k)
           ((slots c ds s1)(''n1'' := slots c ds s1 ''n0'', ''n0'' := slots c ds s1 ''new'', ''new'' := None))) s2"
    then show "\<exists>k. moved c ds s (rotate_spec env c (frozen_in s (snap_name c ds ''n1'')) keep (ze_now env k) (slots c ds s)) s2"
      unfolding rotate_spec_def Let_def e(1) using moved_trans [OF m] by blast
  qed blast
  have "ensures env st0 (if find_slot l ''new'' = None then zret (Inl NoNewSnapshot) else ztry (retire_n1 env c ds keep l) (\<lambda>_.
      ztry (if find_slot l ''n0'' \<noteq> None then rename_slot env c ds ''n0'' ''n1'' else zret (Inr ())) (\<lambda>_.
      ztry (rename_slot env c ds ''new'' ''n0'') (\<lambda>_. zseq (prune env c ds) (\<lambda>_. ?clear)))))
      (\<lambda>s r s'. store_ok s \<and> l = map (as_zsnap c) (service_snaps c ds s) \<longrightarrow> (if slots c ds s ''new'' = None then r = Inl NoNewSnapshot \<and> s' = s
        else r = Inr () \<and> (\<exists>k. moved c ds s (rotate_spec env c (frozen_in s (snap_name c ds ''n1'')) keep (ze_now env k) (slots c ds s)) s')))" for l
  proof (cases "find_slot l ''new'' = None")
    case True
    then show ?thesis
      unfolding if_P [OF True] by (intro ensures_weaken [OF ensures_ret [OF refl]]) (use slots_listed(1) [OF _ pd] in metis)
  next
    case False
    then show ?thesis
      unfolding if_not_P [OF False] by (intro ensures_weaken [OF all]) (use slots_listed(1) [OF _ pd] in metis)
  qed
  from ensures_try [OF ensures_list [OF assms(1)] this] show ?thesis
    unfolding rotate_def by (rule ensures_weaken) auto
qed

text \<open>
  C22. Rotation is one update of the map from slots to snapshots. On a store that answers as \<open>zfs\<close>
  documents, \<open>rotate\<close> succeeds whenever the dataset has a new snapshot (and touches nothing when it has
  none): new becomes n0, n0 becomes n1, the old n1 is kept under the first of its frozen, daily and
  hourly names that is free, or dropped, kept snapshots past their age are removed, and no other
  snapshot of the dataset or of any other is touched.
\<close>

theorem rotate_refines:
  assumes "plain_cfg c ds" and "\<And>t. plain_name (ze_mmdd env t) \<and> plain_name (ze_hh env t)"
    and "rotate env c ds keep w = (r, w')" and "follows env st0 (zw_log w')" and "store_ok (after_log st0 (zw_log w))"
  shows "(if slots c ds (after_log st0 (zw_log w)) ''new'' = None then r = Inl NoNewSnapshot \<and> after_log st0 (zw_log w') = after_log st0 (zw_log w)
     else r = Inr () \<and> others c ds (after_log st0 (zw_log w')) = others c ds (after_log st0 (zw_log w)) \<and>
       (\<exists>k. slots c ds (after_log st0 (zw_log w')) =
          rotate_spec env c (frozen_in (after_log st0 (zw_log w)) (snap_name c ds ''n1'')) keep (ze_now env k) (slots c ds (after_log st0 (zw_log w)))))"
  using ensures_rotate [OF assms(1,2), of st0 keep] assms(3-5) unfolding ensures_def moved_def by (smt (verit))

definition ex_slot :: "string \<Rightarrow> nat \<Rightarrow> snapshot" where
  "ex_slot x n = \<lparr>sn_ds = ''t'', sn_name = ''sync_1_77_'' @ x, sn_guid = n, sn_time = n\<rparr>"

definition ex_slots :: zstore where
  "ex_slots = \<lparr>st_own = (\<lambda>t p. None), st_snaps = [ex_slot ''n1'' 1, ex_slot ''n0'' 2, ex_slot ''new'' 3], st_sets = [''t''], st_next = 9, st_clock = (\<lambda>n. n), st_written = ([], True)\<rparr>"

definition ex_rotated :: zstore where
  "ex_rotated = \<lparr>st_own = (\<lambda>t p. None), st_snaps = [ex_slot ''kd0101'' 1, ex_slot ''n1'' 2, ex_slot ''n0'' 3], st_sets = [''t''], st_next = 9, st_clock = (\<lambda>n. n), st_written = ([], True)\<rparr>"

definition ex_rot_env :: zenv where
  "ex_rot_env = ex_zenv\<lparr>ze_zfs := (\<lambda>n. if n = 0 then (list_text ex_slots ''t'', True) else if n = 1 then (''-'' @ [CHR 0x0A], True)
     else if n = 5 then (list_text ex_rotated ''t'', True) else ([], True))\<rparr>"

lemma ex_rot_run: "fst (rotate ex_rot_env ex_zcfg ''t'' True ex_zw) = Inr ()"
  by code_simp

lemma ex_rot_follows: "follows ex_rot_env ex_slots (zw_log (snd (rotate ex_rot_env ex_zcfg ''t'' True ex_zw)))"
  by (rule follows_answered) code_simp

lemma ex_rot_ok: "store_ok ex_slots" and ex_rot_plain: "plain_cfg ex_zcfg ''t''"
  by code_simp+

lemma rotate_refines_witness:
  "slots ex_zcfg ''t'' ex_slots ''new'' = Some (3, 3) \<and>
   others ex_zcfg ''t'' (after_log ex_slots (zw_log (snd (rotate ex_rot_env ex_zcfg ''t'' True ex_zw)))) = others ex_zcfg ''t'' ex_slots \<and>
   (\<exists>k. slots ex_zcfg ''t'' (after_log ex_slots (zw_log (snd (rotate ex_rot_env ex_zcfg ''t'' True ex_zw)))) =
      rotate_spec ex_rot_env ex_zcfg (frozen_in ex_slots (snap_name ex_zcfg ''t'' ''n1'')) True (ze_now ex_rot_env k) (slots ex_zcfg ''t'' ex_slots))"
proof -
  have run: "rotate ex_rot_env ex_zcfg ''t'' True ex_zw = (Inr (), snd (rotate ex_rot_env ex_zcfg ''t'' True ex_zw))"
    using ex_rot_run by (metis prod.collapse)
  have pl: "plain_name (ze_mmdd ex_rot_env t) \<and> plain_name (ze_hh ex_rot_env t)" for t
    by (simp add: ex_rot_env_def ex_zenv_def plain_name_def is_space_def)
  have z: "after_log ex_slots (zw_log ex_zw) = ex_slots" by (simp add: after_log_def ex_zw_def)
  have n: "slots ex_zcfg ''t'' ex_slots ''new'' = Some (3, 3)" by code_simp
  show ?thesis
    using rotate_refines [OF ex_rot_plain pl run ex_rot_follows] ex_rot_ok n unfolding z by simp
qed

end
