(* ===== verification/Zfs_Recover.thy ===== *)
theory Zfs_Recover
  imports Zfs_Rotate
begin

section \<open>Recovery after an interrupted cycle\<close>

text \<open>
  \<open>recoverCycle\<close> of \<open>zfs.go\<close> on the store of \<open>Zfs_Store\<close>: what it makes of the slots of both datasets, for every
  state they can be in, and that it completes a rotation which was cut off after any of its commands. The
  services are local and not recursive.
\<close>

subsection \<open>The two datasets\<close>

lemma find_filter: "(\<And>s. s \<in> set xs \<Longrightarrow> P s \<Longrightarrow> Q s) \<Longrightarrow> find P (filter Q xs) = find P xs"
  by (induction xs) auto

text \<open>What moves in one dataset leaves the slots of another alone.\<close>

lemma slots_of_others:
  assumes "plain_name d" and "plain_name ds" and "d \<noteq> ds"
  shows "slots c d s x = map_option snap_id (find (\<lambda>u. full_name u = snap_name c d x) (others c ds s))"
proof -
  have "\<not> has_prefix (snap_name c d x) (snap_name c ds [])"
  proof
    assume "has_prefix (snap_name c d x) (snap_name c ds [])"
    then obtain r where e: "snap_name c d x = snap_name c ds [] @ r" by (rule has_prefixE)
    have cut: "takeWhile (\<lambda>y. y \<noteq> CHR ''@'') (a @ CHR ''@'' # b) = a" if "plain_name a" for a b
      using that by (subst takeWhile_append2) (auto simp: plain_name_def)
    show False using cut [OF assms(1)] cut [OF assms(2)] e assms(3) by (metis append.assoc append_Cons append_Nil snap_name_def)
  qed
  then show ?thesis unfolding slots_def others_def by (subst find_filter) auto
qed

lemma moved_other:
  "moved c ds s m s' \<Longrightarrow> plain_name d \<Longrightarrow> plain_name ds \<Longrightarrow> d \<noteq> ds \<Longrightarrow> slots c d s' = slots c d s"
  by (rule ext) (simp add: slots_of_others moved_def)

lemma sets_grow: "set (st_sets st) \<subseteq> set (st_sets (after_log st log))"
proof (induction log rule: rev_induct)
  case (snoc cmd log)
  have "set (st_sets s) \<subseteq> set (st_sets (after_cmd cmd s))" for s
  proof (cases cmd)
    case (Zfs args)
    have "set (st_sets s) \<subseteq> set (st_sets t)" if "store_step s t" for t
      using that by (auto simp: store_step_def set_own_def rename_snap_def destroy_named_def take_snap_def)
    then show ?thesis using Zfs zfs_effect [of s args] by simp
  next
    case (Pipe a b)
    then show ?thesis
      by (auto simp: pipe_answer_def receive_full_def receive_inc_def receive_def roll_back_def split: list.splits option.splits)
  qed simp_all
  then show ?case using snoc unfolding after_log_snoc by blast
qed (simp add: after_log_def)

lemma ensures_exists: "ensures env st0 (zfs_exists env ds) (\<lambda>s r s'. s' = s \<and> r = (ds \<in> set (st_sets s)))"
  unfolding zfs_exists_def
  by (rule ensures_weaken [OF ensures_seq [OF ensures_run]], rule ensures_ret, rule refl) (auto simp: zfs_answer_def split: if_splits)

text \<open>The snapshot a listing has for a slot, handed to a destroy that may have nothing to do.\<close>

definition names_new :: "zcfg \<Rightarrow> string \<Rightarrow> zstore \<Rightarrow> zsnap option \<Rightarrow> bool" where
  "names_new c ds s x \<longleftrightarrow>
     (case x of None \<Rightarrow> slots c ds s ''new'' = None
      | Some z \<Rightarrow> zs_full z = snap_name c ds ''new'' \<and> slots c ds s ''new'' \<noteq> None)"

lemma names_listed:
  "store_ok s \<Longrightarrow> plain_name ds \<Longrightarrow> names_new c ds s (find_slot (map (as_zsnap c) (service_snaps c ds s)) ''new'')"
  using slots_listed [of s ds c "''new''"]
  by (cases "find_slot (map (as_zsnap c) (service_snaps c ds s)) ''new''") (auto simp: names_new_def)

lemma any_destroy: "ensures env st0 (zdestroy env c full) (\<lambda>s r s'. True)"
  unfolding zdestroy_def destroy_snap_def
  by (rule ensures_weaken [OF ensures_unit [OF ensures_run]]) simp

lemma any_destroy_opt: "ensures env st0 (destroy_opt env c x) (\<lambda>s r s'. True)"
  by (cases x) (simp_all add: destroy_opt_def any_destroy, simp add: ensures_def zret_def)

lemma ensures_destroy_opt:
  assumes "plain_cfg c ds"
  shows "ensures env st0 (destroy_opt env c x)
     (\<lambda>s r s'. store_ok s \<and> names_new c ds s x \<longrightarrow> r = Inr () \<and> moved c ds s ((slots c ds s)(''new'' := None)) s')"
proof (cases x)
  case None
  have "(slots c ds s)(''new'' := None) = slots c ds s" if "slots c ds s ''new'' = None" for s using that by auto
  then show ?thesis
    using None by (auto simp: destroy_opt_def names_new_def moved_refl ensures_def zret_def)
next
  case (Some z)
  show ?thesis
  proof (cases "zs_full z = snap_name c ds ''new''")
    case True
    show ?thesis
      unfolding destroy_opt_def Some option.case
      by (rule ensures_weaken [OF ensures_zdestroy [OF assms True]]) (simp add: names_new_def)
  next
    case False
    then have "\<not> names_new c ds s x" for s by (simp add: names_new_def Some)
    then show ?thesis by (intro ensures_weaken [OF any_destroy_opt]) simp
  qed
qed

subsection \<open>What recovery makes of the slots\<close>

definition rotated :: "zenv \<Rightarrow> zcfg \<Rightarrow> bool \<Rightarrow> slot_map \<Rightarrow> slot_map \<Rightarrow> bool" where
  "rotated env c keep m m' \<longleftrightarrow> (\<exists>frozen k. m' = rotate_spec env c frozen keep (ze_now env k) m)"

definition same_guid :: "(nat \<times> nat) option \<Rightarrow> (nat \<times> nat) option \<Rightarrow> bool" where
  "same_guid x y = (case (x, y) of (Some (g, t), Some (h, u)) \<Rightarrow> g = h | _ \<Rightarrow> False)"

text \<open>
  The abstract recovery, on the slots of the primary and of the backup: finish the rotation on both sides if
  both have the same new snapshot, on the backup if the primary has finished its own; otherwise no new
  snapshot is left.
\<close>

definition recover_spec :: "zenv \<Rightarrow> zcfg \<Rightarrow> bool \<Rightarrow> slot_map \<times> slot_map \<Rightarrow> slot_map \<times> slot_map \<Rightarrow> bool" where
  "recover_spec env c backup_there m m' =
     (case (m, m') of ((p, b), (p', b')) \<Rightarrow>
        if \<not> backup_there \<or> b ''new'' = None then p' = p(''new'' := None) \<and> b' = b
        else if same_guid (p ''new'') (b ''new'') then rotated env c (zc_versions c) p p' \<and> rotated env c True b b'
        else if same_guid (p ''n0'') (b ''new'') then p' = p \<and> rotated env c True b b'
        else p' = p(''new'' := None) \<and> b' = b(''new'' := None))"

abbreviation pair :: "zcfg \<Rightarrow> zstore \<Rightarrow> slot_map \<times> slot_map" where
  "pair c s \<equiv> (slots c (zc_primary c) s, slots c (zc_backup c) s)"

text \<open>What a listing says of guids.\<close>

lemma nat_str_eq: "nat_str m = nat_str n \<longleftrightarrow> m = n"
  by (rule nat_str_inj)

lemma slot_guid:
  assumes "store_ok s" and "plain_name ds" and "find_slot (map (as_zsnap c) (service_snaps c ds s)) x = Some z"
  shows "\<exists>g t. slots c ds s x = Some (g, t) \<and> zs_guid z = nat_str g \<and> zs_full z = snap_name c ds x"
proof -
  obtain u where u: "find (\<lambda>s. full_name s = snap_name c ds x) (st_snaps s) = Some u" "z = as_zsnap c u"
    using find_listed [OF assms(1,2), of c x] assms(3) by (metis map_option_eq_Some)
  then have "full_name u = snap_name c ds x" by (auto simp: find_Some_iff)
  then show ?thesis using u by (simp add: slots_def snap_id_def as_zsnap_def)
qed

lemma listed_with_guid:
  assumes "store_ok s" and "plain_name ds"
  shows "list_ex (\<lambda>p. zs_guid p = nat_str g \<and> zs_slot p = x) (map (as_zsnap c) (service_snaps c ds s)) \<longleftrightarrow> (\<exists>t. slots c ds s x = Some (g, t))"
  unfolding slots_some [OF assms] list_ex_iff
  by (auto simp: as_zsnap_def snap_id_def nat_str_eq)

lemma rotatedI: "rotated env c keep m (rotate_spec env c frozen keep (ze_now env k) m)"
  by (auto simp: rotated_def)

lemma ensures_rotated:
  assumes "plain_cfg c ds" and "\<And>t. plain_name (ze_mmdd env t) \<and> plain_name (ze_hh env t)"
  shows "ensures env st0 (rotate env c ds keep) (\<lambda>s r s'. store_ok s \<and> slots c ds s ''new'' \<noteq> None \<longrightarrow>
     r = Inr () \<and> store_ok s' \<and> rotated env c keep (slots c ds s) (slots c ds s') \<and> others c ds s' = others c ds s)"
  by (rule ensures_weaken [OF ensures_rotate [OF assms]]) (auto simp: moved_def rotatedI)

lemma others_other:
  "others c ds s' = others c ds s \<Longrightarrow> plain_name d \<Longrightarrow> plain_name ds \<Longrightarrow> d \<noteq> ds \<Longrightarrow> slots c d s' = slots c d s"
  by (rule ext) (simp add: slots_of_others)

text \<open>The third part of recovery, with the listings of both sides at hand.\<close>

definition recover_listed :: "zenv \<Rightarrow> zcfg \<Rightarrow> zsnap list \<Rightarrow> zsnap list \<Rightarrow> (zerr + unit) z" where
  "recover_listed env c pl bl =
     (case find_slot bl ''new'' of
        None \<Rightarrow> destroy_opt env c (find_slot pl ''new'')
      | Some bn \<Rightarrow>
          if (case find_slot pl ''new'' of None \<Rightarrow> False | Some p \<Rightarrow> zs_guid p = zs_guid bn) then
            ztry (rotate env c (zc_primary c) (zc_versions c)) (\<lambda>_. rotate env c (zc_backup c) True)
          else if list_ex (\<lambda>p. zs_guid p = zs_guid bn \<and> zs_slot p = ''n0'') pl then rotate env c (zc_backup c) True
          else ztry (zdestroy env c (zs_full bn)) (\<lambda>_. destroy_opt env c (find_slot pl ''new'')))"

definition listings :: "zcfg \<Rightarrow> zstore \<Rightarrow> zsnap list \<Rightarrow> zsnap list \<Rightarrow> bool" where
  "listings c s pl bl \<longleftrightarrow> store_ok s \<and> pl = map (as_zsnap c) (service_snaps c (zc_primary c) s) \<and>
     bl = map (as_zsnap c) (service_snaps c (zc_backup c) s)"

definition two_sides :: "zcfg \<Rightarrow> bool" where
  "two_sides c \<longleftrightarrow> plain_cfg c (zc_primary c) \<and> plain_cfg c (zc_backup c) \<and> zc_primary c \<noteq> zc_backup c"

lemma two_sides_plain:
  "two_sides c \<Longrightarrow> plain_name (zc_primary c) \<and> plain_name (zc_backup c)"
  by (simp add: two_sides_def plain_cfg_def)

text \<open>Two operations, the first on the primary, the second on the backup, or the other way round.\<close>

lemma ensures_both:
  assumes "two_sides c" and "{d, e} = {zc_primary c, zc_backup c}" and "d \<noteq> e"
    and "ensures env st0 m (\<lambda>s r s'. A s \<longrightarrow> r = Inr () \<and> store_ok s' \<and> M (slots c d s) (slots c d s') \<and> others c d s' = others c d s)"
    and "ensures env st0 n (\<lambda>s r s'. B s \<longrightarrow> r = Inr () \<and> store_ok s' \<and> N (slots c e s) (slots c e s') \<and> others c e s' = others c e s)"
    and "\<And>s s1. A s \<Longrightarrow> store_ok s1 \<Longrightarrow> slots c e s1 = slots c e s \<Longrightarrow> B s1"
  shows "ensures env st0 (ztry m (\<lambda>_. n)) (\<lambda>s r s'. A s \<longrightarrow> r = Inr () \<and> store_ok s' \<and> M (slots c d s) (slots c d s') \<and> N (slots c e s) (slots c e s'))"
proof -
  have pl: "plain_name d" "plain_name e" using two_sides_plain [OF assms(1)] assms(2) by (auto simp: doubleton_eq_iff)
  show ?thesis
  proof (rule ensures_then [OF assms(4,5)])
    fix s s1 s2
    assume a: "A s" and m: "store_ok s1 \<and> M (slots c d s) (slots c d s1) \<and> others c d s1 = others c d s"
    have e: "slots c e s1 = slots c e s" by (rule others_other [OF _ pl(2,1)]) (use m assms(3) in auto)
    then show "B s1" using assms(6) [OF a] m by blast
    assume n: "store_ok s2 \<and> N (slots c e s1) (slots c e s2) \<and> others c e s2 = others c e s1"
    have "slots c d s2 = slots c d s1" by (rule others_other [OF _ pl]) (use n assms(3) in auto)
    then show "store_ok s2 \<and> M (slots c d s) (slots c d s2) \<and> N (slots c e s) (slots c e s2)" using m n e by simp
  qed simp
qed

lemma same_guid_new:
  assumes "listings c s pl bl" and "two_sides c" and "find_slot bl ''new'' = Some bn"
  shows "(case find_slot pl ''new'' of None \<Rightarrow> False | Some p \<Rightarrow> zs_guid p = zs_guid bn) \<longleftrightarrow>
           same_guid (slots c (zc_primary c) s ''new'') (slots c (zc_backup c) s ''new'')" (is ?new)
    and "list_ex (\<lambda>p. zs_guid p = zs_guid bn \<and> zs_slot p = ''n0'') pl \<longleftrightarrow>
           same_guid (slots c (zc_primary c) s ''n0'') (slots c (zc_backup c) s ''new'')"
    and "zs_full bn = snap_name c (zc_backup c) ''new''" and "slots c (zc_backup c) s ''new'' \<noteq> None"
proof -
  have pn: "plain_name (zc_primary c)" "plain_name (zc_backup c)" using two_sides_plain [OF assms(2)] by simp_all
  have ok: "store_ok s" and pl: "pl = map (as_zsnap c) (service_snaps c (zc_primary c) s)"
    and bl: "bl = map (as_zsnap c) (service_snaps c (zc_backup c) s)" using assms(1) by (simp_all add: listings_def)
  obtain g t where b: "slots c (zc_backup c) s ''new'' = Some (g, t)" "zs_guid bn = nat_str g" "zs_full bn = snap_name c (zc_backup c) ''new''"
    using slot_guid [OF ok pn(2)] assms(3) bl by blast
  show ?new
  proof (cases "find_slot pl ''new''")
    case None
    then have "slots c (zc_primary c) s ''new'' = None" using slots_listed(1) [OF ok pn(1)] pl by simp
    then show ?thesis using None by (simp add: same_guid_def)
  next
    case (Some p)
    then obtain h u where "slots c (zc_primary c) s ''new'' = Some (h, u)" "zs_guid p = nat_str h"
      using slot_guid [OF ok pn(1)] pl by blast
    then show ?thesis using Some b by (simp add: same_guid_def nat_str_eq)
  qed
  show "list_ex (\<lambda>p. zs_guid p = zs_guid bn \<and> zs_slot p = ''n0'') pl \<longleftrightarrow>
           same_guid (slots c (zc_primary c) s ''n0'') (slots c (zc_backup c) s ''new'')"
    unfolding pl b(2) listed_with_guid [OF ok pn(1)] by (auto simp: same_guid_def b(1) split: option.splits)
  show "zs_full bn = snap_name c (zc_backup c) ''new''" "slots c (zc_backup c) s ''new'' \<noteq> None" using b by simp_all
qed

lemma listed_none:
  "listings c s pl bl \<Longrightarrow> two_sides c \<Longrightarrow> find_slot bl ''new'' = None \<longleftrightarrow> slots c (zc_backup c) s ''new'' = None"
  using slots_listed(1) [of s "zc_backup c" c "''new''"] two_sides_plain by (auto simp: listings_def)

lemma listed_names: "listings c s pl bl \<Longrightarrow> two_sides c \<Longrightarrow> names_new c (zc_primary c) s (find_slot pl ''new'')"
  using names_listed two_sides_plain by (auto simp: listings_def)

lemma destroy_primary:
  assumes "two_sides c"
  shows "ensures env st0 (destroy_opt env c x) (\<lambda>s r s'. store_ok s \<and> names_new c (zc_primary c) s x \<longrightarrow>
     r = Inr () \<and> store_ok s' \<and> pair c s' = ((slots c (zc_primary c) s)(''new'' := None), slots c (zc_backup c) s))"
proof -
  have p: "plain_cfg c (zc_primary c)" using assms by (simp add: two_sides_def)
  have o: "slots c (zc_backup c) s' = slots c (zc_backup c) s" if "moved c (zc_primary c) s m s'" for s m s'
    by (rule moved_other [OF that]) (use assms in \<open>auto simp: two_sides_def plain_cfg_def\<close>)
  show ?thesis
  proof (rule ensures_weaken [OF ensures_destroy_opt [OF p]], intro impI)
    fix s r s'
    assume h: "store_ok s \<and> names_new c (zc_primary c) s x \<longrightarrow> r = Inr () \<and> moved c (zc_primary c) s ((slots c (zc_primary c) s)(''new'' := None)) s'"
      and a: "store_ok s \<and> names_new c (zc_primary c) s x"
    then have r: "r = Inr ()" and m: "moved c (zc_primary c) s ((slots c (zc_primary c) s)(''new'' := None)) s'" by blast+
    show "r = Inr () \<and> store_ok s' \<and> pair c s' = ((slots c (zc_primary c) s)(''new'' := None), slots c (zc_backup c) s)"
      unfolding o [OF m] using r m by (simp add: moved_def)
  qed
qed

lemma ensures_recover_listed:
  assumes "two_sides c" and "\<And>t. plain_name (ze_mmdd env t) \<and> plain_name (ze_hh env t)"
  shows "ensures env st0 (recover_listed env c pl bl) (\<lambda>s r s'. listings c s pl bl \<longrightarrow>
     r = Inr () \<and> store_ok s' \<and> recover_spec env c True (pair c s) (pair c s'))"
proof (cases "find_slot bl ''new''")
  case None
  show ?thesis
    unfolding recover_listed_def None option.case
    by (rule ensures_weaken [OF destroy_primary [OF assms(1)]])
      (use listed_none [OF _ assms(1), of _ pl bl] listed_names [OF _ assms(1), of _ pl bl] None
        in \<open>auto simp: recover_spec_def listings_def\<close>)
next
  case (Some bn)
  note sides = assms(1) [unfolded two_sides_def]
  note g = same_guid_new [OF _ assms(1) Some]
  consider "(case find_slot pl ''new'' of None \<Rightarrow> False | Some p \<Rightarrow> zs_guid p = zs_guid bn)"
    | "\<not> (case find_slot pl ''new'' of None \<Rightarrow> False | Some p \<Rightarrow> zs_guid p = zs_guid bn)" "list_ex (\<lambda>p. zs_guid p = zs_guid bn \<and> zs_slot p = ''n0'') pl"
    | "\<not> (case find_slot pl ''new'' of None \<Rightarrow> False | Some p \<Rightarrow> zs_guid p = zs_guid bn)" "\<not> list_ex (\<lambda>p. zs_guid p = zs_guid bn \<and> zs_slot p = ''n0'') pl"
    by blast
  then show ?thesis
  proof cases
    case 1
    have "ensures env st0 (ztry (rotate env c (zc_primary c) (zc_versions c)) (\<lambda>_. rotate env c (zc_backup c) True))
      (\<lambda>s r s'. (store_ok s \<and> slots c (zc_primary c) s ''new'' \<noteq> None \<and> slots c (zc_backup c) s ''new'' \<noteq> None) \<longrightarrow>
        r = Inr () \<and> store_ok s' \<and> rotated env c (zc_versions c) (slots c (zc_primary c) s) (slots c (zc_primary c) s') \<and>
        rotated env c True (slots c (zc_backup c) s) (slots c (zc_backup c) s'))"
    proof (rule ensures_both [OF assms(1), where B = "\<lambda>s. store_ok s \<and> slots c (zc_backup c) s ''new'' \<noteq> None"])
      show "ensures env st0 (rotate env c (zc_primary c) (zc_versions c)) (\<lambda>s r s'.
          store_ok s \<and> slots c (zc_primary c) s ''new'' \<noteq> None \<and> slots c (zc_backup c) s ''new'' \<noteq> None \<longrightarrow>
          r = Inr () \<and> store_ok s' \<and> rotated env c (zc_versions c) (slots c (zc_primary c) s) (slots c (zc_primary c) s') \<and>
          others c (zc_primary c) s' = others c (zc_primary c) s)"
        by (rule ensures_weaken [OF ensures_rotated [OF _ assms(2)]]) (use sides in auto)
      show "ensures env st0 (rotate env c (zc_backup c) True) (\<lambda>s r s'. store_ok s \<and> slots c (zc_backup c) s ''new'' \<noteq> None \<longrightarrow>
          r = Inr () \<and> store_ok s' \<and> rotated env c True (slots c (zc_backup c) s) (slots c (zc_backup c) s') \<and>
          others c (zc_backup c) s' = others c (zc_backup c) s)"
        by (rule ensures_rotated [OF _ assms(2)]) (use sides in auto)
    qed (use sides in auto)
    then show ?thesis
      unfolding recover_listed_def Some option.case if_P [OF 1]
    proof (rule ensures_weaken, intro impI)
      fix s r s'
      assume l: "listings c s pl bl"
        and h: "(store_ok s \<and> slots c (zc_primary c) s ''new'' \<noteq> None \<and> slots c (zc_backup c) s ''new'' \<noteq> None) \<longrightarrow>
          r = Inr () \<and> store_ok s' \<and> rotated env c (zc_versions c) (slots c (zc_primary c) s) (slots c (zc_primary c) s') \<and>
          rotated env c True (slots c (zc_backup c) s) (slots c (zc_backup c) s')"
      have sg: "same_guid (slots c (zc_primary c) s ''new'') (slots c (zc_backup c) s ''new'')" using g(1) [OF l] 1 by simp
      have "slots c (zc_primary c) s ''new'' \<noteq> None" using sg by (auto simp: same_guid_def split: option.splits)
      then have "r = Inr () \<and> store_ok s' \<and> rotated env c (zc_versions c) (slots c (zc_primary c) s) (slots c (zc_primary c) s') \<and>
          rotated env c True (slots c (zc_backup c) s) (slots c (zc_backup c) s')"
        using h g(4) [OF l] l by (simp add: listings_def)
      then show "r = Inr () \<and> store_ok s' \<and> recover_spec env c True (pair c s) (pair c s')"
        using sg g(4) [OF l] by (auto simp: recover_spec_def)
    qed
  next
    case 2
    have o: "slots c (zc_primary c) s' = slots c (zc_primary c) s" if "others c (zc_backup c) s' = others c (zc_backup c) s" for s s'
      by (rule others_other [OF that]) (use two_sides_plain [OF assms(1)] sides in auto)
    have "ensures env st0 (rotate env c (zc_backup c) True) (\<lambda>s r s'. store_ok s \<and> slots c (zc_backup c) s ''new'' \<noteq> None \<longrightarrow>
          r = Inr () \<and> store_ok s' \<and> rotated env c True (slots c (zc_backup c) s) (slots c (zc_backup c) s') \<and>
          slots c (zc_primary c) s' = slots c (zc_primary c) s)"
    proof (rule ensures_weaken [OF ensures_rotated [OF _ assms(2)]])
      show "plain_cfg c (zc_backup c)" using sides by blast
    qed (use o in blast)
    then show ?thesis
      unfolding recover_listed_def Some option.case if_not_P [OF 2(1)] if_P [OF 2(2)]
    proof (rule ensures_weaken, intro impI)
      fix s r s'
      assume l: "listings c s pl bl"
        and h: "store_ok s \<and> slots c (zc_backup c) s ''new'' \<noteq> None \<longrightarrow>
          r = Inr () \<and> store_ok s' \<and> rotated env c True (slots c (zc_backup c) s) (slots c (zc_backup c) s') \<and>
          slots c (zc_primary c) s' = slots c (zc_primary c) s"
      have sg: "\<not> same_guid (slots c (zc_primary c) s ''new'') (slots c (zc_backup c) s ''new'')"
        "same_guid (slots c (zc_primary c) s ''n0'') (slots c (zc_backup c) s ''new'')" using g(1,2) [OF l] 2 by simp_all
      show "r = Inr () \<and> store_ok s' \<and> recover_spec env c True (pair c s) (pair c s')"
        using h sg g(4) [OF l] l by (auto simp: recover_spec_def listings_def)
    qed
  next
    case 3
    show ?thesis
    proof (cases "zs_full bn = snap_name c (zc_backup c) ''new''")
      case True
      have o: "slots c (zc_primary c) s' = slots c (zc_primary c) s" if "moved c (zc_backup c) s m s'" for s m s'
        by (rule moved_other [OF that]) (use two_sides_plain [OF assms(1)] sides in auto)
      have "ensures env st0 (ztry (zdestroy env c (zs_full bn)) (\<lambda>_. destroy_opt env c (find_slot pl ''new'')))
        (\<lambda>s r s'. (store_ok s \<and> slots c (zc_backup c) s ''new'' \<noteq> None \<and> names_new c (zc_primary c) s (find_slot pl ''new'')) \<longrightarrow>
          r = Inr () \<and> store_ok s' \<and> pair c s' = ((slots c (zc_primary c) s)(''new'' := None), (slots c (zc_backup c) s)(''new'' := None)))"
      proof (rule ensures_then [OF ensures_zdestroy [OF _ True] destroy_primary [OF assms(1)]])
        show "plain_cfg c (zc_backup c)" using sides by blast
        fix s s1 s2
        assume a: "store_ok s \<and> slots c (zc_backup c) s ''new'' \<noteq> None \<and> names_new c (zc_primary c) s (find_slot pl ''new'')"
          and m: "moved c (zc_backup c) s ((slots c (zc_backup c) s)(''new'' := None)) s1"
        show "store_ok s1 \<and> names_new c (zc_primary c) s1 (find_slot pl ''new'')"
          using a m unfolding names_new_def o [OF m] by (simp add: moved_def)
        assume n: "store_ok s2 \<and> pair c s2 = ((slots c (zc_primary c) s1)(''new'' := None), slots c (zc_backup c) s1)"
        have "slots c (zc_backup c) s1 = (slots c (zc_backup c) s)(''new'' := None)" using m by (simp add: moved_def)
        then show "store_ok s2 \<and> pair c s2 = ((slots c (zc_primary c) s)(''new'' := None), (slots c (zc_backup c) s)(''new'' := None))"
          using n unfolding o [OF m] by simp
      qed blast
      then show ?thesis
        unfolding recover_listed_def Some option.case if_not_P [OF 3(1)] if_not_P [OF 3(2)]
      proof (rule ensures_weaken, intro impI)
        fix s r s'
        assume l: "listings c s pl bl"
          and h: "(store_ok s \<and> slots c (zc_backup c) s ''new'' \<noteq> None \<and> names_new c (zc_primary c) s (find_slot pl ''new'')) \<longrightarrow>
          r = Inr () \<and> store_ok s' \<and> pair c s' = ((slots c (zc_primary c) s)(''new'' := None), (slots c (zc_backup c) s)(''new'' := None))"
        have sg: "\<not> same_guid (slots c (zc_primary c) s ''new'') (slots c (zc_backup c) s ''new'')"
          "\<not> same_guid (slots c (zc_primary c) s ''n0'') (slots c (zc_backup c) s ''new'')" using g(1,2) [OF l] 3 by simp_all
        have "r = Inr () \<and> store_ok s' \<and> pair c s' = ((slots c (zc_primary c) s)(''new'' := None), (slots c (zc_backup c) s)(''new'' := None))"
          using h g(4) [OF l] l listed_names [OF l assms(1)] by (simp add: listings_def)
        then show "r = Inr () \<and> store_ok s' \<and> recover_spec env c True (pair c s) (pair c s')"
          using sg g(4) [OF l] by (auto simp: recover_spec_def)
      qed
    next
      case False
      then have "\<not> listings c s pl bl" for s using g(3) by blast
      moreover have "ensures env st0 (recover_listed env c pl bl) (\<lambda>s r s'. True)"
        unfolding recover_listed_def Some option.case if_not_P [OF 3(1)] if_not_P [OF 3(2)]
        by (rule ensures_weaken [OF ensures_try [OF any_destroy any_destroy_opt]]) simp
      ultimately show ?thesis by (simp add: ensures_weaken)
    qed
  qed
qed

lemma recover_cycle_parts:
  "recover_cycle env c =
     ztry (list_snaps env c (zc_primary c)) (\<lambda>pl.
     zseq (zfs_exists env (zc_backup c)) (\<lambda>ex.
       if \<not> ex then destroy_opt env c (find_slot pl ''new'')
       else ztry (list_snaps env c (zc_backup c)) (\<lambda>bl. recover_listed env c pl bl)))"
  unfolding recover_cycle_def recover_listed_def [abs_def] Let_def by (rule refl)

lemma ensures_recover:
  assumes "two_sides c" and "\<And>t. plain_name (ze_mmdd env t) \<and> plain_name (ze_hh env t)"
  shows "ensures env st0 (recover_cycle env c) (\<lambda>s r s'. store_ok s \<longrightarrow>
     r = Inr () \<and> store_ok s' \<and> recover_spec env c (zc_backup c \<in> set (st_sets s)) (pair c s) (pair c s'))"
proof -
  have p: "plain_cfg c (zc_primary c)" and b: "plain_cfg c (zc_backup c)" using assms(1) by (simp_all add: two_sides_def)
  let ?lp = "\<lambda>s. map (as_zsnap c) (service_snaps c (zc_primary c) s)"
  have there: "ensures env st0 (ztry (list_snaps env c (zc_backup c)) (\<lambda>bl. recover_listed env c pl bl))
      (\<lambda>s r s'. store_ok s \<and> pl = ?lp s \<longrightarrow> r = Inr () \<and> store_ok s' \<and> recover_spec env c True (pair c s) (pair c s'))" for pl
    by (rule ensures_weaken [OF ensures_try [OF ensures_list [OF b] ensures_recover_listed [OF assms]]])
      (auto simp: listings_def)
  have gone: "ensures env st0 (destroy_opt env c (find_slot pl ''new''))
      (\<lambda>s r s'. store_ok s \<and> pl = ?lp s \<longrightarrow> r = Inr () \<and> store_ok s' \<and> recover_spec env c False (pair c s) (pair c s'))" for pl
  proof (rule ensures_weaken [OF destroy_primary [OF assms(1)]], intro impI)
    fix s r s'
    assume h: "store_ok s \<and> names_new c (zc_primary c) s (find_slot pl ''new'') \<longrightarrow>
        r = Inr () \<and> store_ok s' \<and> pair c s' = ((slots c (zc_primary c) s)(''new'' := None), slots c (zc_backup c) s)"
      and a: "store_ok s \<and> pl = ?lp s"
    have "names_new c (zc_primary c) s (find_slot pl ''new'')"
      using names_listed [of s "zc_primary c" c] a p by (simp add: plain_cfg_def)
    then show "r = Inr () \<and> store_ok s' \<and> recover_spec env c False (pair c s) (pair c s')"
      using h a by (simp add: recover_spec_def)
  qed
  have rest: "ensures env st0 (if \<not> ex then destroy_opt env c (find_slot pl ''new'')
       else ztry (list_snaps env c (zc_backup c)) (\<lambda>bl. recover_listed env c pl bl))
      (\<lambda>s r s'. store_ok s \<and> pl = ?lp s \<longrightarrow> r = Inr () \<and> store_ok s' \<and> recover_spec env c ex (pair c s) (pair c s'))" for ex pl
    using there gone by (cases ex) simp_all
  have after: "ensures env st0 (zseq (zfs_exists env (zc_backup c)) (\<lambda>ex.
       if \<not> ex then destroy_opt env c (find_slot pl ''new'')
       else ztry (list_snaps env c (zc_backup c)) (\<lambda>bl. recover_listed env c pl bl)))
      (\<lambda>s r s'. store_ok s \<and> pl = ?lp s \<longrightarrow>
        r = Inr () \<and> store_ok s' \<and> recover_spec env c (zc_backup c \<in> set (st_sets s)) (pair c s) (pair c s'))" for pl
    by (rule ensures_weaken [OF ensures_seq [OF ensures_exists rest]]) blast
  show ?thesis
    unfolding recover_cycle_parts
    by (rule ensures_weaken [OF ensures_try [OF ensures_list [OF p] after]]) auto
qed

text \<open>
  C23. Recovery is one step on the slots of the two datasets. On a store that answers as \<open>zfs\<close> documents,
  \<open>recoverCycle\<close> never fails: if both sides have the same new snapshot it finishes the rotation on both, if
  the primary has finished its own it finishes the one of the backup, and in every other case it leaves no
  new snapshot on the side where there was one and changes no other slot.
\<close>

theorem recover_refines:
  assumes "two_sides c" and "\<And>t. plain_name (ze_mmdd env t) \<and> plain_name (ze_hh env t)"
    and "recover_cycle env c w = (r, w')" and "follows env st0 (zw_log w')" and "store_ok (after_log st0 (zw_log w))"
  shows "r = Inr () \<and> recover_spec env c (zc_backup c \<in> set (st_sets (after_log st0 (zw_log w))))
     (pair c (after_log st0 (zw_log w))) (pair c (after_log st0 (zw_log w')))"
  using ensures_recover [OF assms(1,2), of st0] assms(3-5) unfolding ensures_def by blast

end
