(* ===== verification/Zfs_Crash.thy ===== *)
theory Zfs_Crash
  imports Zfs_Recover
begin

section \<open>A rotation cut off after any command\<close>

text \<open>
  The process can die between any two commands of the rotation that ends a cycle. \<open>through\<close> is a triple with
  a condition for every state on the way, in the manner of a crash condition: it speaks of the store after each
  prefix of the commands. The states a rotation passes through are \<open>fresh\<close> or \<open>settled\<close> on each side, and the recovery
  of the next cycle brings every one of them to the end the rotation would have had for the new snapshot.
\<close>

definition through :: "zenv \<Rightarrow> zstore \<Rightarrow> (zstore \<Rightarrow> bool) \<Rightarrow> (zstore \<Rightarrow> bool) \<Rightarrow> 'a z \<Rightarrow> ('a \<Rightarrow> zstore \<Rightarrow> bool) \<Rightarrow> bool" where
  "through env st0 C P m Q \<longleftrightarrow>
     (\<forall>w r w'. m w = (r, w') \<longrightarrow>
        (\<exists>xs. zw_log w' = zw_log w @ xs) \<and>
        (follows env st0 (zw_log w') \<and> P (after_log st0 (zw_log w)) \<longrightarrow>
          (\<forall>k. length (zw_log w) \<le> k \<and> k \<le> length (zw_log w') \<longrightarrow> C (after_log st0 (take k (zw_log w')))) \<and>
          Q r (after_log st0 (zw_log w'))))"

lemma through_ret: "(\<And>s. P s \<Longrightarrow> C s \<and> Q x s) \<Longrightarrow> through env st0 C P (zret x) Q"
  by (auto simp: through_def zret_def)

lemma through_weaken:
  "through env st0 C P m Q \<Longrightarrow> (\<And>s. P' s \<Longrightarrow> P s) \<Longrightarrow> (\<And>r s. Q r s \<Longrightarrow> Q' r s) \<Longrightarrow> through env st0 C P' m Q'"
  unfolding through_def by blast

lemma through_seq:
  assumes m: "through env st0 C P m Q" and f: "\<And>x. through env st0 C (Q x) (f x) R"
  shows "through env st0 C P (zseq m f) R"
  unfolding through_def
proof (intro allI impI)
  fix w r w'
  assume run: "zseq m f w = (r, w')"
  obtain x w1 where m1: "m w = (x, w1)" by force
  then have f1: "f x w1 = (r, w')" using run by (simp add: zseq_def)
  obtain xs where xs: "zw_log w1 = zw_log w @ xs" using m m1 unfolding through_def by blast
  obtain ys where ys: "zw_log w' = zw_log w1 @ ys" using f f1 unfolding through_def by blast
  have "(\<forall>k. length (zw_log w) \<le> k \<and> k \<le> length (zw_log w') \<longrightarrow> C (after_log st0 (take k (zw_log w')))) \<and> R r (after_log st0 (zw_log w'))"
    if fo: "follows env st0 (zw_log w')" and p: "P (after_log st0 (zw_log w))"
  proof -
    have "follows env st0 (zw_log w1)" using fo ys follows_prefix by metis
    then have 1: "\<forall>k. length (zw_log w) \<le> k \<and> k \<le> length (zw_log w1) \<longrightarrow> C (after_log st0 (take k (zw_log w1)))"
      and q: "Q x (after_log st0 (zw_log w1))" using m m1 p unfolding through_def by blast+
    have 2: "\<forall>k. length (zw_log w1) \<le> k \<and> k \<le> length (zw_log w') \<longrightarrow> C (after_log st0 (take k (zw_log w')))"
      and r: "R r (after_log st0 (zw_log w'))" using f f1 fo q unfolding through_def by blast+
    have "C (after_log st0 (take k (zw_log w')))" if k: "length (zw_log w) \<le> k" "k \<le> length (zw_log w')" for k
    proof (cases "k \<le> length (zw_log w1)")
      case True
      then have "take k (zw_log w') = take k (zw_log w1)" by (simp add: ys)
      then show ?thesis using 1 k True by simp
    next
      case False
      then show ?thesis using 2 k by simp
    qed
    then show ?thesis using r by blast
  qed
  then show "(\<exists>xs. zw_log w' = zw_log w @ xs) \<and> (follows env st0 (zw_log w') \<and> P (after_log st0 (zw_log w)) \<longrightarrow>
      (\<forall>k. length (zw_log w) \<le> k \<and> k \<le> length (zw_log w') \<longrightarrow> C (after_log st0 (take k (zw_log w')))) \<and>
      R r (after_log st0 (zw_log w')))"
    using xs ys by auto
qed

lemma through_try:
  assumes "through env st0 C P m Q" and "\<And>x. through env st0 C (Q (Inr x)) (f x) R"
    and "\<And>e s. Q (Inl e) s \<Longrightarrow> C s \<and> R (Inl e) s"
  shows "through env st0 C P (ztry m f) R"
  unfolding ztry_def
proof (rule through_seq [OF assms(1)])
  fix r :: "zerr + 'a"
  show "through env st0 C (Q r) (case r of Inl e \<Rightarrow> zret (Inl e) | Inr x \<Rightarrow> f x) R"
    using assms(2,3) by (cases r) (auto intro: through_ret)
qed

lemma through_run:
  assumes "\<And>s. P s \<Longrightarrow> C s \<and> C (snd (zfs_answer args s)) \<and>
      Q (if snd (fst (zfs_answer args s)) then Inr (trim_space (fst (fst (zfs_answer args s)))) else Inl (ZfsFailed args))
        (snd (zfs_answer args s))"
  shows "through env st0 C P (zfs_run env args) Q"
  unfolding through_def
proof (intro allI impI)
  fix w r w'
  assume run: "zfs_run env args w = (r, w')"
  let ?s = "after_log st0 (zw_log w)"
  have l: "zw_log w' = zw_log w @ [Zfs args]" using run by (auto simp: zfs_run_def issue_def split: prod.splits)
  have s': "after_log st0 (zw_log w') = snd (zfs_answer args ?s)" by (simp add: l after_log_snoc)
  have "(\<forall>k. length (zw_log w) \<le> k \<and> k \<le> length (zw_log w') \<longrightarrow> C (after_log st0 (take k (zw_log w')))) \<and> Q r (after_log st0 (zw_log w'))"
    if fo: "follows env st0 (zw_log w')" and p: "P ?s"
  proof -
    have "ze_zfs env (length (zw_log w)) = fst (zfs_answer args ?s)"
      using fo unfolding follows_def l by (auto dest!: spec [of _ "length (zw_log w)"])
    then have "r = (if snd (fst (zfs_answer args ?s)) then Inr (trim_space (fst (fst (zfs_answer args ?s)))) else Inl (ZfsFailed args))"
      using run by (auto simp: zfs_run_def split: prod.splits)
    moreover have "C (after_log st0 (take k (zw_log w')))" if kk: "length (zw_log w) \<le> k" "k \<le> length (zw_log w')" for k
    proof -
      have "k = length (zw_log w) \<or> k = length (zw_log w')" using kk l by auto
      then show ?thesis using assms [OF p] s' by (elim disjE) (simp_all add: l)
    qed
    ultimately show ?thesis using assms [OF p] s' by simp
  qed
  then show "(\<exists>xs. zw_log w' = zw_log w @ xs) \<and> (follows env st0 (zw_log w') \<and> P (after_log st0 (zw_log w)) \<longrightarrow>
      (\<forall>k. length (zw_log w) \<le> k \<and> k \<le> length (zw_log w') \<longrightarrow> C (after_log st0 (take k (zw_log w')))) \<and>
      Q r (after_log st0 (zw_log w')))"
    using l by blast
qed

lemma through_pure:
  assumes "\<And>w. zw_log (snd (m w)) = zw_log w" and "\<And>s. P s \<Longrightarrow> C s" and "\<And>w s. P s \<Longrightarrow> Q (fst (m w)) s"
  shows "through env st0 C P m Q"
  unfolding through_def
proof (intro allI impI)
  fix w r w'
  assume "m w = (r, w')"
  then have "zw_log w' = zw_log w" and "r = fst (m w)" using assms(1) [of w] by simp_all
  then show "(\<exists>xs. zw_log w' = zw_log w @ xs) \<and> (follows env st0 (zw_log w') \<and> P (after_log st0 (zw_log w)) \<longrightarrow>
      (\<forall>k. length (zw_log w) \<le> k \<and> k \<le> length (zw_log w') \<longrightarrow> C (after_log st0 (take k (zw_log w')))) \<and>
      Q r (after_log st0 (zw_log w')))"
    using assms(2,3) by auto
qed

lemma through_if:
  "(b \<Longrightarrow> through env st0 C P m Q) \<Longrightarrow> (\<not> b \<Longrightarrow> through env st0 C P n Q) \<Longrightarrow> through env st0 C P (if b then m else n) Q"
  by simp

lemma through_cong: "through env st0 C P m Q \<Longrightarrow> (\<And>w. m w = m' w) \<Longrightarrow> through env st0 C P m' Q"
  by (simp add: through_def)

subsection \<open>The single commands\<close>

lemma through_list:
  assumes cfg: "plain_cfg c ds" and PC: "\<And>s. P s \<Longrightarrow> C s" and Q: "\<And>s. P s \<Longrightarrow> store_ok s \<and> Q (Inr (map (as_zsnap c) (service_snaps c ds s))) s"
  shows "through env st0 C P (list_snaps env c ds) Q"
proof -
  have "through env st0 C P (zfs_run env (list_args ds)) (\<lambda>r s. P s \<and> r = Inr (trim_space (list_text s ds)))"
    by (rule through_run) (use PC in \<open>simp add: zfs_answer_def list_args_def\<close>)
  then have "through env st0 C P (ztry (zfs_run env (list_args ds)) (\<lambda>out. zret (Inr (parse_snaps (zc_prefix c) out)))) Q"
  proof (rule through_try)
    fix out
    show "through env st0 C (\<lambda>s. P s \<and> Inr out = Inr (trim_space (list_text s ds))) (zret (Inr (parse_snaps (zc_prefix c) out))) Q"
      by (rule through_ret) (use PC Q cfg parse_listing [of _ c ds] in \<open>auto simp: plain_cfg_def\<close>)
  qed simp
  then show ?thesis by (simp add: list_snaps_def list_args_def)
qed

lemma through_rename:
  assumes cfg: "plain_cfg c ds" and b: "plain_name b" and P: "\<And>s. P s \<Longrightarrow> C s \<and> store_ok s"
    and moved: "\<And>s s'. P s \<Longrightarrow> slots c ds s a \<noteq> None \<Longrightarrow> slots c ds s b = None \<Longrightarrow>
      moved c ds s ((slots c ds s)(a := None, b := slots c ds s a)) s' \<Longrightarrow> C s' \<and> Q (Inr ()) s'"
    and failed: "\<And>s e. P s \<Longrightarrow> Q (Inl e) s"
  shows "through env st0 C P (rename_slot env c ds a b) Q"
proof -
  have n: "\<not> zc_recursive c" using cfg by (simp add: plain_cfg_def)
  let ?t = "\<lambda>s. rename_snap (snap_name c ds a) (snap_name c ds b) s"
  have ans: "zfs_answer [''rename'', snap_name c ds a, snap_name c ds b] s =
      (if slots c ds s a \<noteq> None \<and> slots c ds s b = None then (([], True), ?t s) else (([], False), s))" for s
    by (simp add: zfs_answer_def slots_none)
  have eff: "C (?t s) \<and> Q (Inr ()) (?t s)" if "P s" "slots c ds s a \<noteq> None" "slots c ds s b = None" for s
    by (rule moved [OF that]) (use rename_effect [of s ds c b a] P [OF that(1)] that b cfg in \<open>simp add: plain_cfg_def moved_def\<close>)
  have "through env st0 C P (zfs_run env [''rename'', snap_name c ds a, snap_name c ds b])
      (\<lambda>r s. C s \<and> (case r of Inl e \<Rightarrow> Q (Inl e) s | Inr x \<Rightarrow> Q (Inr ()) s))"
    by (rule through_run) (use P eff failed in \<open>auto simp: ans\<close>)
  then have "through env st0 C P (ztry (zfs_run env [''rename'', snap_name c ds a, snap_name c ds b]) (\<lambda>_. zret (Inr ()))) Q"
    by (rule through_try) (auto intro: through_ret)
  then show ?thesis using n by (simp add: rename_slot_def)
qed

lemma through_destroy:
  assumes cfg: "plain_cfg c ds" and P: "\<And>s. P s \<Longrightarrow> C s \<and> store_ok s"
    and moved: "\<And>s s' r. P s \<Longrightarrow> moved c ds s ((slots c ds s)(a := None)) s' \<Longrightarrow> C s' \<and> Q r s'"
  shows "through env st0 C P (destroy_snap env c (snap_name c ds a)) Q"
proof -
  have n: "\<not> zc_recursive c" using cfg by (simp add: plain_cfg_def)
  have m: "moved c ds s ((slots c ds s)(a := None)) (snd (zfs_answer [''destroy'', snap_name c ds a] s))" if "P s" for s
  proof (cases "slots c ds s a = None")
    case True
    then have "(slots c ds s)(a := None) = slots c ds s" by auto
    then show ?thesis using True P [OF that] by (simp add: destroy_answer moved_refl)
  next
    case False
    then show ?thesis using destroy_effect [of s c ds a] P [OF that] by (auto simp: destroy_answer moved_def)
  qed
  have "through env st0 C P (zfs_run env [''destroy'', snap_name c ds a]) Q"
    by (rule through_run) (use P m moved in blast)
  then show ?thesis using n by (simp add: destroy_snap_def)
qed

lemma through_absurd: "ensures env st0 m (\<lambda>s r s'. True) \<Longrightarrow> (\<And>s. \<not> P s) \<Longrightarrow> through env st0 C P m Q"
  by (auto simp: through_def ensures_def)

lemma through_at: "(\<And>k. through env st0 C P (g k) Q) \<Longrightarrow> through env st0 C P (\<lambda>w. g (h w) w) Q"
  unfolding through_def by blast

lemma through_get: "(\<And>s. P s \<Longrightarrow> C s) \<Longrightarrow> through env st0 C P (zfs_get env p t) (\<lambda>_ s. P s)"
  unfolding zfs_get_def
  by (rule through_seq [OF through_run [where Q = "\<lambda>_ s. P s"]]) (auto simp: zfs_answer_def intro: through_ret)

lemma through_zdestroy:
  assumes "plain_cfg c ds" and "\<And>s. P s \<Longrightarrow> C s \<and> store_ok s"
    and "\<And>s s' r. P s \<Longrightarrow> moved c ds s ((slots c ds s)(a := None)) s' \<Longrightarrow> C s' \<and> Q r s'"
  shows "through env st0 C P (zdestroy env c (snap_name c ds a)) Q"
  unfolding zdestroy_def
  by (rule through_try [OF through_destroy [OF assms(1,2), where a = a and Q = "\<lambda>_ s. C s \<and> (\<forall>r. Q r s)"]])
    (use assms(3) in \<open>auto intro: through_ret\<close>)

lemma any_destroy_all: "ensures env st0 (destroy_all env c zs) (\<lambda>s r s'. True)"
proof (induction zs)
  case Nil
  then show ?case by (simp add: ensures_def zret_def)
next
  case (Cons z zs)
  have "ensures env st0 (destroy_snap env c (zs_full z)) (\<lambda>s r s'. True)"
    unfolding destroy_snap_def by (rule ensures_weaken [OF ensures_run]) simp
  from ensures_seq [OF this Cons] show ?case by (rule ensures_cong [OF ensures_weaken]) simp_all
qed

subsection \<open>One dataset\<close>

definition fresh :: "zcfg \<Rightarrow> string \<Rightarrow> nat \<times> nat \<Rightarrow> zstore \<Rightarrow> bool" where
  "fresh c ds x s \<longleftrightarrow> store_ok s \<and> slots c ds s ''new'' = Some x"

definition settled :: "zcfg \<Rightarrow> string \<Rightarrow> nat \<times> nat \<Rightarrow> zstore \<Rightarrow> bool" where
  "settled c ds x s \<longleftrightarrow> store_ok s \<and> slots c ds s ''new'' = None \<and> slots c ds s ''n0'' = Some x"

text \<open>The states on the way, with all that is not of this service on this dataset as it was.\<close>

definition on_the_way :: "zcfg \<Rightarrow> string \<Rightarrow> nat \<times> nat \<Rightarrow> snapshot list \<Rightarrow> zstore \<Rightarrow> bool" where
  "on_the_way c ds x F s \<longleftrightarrow> others c ds s = F \<and> (fresh c ds x s \<or> settled c ds x s)"

definition fresh_in :: "zcfg \<Rightarrow> string \<Rightarrow> nat \<times> nat \<Rightarrow> snapshot list \<Rightarrow> zstore \<Rightarrow> bool" where
  "fresh_in c ds x F s \<longleftrightarrow> others c ds s = F \<and> fresh c ds x s"

definition settled_in :: "zcfg \<Rightarrow> string \<Rightarrow> nat \<times> nat \<Rightarrow> snapshot list \<Rightarrow> zstore \<Rightarrow> bool" where
  "settled_in c ds x F s \<longleftrightarrow> others c ds s = F \<and> settled c ds x s"

lemmas stage_defs = on_the_way_def fresh_in_def settled_in_def fresh_def settled_def

lemma stage_on_way: "fresh_in c ds x F s \<Longrightarrow> on_the_way c ds x F s \<and> store_ok s" "settled_in c ds x F s \<Longrightarrow> on_the_way c ds x F s \<and> store_ok s"
  by (auto simp: stage_defs)

lemma fresh_step:
  assumes "fresh_in c ds x F s" and "moved c ds s m s'" and "m ''new'' = slots c ds s ''new''"
  shows "on_the_way c ds x F s' \<and> fresh_in c ds x F s'"
  using assms by (simp add: stage_defs moved_def)

lemma settled_step:
  assumes "settled_in c ds x F s" and "moved c ds s m s'" and "m ''new'' = slots c ds s ''new''" and "m ''n0'' = slots c ds s ''n0''"
  shows "on_the_way c ds x F s' \<and> settled_in c ds x F s'"
  using assms by (simp add: stage_defs moved_def)

lemma through_retire:
  assumes cfg: "plain_cfg c ds" and pn: "\<And>t. plain_name (ze_mmdd env t) \<and> plain_name (ze_hh env t)"
  shows "through env st0 (on_the_way c ds x F) (\<lambda>s. fresh_in c ds x F s \<and> l = map (as_zsnap c) (service_snaps c ds s))
    (retire_n1 env c ds keep l) (\<lambda>r. fresh_in c ds x F)"
proof (cases "find_slot l ''n1''")
  case None
  show ?thesis unfolding retire_n1_def None option.case by (rule through_ret) (use stage_on_way in blast)
next
  case (Some z)
  let ?P = "\<lambda>s. fresh_in c ds x F s \<and> l = map (as_zsnap c) (service_snaps c ds s)"
  show ?thesis
  proof (cases "zs_full z = snap_name c ds ''n1''")
    case True
    have ren: "through env st0 (on_the_way c ds x F) ?P (rename_slot env c ds ''n1'' k) (\<lambda>r. fresh_in c ds x F)"
      if "plain_name k" "k \<noteq> ''new''" for k
    proof (rule through_rename [OF cfg that(1)])
      fix s s'
      assume "?P s" and m: "moved c ds s ((slots c ds s)(''n1'' := None, k := slots c ds s ''n1'')) s'"
      then have "fresh_in c ds x F s" by blast
      from fresh_step [OF this m] show "on_the_way c ds x F s' \<and> fresh_in c ds x F s'" using that(2) by simp
    qed (use stage_on_way(1) in blast)+
    have del: "through env st0 (on_the_way c ds x F) ?P (zdestroy env c (zs_full z)) (\<lambda>r. fresh_in c ds x F)"
      unfolding True
    proof (rule through_zdestroy [OF cfg])
      fix s s'
      assume "?P s" and m: "moved c ds s ((slots c ds s)(''n1'' := None)) s'"
      then have "fresh_in c ds x F s" by blast
      from fresh_step [OF this m] show "on_the_way c ds x F s' \<and> fresh_in c ds x F s'" by simp
    qed (use stage_on_way(1) in blast)
    have pk: "plain_name (''kf'' @ ze_mmdd env t)" "plain_name (''kd'' @ ze_mmdd env t)" "plain_name (''kh'' @ ze_mmdd env t @ ze_hh env t)" for t
      using pn by (simp_all add: plain_name_def is_space_def ball_Un)
    show ?thesis
      unfolding retire_n1_def Some option.case Let_def
    proof (rule through_seq [OF through_get])
      show "on_the_way c ds x F s" if "?P s" for s using that stage_on_way(1) by blast
    next
      fix v
      have n: "''kf'' @ d \<noteq> ''new''" "''kd'' @ d \<noteq> ''new''" "''kh'' @ d \<noteq> ''new''" for d by simp_all
      show "through env st0 (on_the_way c ds x F) ?P
        (if frozen_val v \<and> find_slot l (''kf'' @ ze_mmdd env (zs_created z)) = None
         then rename_slot env c ds ''n1'' (''kf'' @ ze_mmdd env (zs_created z))
         else if keep \<and> find_slot l (''kd'' @ ze_mmdd env (zs_created z)) = None
         then rename_slot env c ds ''n1'' (''kd'' @ ze_mmdd env (zs_created z))
         else if keep \<and> find_slot l (''kh'' @ ze_mmdd env (zs_created z) @ ze_hh env (zs_created z)) = None
         then rename_slot env c ds ''n1'' (''kh'' @ ze_mmdd env (zs_created z) @ ze_hh env (zs_created z))
         else zdestroy env c (zs_full z)) (\<lambda>r. fresh_in c ds x F)"
        by (intro through_if ren [OF pk(1) n(1)] ren [OF pk(2) n(2)] ren [OF pk(3) n(3)] del)
    qed
  next
    case False
    have "\<not> (fresh_in c ds x F s \<and> l = map (as_zsnap c) (service_snaps c ds s))" for s
      using slots_listed(2) [of s ds c "''n1''" z] Some False cfg by (auto simp: stage_defs plain_cfg_def)
    moreover have "ensures env st0 (retire_n1 env c ds keep l) (\<lambda>s r s'. True)"
      by (rule ensures_weaken [OF ensures_retire [OF cfg pn]]) simp
    ultimately show ?thesis by (rule through_absurd [rotated])
  qed
qed

lemma through_destroy_all:
  assumes cfg: "plain_cfg c ds" and zs: "\<forall>z \<in> set zs. zs_full z = snap_name c ds (zs_slot z) \<and> zs_slot z \<noteq> ''new'' \<and> zs_slot z \<noteq> ''n0''"
  shows "through env st0 (on_the_way c ds x F) (settled_in c ds x F) (destroy_all env c zs) (\<lambda>_. settled_in c ds x F)"
  using zs
proof (induction zs)
  case Nil
  have "through env st0 (on_the_way c ds x F) (settled_in c ds x F) (zret ()) (\<lambda>_. settled_in c ds x F)"
    by (rule through_ret) (use stage_on_way(2) in blast)
  then show ?case by (rule through_cong) simp
next
  case (Cons z zs)
  have z: "zs_full z = snap_name c ds (zs_slot z)" "zs_slot z \<noteq> ''new''" "zs_slot z \<noteq> ''n0''" using Cons.prems by simp_all
  have "through env st0 (on_the_way c ds x F) (settled_in c ds x F) (destroy_snap env c (zs_full z)) (\<lambda>_. settled_in c ds x F)"
    unfolding z(1)
  proof (rule through_destroy [OF cfg])
    fix s s'
    assume "settled_in c ds x F s" and m: "moved c ds s ((slots c ds s)(zs_slot z := None)) s'"
    from settled_step [OF this] show "on_the_way c ds x F s' \<and> settled_in c ds x F s'" using z by simp
  qed (rule stage_on_way(2))
  then have "through env st0 (on_the_way c ds x F) (settled_in c ds x F) (zseq (destroy_snap env c (zs_full z)) (\<lambda>_. destroy_all env c zs)) (\<lambda>_. settled_in c ds x F)"
    by (rule through_seq) (use Cons in simp)
  then show ?case by (rule through_cong) simp
qed

lemma expired_slot: "expired c now z \<Longrightarrow> zs_slot z \<noteq> ''new'' \<and> zs_slot z \<noteq> ''n0''"
  by (auto simp: expired_def has_prefix_two)

lemma through_prune:
  assumes cfg: "plain_cfg c ds"
  shows "through env st0 (on_the_way c ds x F) (settled_in c ds x F) (prune env c ds) (\<lambda>_. settled_in c ds x F)"
proof -
  let ?P = "\<lambda>r s. settled_in c ds x F s \<and> r = Inr (map (as_zsnap c) (service_snaps c ds s))"
  have list: "through env st0 (on_the_way c ds x F) (settled_in c ds x F) (list_snaps env c ds) ?P"
    by (rule through_list [OF cfg]) (use stage_on_way(2) in blast)+
  have "through env st0 (on_the_way c ds x F) (?P r)
    (\<lambda>w. case r of Inl e \<Rightarrow> zret () w | Inr l \<Rightarrow> destroy_all env c (filter (expired c (ze_now env (length (zw_log w)))) l) w)
    (\<lambda>_. settled_in c ds x F)" for r :: "zerr + zsnap list"
  proof (cases r)
    case (Inl e)
    then show ?thesis by (auto simp: through_def zret_def)
  next
    case (Inr l)
    have "through env st0 (on_the_way c ds x F) (?P r) (destroy_all env c (filter (expired c (ze_now env k)) l)) (\<lambda>_. settled_in c ds x F)" for k
    proof (cases "\<forall>z \<in> set l. zs_full z = snap_name c ds (zs_slot z)")
      case True
      then have "\<forall>z \<in> set (filter (expired c (ze_now env k)) l). zs_full z = snap_name c ds (zs_slot z) \<and> zs_slot z \<noteq> ''new'' \<and> zs_slot z \<noteq> ''n0''"
        using expired_slot by fastforce
      from through_destroy_all [OF cfg this] show ?thesis by (rule through_weaken) simp_all
    next
      case False
      have "\<not> ?P r s" for s
        using False listed_full [of s ds _ c] cfg Inr by (auto simp: stage_defs plain_cfg_def)
      then show ?thesis by (intro through_absurd [OF any_destroy_all])
    qed
    from through_at [where g = "\<lambda>k. destroy_all env c (filter (expired c (ze_now env k)) l)" and h = "\<lambda>w. length (zw_log w)", OF this]
    show ?thesis unfolding Inr sum.case .
  qed
  from through_seq [OF list this] show ?thesis unfolding prune_def .
qed

lemma through_rotate:
  assumes cfg: "plain_cfg c ds" and pn: "\<And>t. plain_name (ze_mmdd env t) \<and> plain_name (ze_hh env t)"
  shows "through env st0 (on_the_way c ds x F) (fresh_in c ds x F) (rotate env c ds keep)
    (\<lambda>r s. on_the_way c ds x F s \<and> (\<forall>u. r = Inr u \<longrightarrow> settled_in c ds x F s))" (is "through env st0 ?C ?P _ ?Q")
proof -
  have names: "plain_name ''n0''" "plain_name ''n1''" by (simp_all add: plain_name_def is_space_def)
  let ?clear = "zseq (clear_blocked c) (\<lambda>_. zret (Inr ()))"
  have "through env st0 ?C (settled_in c ds x F) ?clear ?Q"
    by (rule through_seq [OF through_pure [where Q = "\<lambda>_. settled_in c ds x F"] through_ret])
      (use stage_on_way(2) in \<open>simp_all add: clear_blocked_def\<close>)
  then have fin: "through env st0 ?C (settled_in c ds x F) (zseq (prune env c ds) (\<lambda>_. ?clear)) ?Q"
    by (intro through_seq [OF through_prune [OF cfg]])
  have "through env st0 ?C ?P (rename_slot env c ds ''new'' ''n0'') (\<lambda>r s. case r of Inl e \<Rightarrow> fresh_in c ds x F s | Inr u \<Rightarrow> settled_in c ds x F s)"
  proof (rule through_rename [OF cfg names(1)])
    fix s s'
    assume "?P s" and m: "moved c ds s ((slots c ds s)(''new'' := None, ''n0'' := slots c ds s ''new'')) s'"
    then have "settled_in c ds x F s'" by (simp add: stage_defs moved_def)
    then show "?C s' \<and> (case Inr () of Inl e \<Rightarrow> fresh_in c ds x F s' | Inr u \<Rightarrow> settled_in c ds x F s')"
      using stage_on_way(2) by simp
  qed (use stage_on_way(1) in auto)
  then have new: "through env st0 ?C ?P (ztry (rename_slot env c ds ''new'' ''n0'') (\<lambda>_. zseq (prune env c ds) (\<lambda>_. ?clear))) ?Q"
    by (rule through_try) (use fin stage_on_way(1) in auto)
  have "through env st0 ?C ?P (if b then rename_slot env c ds ''n0'' ''n1'' else zret (Inr ())) (\<lambda>_. ?P)" for b
  proof (rule through_if)
    show "through env st0 ?C ?P (rename_slot env c ds ''n0'' ''n1'') (\<lambda>_. ?P)"
    proof (rule through_rename [OF cfg names(2)])
      fix s s'
      assume "?P s" and m: "moved c ds s ((slots c ds s)(''n0'' := None, ''n1'' := slots c ds s ''n0'')) s'"
      from fresh_step [OF this] show "?C s' \<and> ?P s'" by simp
    qed (use stage_on_way(1) in auto)
    show "through env st0 ?C ?P (zret (Inr ())) (\<lambda>_. ?P)" by (rule through_ret) (use stage_on_way(1) in auto)
  qed
  then have up: "through env st0 ?C ?P (ztry (if b then rename_slot env c ds ''n0'' ''n1'' else zret (Inr ())) (\<lambda>_.
      ztry (rename_slot env c ds ''new'' ''n0'') (\<lambda>_. zseq (prune env c ds) (\<lambda>_. ?clear)))) ?Q" for b
    by (rule through_try) (use new stage_on_way(1) in auto)
  have all: "through env st0 ?C (\<lambda>s. ?P s \<and> l = map (as_zsnap c) (service_snaps c ds s))
      (if find_slot l ''new'' = None then zret (Inl NoNewSnapshot) else ztry (retire_n1 env c ds keep l) (\<lambda>_.
        ztry (if find_slot l ''n0'' \<noteq> None then rename_slot env c ds ''n0'' ''n1'' else zret (Inr ())) (\<lambda>_.
        ztry (rename_slot env c ds ''new'' ''n0'') (\<lambda>_. zseq (prune env c ds) (\<lambda>_. ?clear))))) ?Q" for l
  proof (rule through_if)
    show "through env st0 ?C (\<lambda>s. ?P s \<and> l = map (as_zsnap c) (service_snaps c ds s)) (zret (Inl NoNewSnapshot)) ?Q"
      by (rule through_ret) (use stage_on_way(1) in auto)
    show "through env st0 ?C (\<lambda>s. ?P s \<and> l = map (as_zsnap c) (service_snaps c ds s)) (ztry (retire_n1 env c ds keep l) (\<lambda>_.
        ztry (if find_slot l ''n0'' \<noteq> None then rename_slot env c ds ''n0'' ''n1'' else zret (Inr ())) (\<lambda>_.
        ztry (rename_slot env c ds ''new'' ''n0'') (\<lambda>_. zseq (prune env c ds) (\<lambda>_. ?clear))))) ?Q"
      by (rule through_try [OF through_retire [OF cfg pn] up]) (use stage_on_way(1) in auto)
  qed
  have "through env st0 ?C ?P (list_snaps env c ds) (\<lambda>r s. \<exists>l. r = Inr l \<and> ?P s \<and> l = map (as_zsnap c) (service_snaps c ds s))"
    by (rule through_list [OF cfg]) (use stage_on_way(1) in auto)
  then show ?thesis
    unfolding rotate_def
  proof (rule through_try)
    fix l :: "zsnap list"
    show "through env st0 ?C (\<lambda>s. \<exists>l'. Inr l = Inr l' \<and> ?P s \<and> l' = map (as_zsnap c) (service_snaps c ds s))
      (if find_slot l ''new'' = None then zret (Inl NoNewSnapshot) else ztry (retire_n1 env c ds keep l) (\<lambda>_.
        ztry (if find_slot l ''n0'' \<noteq> None then rename_slot env c ds ''n0'' ''n1'' else zret (Inr ())) (\<lambda>_.
        ztry (rename_slot env c ds ''new'' ''n0'') (\<lambda>_. zseq (prune env c ds) (\<lambda>_. ?clear))))) ?Q"
      by (rule through_weaken [OF all]) auto
  qed simp
qed

subsection \<open>Both datasets\<close>

lemma through_mono: "through env st0 C P m Q \<Longrightarrow> (\<And>s. C s \<Longrightarrow> C' s) \<Longrightarrow> through env st0 C' P m Q"
  unfolding through_def by blast

lemma through_point:
  assumes "ensures env st0 m (\<lambda>s r s'. True)" and "\<And>s0. P s0 \<Longrightarrow> through env st0 C (\<lambda>s. s = s0) m Q"
  shows "through env st0 C P m Q"
  using assms unfolding through_def ensures_def by blast

text \<open>The states of a rotation of both sides: the primary first, then the backup.\<close>

definition rotating :: "zcfg \<Rightarrow> nat \<times> nat \<Rightarrow> nat \<times> nat \<Rightarrow> zstore \<Rightarrow> bool" where
  "rotating c x y s \<longleftrightarrow>
     (fresh c (zc_primary c) x s \<and> fresh c (zc_backup c) y s) \<or>
     (settled c (zc_primary c) x s \<and> (fresh c (zc_backup c) y s \<or> settled c (zc_backup c) y s))"

lemma any_rotate:
  assumes "plain_cfg c ds" and "\<And>t. plain_name (ze_mmdd env t) \<and> plain_name (ze_hh env t)"
  shows "ensures env st0 (rotate env c ds keep) (\<lambda>s r s'. True)"
  by (rule ensures_weaken [OF ensures_rotate [OF assms]]) simp

lemma through_rotate_at:
  assumes "plain_cfg c ds" and "\<And>t. plain_name (ze_mmdd env t) \<and> plain_name (ze_hh env t)" and "fresh c ds x s0"
    and "\<And>s. on_the_way c ds x (others c ds s0) s \<Longrightarrow> C s"
    and "\<And>s. settled_in c ds x (others c ds s0) s \<Longrightarrow> Q (Inr ()) s" and "\<And>e s. C s \<Longrightarrow> Q (Inl e) s"
  shows "through env st0 C (\<lambda>s. s = s0) (rotate env c ds keep) Q"
proof (rule through_mono [OF through_weaken [OF through_rotate [OF assms(1,2), where x = x and F = "others c ds s0"]]])
  show "Q r s" if "on_the_way c ds x (others c ds s0) s \<and> (\<forall>u. r = Inr u \<longrightarrow> settled_in c ds x (others c ds s0) s)" for r s
    using that assms(4-6) by (cases r) auto
qed (use assms(3,4) in \<open>auto simp: fresh_in_def\<close>)

lemma through_rotate_both:
  assumes sides: "two_sides c" and pn: "\<And>t. plain_name (ze_mmdd env t) \<and> plain_name (ze_hh env t)"
  shows "through env st0 (rotating c x y) (\<lambda>s. fresh c (zc_primary c) x s \<and> fresh c (zc_backup c) y s) (rotate_both env c)
    (\<lambda>r s. rotating c x y s \<and> (snd r = None \<longrightarrow> settled c (zc_primary c) x s \<and> settled c (zc_backup c) y s))"
proof -
  let ?p = "zc_primary c" and ?b = "zc_backup c"
  have cp: "plain_cfg c ?p" and cb: "plain_cfg c ?b" and ne: "?p \<noteq> ?b" using sides by (simp_all add: two_sides_def)
  have np: "plain_name ?p" and nb: "plain_name ?b" using two_sides_plain [OF sides] by simp_all
  have keepb: "fresh c ?b y s" if "others c ?p s = others c ?p s0" "store_ok s" "fresh c ?b y s0" for s s0
    using others_other [OF that(1) nb np ne [symmetric]] that(2,3) by (simp add: fresh_def)
  have keepp: "settled c ?p x s" if "others c ?b s = others c ?b s0" "store_ok s" "settled c ?p x s0" for s s0
    using others_other [OF that(1) np nb ne] that(2,3) by (simp add: settled_def)
  let ?mid = "\<lambda>r s. case r of Inl (e :: zerr) \<Rightarrow> rotating c x y s | Inr (u :: unit) \<Rightarrow> settled c ?p x s \<and> fresh c ?b y s"
  have first: "through env st0 (rotating c x y) (\<lambda>s. fresh c ?p x s \<and> fresh c ?b y s) (rotate env c ?p (zc_versions c)) ?mid"
  proof (rule through_point [OF any_rotate [OF cp pn]])
    fix s0 assume s0: "fresh c ?p x s0 \<and> fresh c ?b y s0"
    show "through env st0 (rotating c x y) (\<lambda>s. s = s0) (rotate env c ?p (zc_versions c)) ?mid"
    proof (rule through_rotate_at [OF cp pn])
      show "fresh c ?p x s0" using s0 by blast
      fix s
      show "rotating c x y s" if "on_the_way c ?p x (others c ?p s0) s"
        using that keepb [of s s0] s0 by (auto simp: stage_defs rotating_def)
      show "?mid (Inr ()) s" if "settled_in c ?p x (others c ?p s0) s"
        using that keepb [of s s0] s0 by (auto simp: settled_in_def settled_def)
    qed simp
  qed
  let ?post = "\<lambda>r s. rotating c x y s \<and> (\<forall>u :: unit. r = Inr u \<longrightarrow> settled c ?p x s \<and> settled c ?b y s)"
  have second: "through env st0 (rotating c x y) (\<lambda>s. settled c ?p x s \<and> fresh c ?b y s) (rotate env c ?b True) ?post"
  proof (rule through_point [OF any_rotate [OF cb pn]])
    fix s0 assume s0: "settled c ?p x s0 \<and> fresh c ?b y s0"
    have way: "settled c ?p x s" if "on_the_way c ?b y (others c ?b s0) s" for s
      using that keepp [of s s0] s0 by (auto simp: stage_defs)
    show "through env st0 (rotating c x y) (\<lambda>s. s = s0) (rotate env c ?b True) ?post"
    proof (rule through_rotate_at [OF cb pn])
      show "fresh c ?b y s0" using s0 by blast
      fix s
      show "rotating c x y s" if "on_the_way c ?b y (others c ?b s0) s"
        using that way [OF that] by (auto simp: on_the_way_def rotating_def)
      show "?post (Inr ()) s" if "settled_in c ?b y (others c ?b s0) s"
        using that way [of s] stage_on_way(2) [OF that] by (auto simp: settled_in_def rotating_def)
    qed simp
  qed
  show ?thesis
    unfolding rotate_both_def
  proof (rule through_seq [OF first])
    fix r :: "zerr + unit"
    show "through env st0 (rotating c x y) (?mid r)
      (case r of Inl e \<Rightarrow> zret (True, Some e)
       | Inr _ \<Rightarrow> zseq (rotate env c ?b True) (\<lambda>r. zret (True, case r of Inl e \<Rightarrow> Some e | Inr _ \<Rightarrow> None)))
      (\<lambda>r s. rotating c x y s \<and> (snd r = None \<longrightarrow> settled c ?p x s \<and> settled c ?b y s))"
    proof (cases r)
      case (Inl e)
      then show ?thesis by (auto intro!: through_ret)
    next
      case (Inr u)
      show ?thesis
        unfolding Inr sum.case
        by (rule through_seq [OF second], rule through_ret) (auto split: sum.splits)
    qed
  qed
qed

subsection \<open>Recovery of every such state\<close>

lemma rotate_spec_new: "rotate_spec env c frozen keep now m ''n0'' = m ''new''" "rotate_spec env c frozen keep now m ''new'' = None"
  by (simp_all add: rotate_spec_def Let_def prune_spec_def outdated_def retire_spec_keeps split: option.split)

lemma rotated_new: "rotated env c keep m m' \<Longrightarrow> m' ''n0'' = m ''new'' \<and> m' ''new'' = None"
  by (auto simp: rotated_def rotate_spec_new)

lemma recovered:
  assumes "rotating c x y s" and "fst x = fst y" and "recover_spec env c True (pair c s) (p', b')"
  shows "p' ''n0'' = Some x \<and> b' ''n0'' = Some y \<and> p' ''new'' = None \<and> b' ''new'' = None"
proof -
  obtain g t u where xy: "x = (g, t)" "y = (g, u)" using assms(2) by (cases x; cases y) auto
  consider "fresh c (zc_primary c) x s" "fresh c (zc_backup c) y s"
    | "settled c (zc_primary c) x s" "fresh c (zc_backup c) y s"
    | "settled c (zc_primary c) x s" "settled c (zc_backup c) y s"
    using assms(1) unfolding rotating_def by blast
  then show ?thesis
  proof cases
    case 1
    then have "same_guid (slots c (zc_primary c) s ''new'') (slots c (zc_backup c) s ''new'')"
      by (simp add: fresh_def same_guid_def xy)
    then show ?thesis using assms(3) 1 by (auto simp: recover_spec_def fresh_def dest!: rotated_new)
  next
    case 2
    then have "\<not> same_guid (slots c (zc_primary c) s ''new'') (slots c (zc_backup c) s ''new'')"
      and "same_guid (slots c (zc_primary c) s ''n0'') (slots c (zc_backup c) s ''new'')"
      by (simp_all add: fresh_def settled_def same_guid_def xy)
    then show ?thesis using assms(3) 2 by (auto simp: recover_spec_def fresh_def settled_def dest!: rotated_new)
  next
    case 3
    then show ?thesis using assms(3) by (simp add: recover_spec_def settled_def)
  qed
qed

text \<open>
  C24. A cycle that dies while it rotates is completed by the next one. Both datasets hold the new snapshot of one
  transfer, and the process is cut off after any of the commands of the rotation of both; then the recovery
  with which the next cycle starts succeeds and leaves that snapshot as n0 on both sides, the base of the
  next increment, and no new snapshot on either, on any store that answers as \<open>zfs\<close> documents.
\<close>

theorem interrupted_rotation_recovers:
  assumes "two_sides c" and "zc_backup c \<in> set (st_sets st0)"
    and "\<And>t. plain_name (ze_mmdd env t) \<and> plain_name (ze_hh env t)" and "\<And>t. plain_name (ze_mmdd env' t) \<and> plain_name (ze_hh env' t)"
    and "store_ok (after_log st0 (zw_log w))"
    and "slots c (zc_primary c) (after_log st0 (zw_log w)) ''new'' = Some (g, t)"
    and "slots c (zc_backup c) (after_log st0 (zw_log w)) ''new'' = Some (g, u)"
    and "rotate_both env c w = (r, w')" and "follows env st0 (zw_log w')"
    and "length (zw_log w) \<le> k" and "k \<le> length (zw_log w')" and "died = after_log st0 (take k (zw_log w'))"
    and "recover_cycle env' c v = (q, v')" and "zw_log v = []" and "follows env' died (zw_log v')"
    and "final = after_log died (zw_log v')"
  shows "q = Inr () \<and>
    slots c (zc_primary c) final ''n0'' = Some (g, t) \<and> slots c (zc_backup c) final ''n0'' = Some (g, u) \<and>
    slots c (zc_primary c) final ''new'' = None \<and> slots c (zc_backup c) final ''new'' = None"
proof -
  have "fresh c (zc_primary c) (g, t) (after_log st0 (zw_log w)) \<and> fresh c (zc_backup c) (g, u) (after_log st0 (zw_log w))"
    using assms(5-7) by (simp add: fresh_def)
  then have rot: "rotating c (g, t) (g, u) died"
    using through_rotate_both [OF assms(1,3), of st0 "(g, t)" "(g, u)"] assms(8-12) unfolding through_def by blast
  then have "store_ok died" by (auto simp: rotating_def fresh_def settled_def)
  moreover have z: "after_log died (zw_log v) = died" by (simp add: assms(14) after_log_def)
  moreover have "zc_backup c \<in> set (st_sets died)" using assms(2,12) sets_grow by blast
  ultimately have "q = Inr () \<and> recover_spec env' c True (pair c died) (pair c final)"
    using ensures_recover [OF assms(1,4), of died, unfolded ensures_def, rule_format, OF assms(13)] assms(15,16) by simp
  then show ?thesis using recovered [OF rot, of env' "slots c (zc_primary c) final" "slots c (zc_backup c) final"] by simp
qed

text \<open>Both sides hold n0 and new; the process dies when the primary has just renamed n0 to n1.\<close>

definition ex_side :: "string \<Rightarrow> string \<Rightarrow> nat \<Rightarrow> snapshot" where
  "ex_side ds x n = \<lparr>sn_ds = ds, sn_name = ''sync_1_77_'' @ x, sn_guid = n, sn_time = n\<rparr>"

definition ex_sides :: "(string \<times> nat) list \<Rightarrow> (string \<times> nat) list \<Rightarrow> zstore" where
  "ex_sides p b = \<lparr>st_own = (\<lambda>t p. None),
     st_snaps = map (\<lambda>(x, n). ex_side ''tank/a'' x n) p @ map (\<lambda>(x, n). ex_side ''tank/b'' x n) b, st_sets = [''tank/a'', ''tank/b''], st_next = 9, st_clock = (\<lambda>n. n), st_written = ([], True)\<rparr>"

definition ex_sides_start :: zstore where
  "ex_sides_start = ex_sides [(''n0'', 2), (''new'', 3)] [(''n0'', 2), (''new'', 3)]"

definition ex_cut_env :: zenv where
  "ex_cut_env = ex_zenv\<lparr>ze_zfs := (\<lambda>n.
     if n = 0 then (list_text ex_sides_start ''tank/a'', True)
     else if n = 3 then (list_text (ex_sides [(''n1'', 2), (''n0'', 3)] []) ''tank/a'', True)
     else if n = 4 then (list_text ex_sides_start ''tank/b'', True)
     else if n = 7 then (list_text (ex_sides [] [(''n1'', 2), (''n0'', 3)]) ''tank/b'', True) else ([], True))\<rparr>"

definition ex_rec_env :: zenv where
  "ex_rec_env = ex_zenv\<lparr>ze_zfs := (\<lambda>n.
     if n = 0 \<or> n = 3 then (list_text (ex_sides [(''n1'', 2), (''new'', 3)] []) ''tank/a'', True)
     else if n = 1 then (''tank/b'' @ [CHR 0x0A], True)
     else if n = 2 \<or> n = 8 then (list_text ex_sides_start ''tank/b'', True)
     else if n = 4 then (''-'' @ [CHR 0x0A], True)
     else if n = 7 then (list_text (ex_sides [(''kd0101'', 2), (''n0'', 3)] []) ''tank/a'', True)
     else if n = 11 then (list_text (ex_sides [] [(''n1'', 2), (''n0'', 3)]) ''tank/b'', True) else ([], True))\<rparr>"

definition ex_died :: zstore where
  "ex_died = ex_sides [(''n1'', 2), (''new'', 3)] [(''n0'', 2), (''new'', 3)]"

lemma ex_cut_follows: "follows ex_cut_env ex_sides_start (zw_log (snd (rotate_both ex_cut_env ex_zcfg ex_zw)))"
  by (rule follows_answered) code_simp

lemma ex_rec_follows: "follows ex_rec_env ex_died (zw_log (snd (recover_cycle ex_rec_env ex_zcfg ex_zw)))"
  by (rule follows_answered) code_simp

lemma ex_died_at: "after_log ex_sides_start (take 2 (zw_log (snd (rotate_both ex_cut_env ex_zcfg ex_zw)))) = ex_died"
proof -
  have "take 2 (zw_log (snd (rotate_both ex_cut_env ex_zcfg ex_zw))) =
    [Zfs [''list'', ''-H'', ''-p'', ''-t'', ''snapshot'', ''-d'', ''1'', ''-o'', ''name,guid,creation'', ''-s'', ''createtxg'', ''tank/a''],
     Zfs [''rename'', ''tank/a@sync_1_77_n0'', ''tank/a@sync_1_77_n1'']]"
    by code_simp
  moreover have "after_log ex_sides_start
    [Zfs [''list'', ''-H'', ''-p'', ''-t'', ''snapshot'', ''-d'', ''1'', ''-o'', ''name,guid,creation'', ''-s'', ''createtxg'', ''tank/a''],
     Zfs [''rename'', ''tank/a@sync_1_77_n0'', ''tank/a@sync_1_77_n1'']] = ex_died"
    by (auto simp: after_log_def zfs_answer_def ex_sides_start_def ex_died_def ex_sides_def ex_side_def rename_snap_def full_name_def
        has_snap_def fun_eq_iff)
  ultimately show ?thesis by simp
qed

lemma ex_two_sides: "two_sides ex_zcfg"
  by code_simp

lemma ex_plain_stamps: "plain_name (ze_mmdd (ex_zenv\<lparr>ze_zfs := z\<rparr>) t) \<and> plain_name (ze_hh (ex_zenv\<lparr>ze_zfs := z\<rparr>) t)"
  by (simp add: ex_zenv_def plain_name_def is_space_def)

lemma interrupted_rotation_recovers_witness:
  "fst (recover_cycle ex_rec_env ex_zcfg ex_zw) = Inr () \<and>
   slots ex_zcfg ''tank/a'' ex_died ''n0'' = None \<and> slots ex_zcfg ''tank/a'' ex_died ''new'' = Some (3, 3) \<and>
   slots ex_zcfg ''tank/a'' (after_log ex_died (zw_log (snd (recover_cycle ex_rec_env ex_zcfg ex_zw)))) ''n0'' = Some (3, 3) \<and>
   slots ex_zcfg ''tank/b'' (after_log ex_died (zw_log (snd (recover_cycle ex_rec_env ex_zcfg ex_zw)))) ''n0'' = Some (3, 3)"
proof -
  let ?w = "snd (rotate_both ex_cut_env ex_zcfg ex_zw)" and ?v = "snd (recover_cycle ex_rec_env ex_zcfg ex_zw)"
  have sides: "zc_primary ex_zcfg = ''tank/a''" "zc_backup ex_zcfg = ''tank/b''" by code_simp+
  have there: "zc_backup ex_zcfg \<in> set (st_sets ex_sides_start)" by code_simp
  have ok: "store_ok ex_sides_start" by code_simp
  have new: "slots ex_zcfg ''tank/a'' ex_sides_start ''new'' = Some (3, 3)" "slots ex_zcfg ''tank/b'' ex_sides_start ''new'' = Some (3, 3)"
    by code_simp+
  have died: "slots ex_zcfg ''tank/a'' ex_died ''n0'' = None" "slots ex_zcfg ''tank/a'' ex_died ''new'' = Some (3, 3)" by code_simp+
  have empty: "zw_log ex_zw = []" by (simp add: ex_zw_def)
  then have start: "after_log ex_sides_start (zw_log ex_zw) = ex_sides_start" by (simp add: after_log_def)
  have long: "2 \<le> length (zw_log ?w)" by code_simp
  have cut: "plain_name (ze_mmdd ex_cut_env t) \<and> plain_name (ze_hh ex_cut_env t)"
    and rec: "plain_name (ze_mmdd ex_rec_env t) \<and> plain_name (ze_hh ex_rec_env t)" for t
    unfolding ex_cut_env_def ex_rec_env_def by (rule ex_plain_stamps)+
  show ?thesis
    using interrupted_rotation_recovers [of ex_zcfg ex_sides_start ex_cut_env ex_rec_env ex_zw 3 3 3
        "fst (rotate_both ex_cut_env ex_zcfg ex_zw)" ?w 2 ex_died ex_zw "fst (recover_cycle ex_rec_env ex_zcfg ex_zw)" ?v
        "after_log ex_died (zw_log ?v)"]
      ex_two_sides there cut rec ok new start empty long ex_cut_follows ex_rec_follows ex_died_at died
    unfolding sides by simp
qed

lemma recover_refines_witness:
  "slots ex_zcfg ''tank/a'' ex_died ''n0'' = None \<and>
   recover_spec ex_rec_env ex_zcfg True (pair ex_zcfg ex_died)
     (pair ex_zcfg (after_log ex_died (zw_log (snd (recover_cycle ex_rec_env ex_zcfg ex_zw)))))"
proof -
  let ?run = "recover_cycle ex_rec_env ex_zcfg ex_zw"
  have run: "?run = (fst ?run, snd ?run)" by simp
  have start: "after_log ex_died (zw_log ex_zw) = ex_died" by (simp add: after_log_def ex_zw_def)
  have there: "zc_backup ex_zcfg \<in> set (st_sets ex_died)" by code_simp
  have ok: "store_ok ex_died" by code_simp
  have n0: "slots ex_zcfg ''tank/a'' ex_died ''n0'' = None" by code_simp
  have rec: "plain_name (ze_mmdd ex_rec_env t) \<and> plain_name (ze_hh ex_rec_env t)" for t
    unfolding ex_rec_env_def by (rule ex_plain_stamps)
  show ?thesis
    using recover_refines [OF ex_two_sides rec run ex_rec_follows, unfolded start, OF ok] there n0 by simp
qed

end
