(* ===== verification/Pveconf.thy ===== *)
theory Pveconf
  imports Zfs_Store Paths
begin

section \<open>The command \<open>pveconf\<close>: list, show and restore guest configurations\<close>

text \<open>
  The second half of \<open>pveconf.go\<close>. The options are given parsed; what \<open>zfs\<close> answers comes from the
  environment of \<open>Zfs\<close>, and the files below \<open>--to\<close> are a map from paths to contents. Standard output is
  the list of what is printed; what goes to standard error is not modelled, but every exit is.

  The two regular expressions are written out with the choices Go makes: leftmost, then in the order
  of the alternatives, repetitions as long as possible.
\<close>

subsection \<open>Regular expressions and their replacements\<close>

definition re_space :: "char \<Rightarrow> bool" where
  "re_space c \<longleftrightarrow> c \<in> {CHR 0x09, CHR 0x0A, CHR 0x0C, CHR 0x0D, CHR '' ''}"

definition word_char :: "char \<Rightarrow> bool" where
  "word_char c \<longleftrightarrow> is_alpha c \<or> is_digit c \<or> c = CHR ''_''"

text \<open>\<open>Expand\<close>: a name after a dollar stands for the group of that number, and for nothing if there is none.\<close>

definition group_number :: "string \<Rightarrow> nat option" where
  "group_number nm =
     (if list_all is_digit nm \<and> length nm < 10 \<and> \<not> (hd nm = CHR ''0'' \<and> length nm > 1) then Some (digits_val nm) else None)"

definition template_name :: "string \<Rightarrow> (string \<times> string) option" where
  "template_name s =
     (let brace = (s \<noteq> [] \<and> hd s = CHR ''{''); t = (if brace then tl s else s);
          nm = takeWhile word_char t; rest = dropWhile word_char t
      in if nm = [] then None
         else if brace then (if rest \<noteq> [] \<and> hd rest = CHR ''}'' then Some (nm, tl rest) else None)
         else Some (nm, rest))"

lemma template_name_shorter: "template_name s = Some (nm, rest) \<Longrightarrow> length rest \<le> length s"
proof -
  assume a: "template_name s = Some (nm, rest)"
  have 1: "length (dropWhile word_char t) \<le> length t" for t by (rule length_dropWhile_le)
  show ?thesis
    using a 1 [of s] 1 [of "tl s"] by (cases s) (auto simp: template_name_def Let_def split: if_splits)
qed

function expand :: "(nat \<Rightarrow> string) \<Rightarrow> string \<Rightarrow> string" where
  "expand grp [] = []"
| "expand grp (c # s) =
     (if c \<noteq> CHR ''$'' then c # expand grp s
      else if s \<noteq> [] \<and> hd s = CHR ''$'' then CHR ''$'' # expand grp (tl s)
      else case template_name s of
        None \<Rightarrow> CHR ''$'' # expand grp s
      | Some (nm, rest) \<Rightarrow> (case group_number nm of None \<Rightarrow> [] | Some k \<Rightarrow> grp k) @ expand grp rest)"
  by pat_completeness auto
termination
  by (relation "measure (\<lambda>(_, s). length s)") (auto dest: template_name_shorter)

text \<open>
  \<open>(?m)^(\S+:\s*)OLD:\<close> at the start of a line: what the group matches, and what follows the match.
\<close>

definition key_cuts :: "string \<Rightarrow> nat list" where
  "key_cuts s =
     filter (\<lambda>k. 0 < k \<and> s ! k = CHR '':'') (rev [0..<length (takeWhile (\<lambda>c. \<not> re_space c) s)])"

definition group_ends :: "string \<Rightarrow> nat list" where
  "group_ends s =
     concat (map (\<lambda>k. map (\<lambda>j. k + 1 + j) (rev [0..<length (takeWhile re_space (drop (k + 1) s)) + 1])) (key_cuts s))"

definition match_storage :: "string \<Rightarrow> string \<Rightarrow> (string \<times> string) option" where
  "match_storage old s =
     map_option (\<lambda>e. (take e s, drop (e + length old + 1) s)) (find (\<lambda>e. has_prefix (drop e s) (old @ '':'')) (group_ends s))"

lemma match_storage_shorter: "match_storage old s = Some (g, rest) \<Longrightarrow> length rest < length s"
proof -
  assume a: "match_storage old s = Some (g, rest)"
  then obtain e where e: "find (\<lambda>e. has_prefix (drop e s) (old @ '':'')) (group_ends s) = Some e" and r: "rest = drop (e + length old + 1) s"
    unfolding match_storage_def by blast
  have "has_prefix (drop e s) (old @ '':'')" using e by (auto simp: find_Some_iff)
  then have "drop e s \<noteq> []" by (auto simp: has_prefix_def)
  then show ?thesis using r by simp
qed

function replace_storage :: "string \<Rightarrow> string \<Rightarrow> bool \<Rightarrow> string \<Rightarrow> string" where
  "replace_storage old new bol [] = []"
| "replace_storage old new bol (c # s) =
     (case (if bol then match_storage old (c # s) else None) of
        Some (g, rest) \<Rightarrow>
          expand (\<lambda>k. if k = 0 then g @ old @ '':'' else if k = 1 then g else []) (''${1}'' @ new @ '':'') @ replace_storage old new False rest
      | None \<Rightarrow> c # replace_storage old new (c = CHR 0x0A) s)"
  by pat_completeness auto
termination
  by (relation "measure (\<lambda>(_, _, _, s). length s)") (auto dest: match_storage_shorter split: if_splits)

text \<open>The pairs of \<open>--map\<close>, applied one after the other.\<close>

definition map_pair :: "string \<Rightarrow> (string \<times> string) option" where
  "map_pair p =
     (case str_index CHR ''='' (trim_space p) of
        None \<Rightarrow> None
      | Some i \<Rightarrow> if i = 0 then None else Some (take i (trim_space p), drop (i + 1) (trim_space p)))"

definition map_storages :: "string \<Rightarrow> string \<Rightarrow> string" where
  "map_storages m text = fold (\<lambda>(old, new). replace_storage old new True) (List.map_filter map_pair (split_on CHR '','' m)) text"

text \<open>\<open>\b(vm|subvol|base)-ID-(disk|cloudinit)\<close>; the replacement holds two groups and the new id, which is a number.\<close>

definition match_disk :: "string \<Rightarrow> string \<Rightarrow> (string \<times> string \<times> string) option" where
  "match_disk i s =
     (case filter (\<lambda>(t, u). has_prefix s (t @ ''-'' @ i @ ''-'' @ u)) (List.product [''vm'', ''subvol'', ''base''] [''disk'', ''cloudinit'']) of
        [] \<Rightarrow> None
      | (t, u) # _ \<Rightarrow> Some (t, u, drop (length t + length i + length u + 2) s))"

definition boundary :: "char option \<Rightarrow> string \<Rightarrow> bool" where
  "boundary before s \<longleftrightarrow>
     (case before of None \<Rightarrow> False | Some c \<Rightarrow> word_char c) \<noteq> (s \<noteq> [] \<and> word_char (hd s))"

lemma match_disk_shorter: "match_disk i s = Some (t, u, rest) \<Longrightarrow> length rest < length s"
proof -
  assume a: "match_disk i s = Some (t, u, rest)"
  then obtain q where f: "filter (\<lambda>(t, u). has_prefix s (t @ ''-'' @ i @ ''-'' @ u)) (List.product [''vm'', ''subvol'', ''base''] [''disk'', ''cloudinit'']) = (t, u) # q"
    and r: "rest = drop (length t + length i + length u + 2) s"
    unfolding match_disk_def by (auto split: list.splits)
  have "(t, u) \<in> set (filter (\<lambda>(t, u). has_prefix s (t @ ''-'' @ i @ ''-'' @ u)) (List.product [''vm'', ''subvol'', ''base''] [''disk'', ''cloudinit'']))"
    unfolding f by simp
  then have "has_prefix s (t @ ''-'' @ i @ ''-'' @ u)" unfolding set_filter by blast
  then have "s \<noteq> []" by (auto simp: has_prefix_def)
  then show ?thesis using r by simp
qed

function replace_disks :: "string \<Rightarrow> string \<Rightarrow> char option \<Rightarrow> string \<Rightarrow> string" where
  "replace_disks i new before [] = []"
| "replace_disks i new before (c # s) =
     (case (if boundary before (c # s) then match_disk i (c # s) else None) of
        Some (t, u, rest) \<Rightarrow> t @ ''-'' @ new @ ''-'' @ u @ replace_disks i new (Some (last u)) rest
      | None \<Rightarrow> c # replace_disks i new (Some c) s)"
  by pat_completeness auto
termination
  by (relation "measure (\<lambda>(_, _, _, s). length s)") (auto dest: match_disk_shorter split: if_splits)

subsection \<open>The command\<close>

record pve_opts =
  po_sub :: string
  po_dataset :: string
  po_snapshot :: string
  po_recursive :: string
  po_to :: string
  po_map :: string
  po_force :: bool
  po_newid :: string

text \<open>Gzip and base64 undone, whether a file can be written, and what a write that fails leaves, if anything.\<close>

record pve_env =
  pe_unpack :: "string \<Rightarrow> string option"
  pe_write :: "string \<Rightarrow> bool"
  pe_left :: "string \<Rightarrow> string option"

record pve_state =
  pf_files :: "string \<Rightarrow> string option"
  pf_out :: "string list"

definition pve_print :: "string \<Rightarrow> pve_state \<Rightarrow> pve_state" where
  "pve_print l f = f\<lparr>pf_out := pf_out f @ [l]\<rparr>"

text \<open>\<open>resolveSnap\<close>: of the snapshots with that name or slot the last one with a configuration, else the first.\<close>

fun pick_snap :: "zenv \<Rightarrow> string \<Rightarrow> string list \<Rightarrow> string \<Rightarrow> string z" where
  "pick_snap env s [] res w = zret res w"
| "pick_snap env s (n # ns) res w =
     (let at = (case str_index CHR ''@'' n of None \<Rightarrow> n | Some i \<Rightarrow> drop (i + 1) n)
      in if at = s \<or> suffix (''_'' @ s) at then
           (if res = [] then pick_snap env s ns n
            else zseq (zfs_get env (conf_prop 0) n) (\<lambda>v. pick_snap env s ns (if unset v then res else n)))
         else pick_snap env s ns res) w"

definition snap_names :: "zenv \<Rightarrow> string \<Rightarrow> (zerr + string list) z" where
  "snap_names env ds =
     ztry (zfs_run env [''list'', ''-H'', ''-o'', ''name'', ''-t'', ''snapshot'', ''-d'', ''1'', ''-s'', ''createtxg'', ds])
       (\<lambda>out. zret (Inr (str_fields out)))"

definition resolve_snap :: "zenv \<Rightarrow> string \<Rightarrow> string \<Rightarrow> string option z" where
  "resolve_snap env ds s =
     (if CHR ''@'' \<in> set s then zret (Some s)
      else zseq (snap_names env ds) (\<lambda>r. case r of
          Inl e \<Rightarrow> zret None
        | Inr ns \<Rightarrow> zseq (pick_snap env s ns []) (\<lambda>res. zret (if res = [] then None else Some res))))"

definition conf_to_restore :: "pve_opts \<Rightarrow> string \<Rightarrow> string \<Rightarrow> string" where
  "conf_to_restore p i body =
     (let text = map_storages (po_map p) body
      in if po_newid p = [] then text else replace_disks i (po_newid p) None text)"

definition restore_id :: "pve_opts \<Rightarrow> string \<Rightarrow> string" where
  "restore_id p i = (if po_newid p = [] then i else po_newid p)"

definition restore_path :: "pve_opts \<Rightarrow> string \<Rightarrow> string" where
  "restore_path p i = join_path (po_to p) (restore_id p i @ ''.conf'')"

text \<open>One configuration is written; \<open>Some\<close> is the exit code of a run that ends there.\<close>

definition restore_conf :: "pve_env \<Rightarrow> pve_opts \<Rightarrow> string \<Rightarrow> string \<Rightarrow> string \<Rightarrow> pve_state \<Rightarrow> nat option \<times> pve_state" where
  "restore_conf pe p target i body f =
     (let out = restore_path p i
      in if po_newid p \<noteq> [] \<and> \<not> list_all is_digit (po_newid p) then (Some 1, f)
         else if pf_files f out \<noteq> None \<and> \<not> po_force p then (Some 1, f)
         else if \<not> pe_write pe out then
           (Some 1, case pe_left pe out of None \<Rightarrow> f | Some t \<Rightarrow> f\<lparr>pf_files := (pf_files f)(out := Some t)\<rparr>)
         else (None, pve_print (''written '' @ out @ '' (from '' @ target @ '')'' @ [CHR 0x0A])
                (f\<lparr>pf_files := (pf_files f)(out := Some (conf_to_restore p i body))\<rparr>)))"

fun list_carriers :: "zenv \<Rightarrow> string list \<Rightarrow> pve_state \<Rightarrow> pve_state z" where
  "list_carriers env [] f w = zret f w"
| "list_carriers env (s # ss) f w =
     zseq (zfs_get env (conf_prop 0) s) (\<lambda>v.
       list_carriers env ss (if unset v then f else pve_print ([CHR 0x09] @ s @ [CHR 0x0A]) f)) w"

definition list_conf :: "zenv \<Rightarrow> string \<Rightarrow> string \<Rightarrow> string \<Rightarrow> string \<Rightarrow> string \<Rightarrow> pve_state \<Rightarrow> pve_state z" where
  "list_conf env n target kind i body f =
     (let f' = pve_print (target @ [CHR 0x09] @ ''id='' @ i @ [CHR 0x09] @ kind @ [CHR 0x09] @ nat_str (length body) @ '' bytes'' @ [CHR 0x0A]) f
      in zseq (snap_names env n) (\<lambda>r. case r of Inl e \<Rightarrow> zret f' | Inr ss \<Rightarrow> list_carriers env ss f'))"

definition show_conf :: "string \<Rightarrow> string \<Rightarrow> string \<Rightarrow> string \<Rightarrow> pve_state \<Rightarrow> pve_state" where
  "show_conf target kind i body f =
     pve_print (''# '' @ target @ '' (id '' @ i @ '', '' @ kind @ '')'' @ [CHR 0x0A] @ body) f"

definition use_conf :: "zenv \<Rightarrow> pve_env \<Rightarrow> pve_opts \<Rightarrow> string \<Rightarrow> string \<Rightarrow> string \<times> string \<times> string \<Rightarrow> pve_state \<Rightarrow> (nat option \<times> pve_state) z" where
  "use_conf env pe p n target c f =
     (case c of (kind, i, body) \<Rightarrow>
        if po_sub p = ''list'' then zseq (list_conf env n target kind i body f) (\<lambda>f'. zret (None, f'))
        else if po_sub p = ''show'' then zret (None, show_conf target kind i body f)
        else zret (restore_conf pe p target i body f))"

fun pve_loop :: "zenv \<Rightarrow> pve_env \<Rightarrow> pve_opts \<Rightarrow> string list \<Rightarrow> nat \<Rightarrow> pve_state \<Rightarrow> (nat option \<times> pve_state) z" where
  "pve_loop env pe p [] found f w = zret (if found = 0 then Some 1 else None, f) w"
| "pve_loop env pe p (n # ns) found f w =
     zseq (if po_snapshot p = [] then zret (Some n) else resolve_snap env n (po_snapshot p)) (\<lambda>t. case t of
         None \<Rightarrow> pve_loop env pe p ns found f
       | Some target \<Rightarrow>
           zseq (get_conf_prop env target) (\<lambda>enc.
             if enc = [] then pve_loop env pe p ns found f
             else case decode_conf (pe_unpack pe) enc of
               None \<Rightarrow> zret (Some 1, f)
             | Some c \<Rightarrow> zseq (use_conf env pe p n target c f) (\<lambda>(x, f').
                   case x of Some e \<Rightarrow> zret (Some e, f') | None \<Rightarrow> pve_loop env pe p ns (found + 1) f'))) w"

definition pveconf_cmd :: "zenv \<Rightarrow> pve_env \<Rightarrow> pve_opts \<Rightarrow> pve_state \<Rightarrow> (nat option \<times> pve_state) z" where
  "pveconf_cmd env pe p f =
     (if po_dataset p = [] \<or> po_sub p \<notin> {''list'', ''show'', ''restore''} then zret (Some 2, f)
      else if po_recursive p = ''y'' \<or> po_sub p = ''list'' then
        zseq (zfs_run env [''list'', ''-r'', ''-H'', ''-o'', ''name'', ''-t'', ''filesystem,volume'', po_dataset p]) (\<lambda>r. case r of
            Inl e \<Rightarrow> zret (Some 1, f)
          | Inr out \<Rightarrow> pve_loop env pe p (str_fields out) 0 f)
      else pve_loop env pe p [po_dataset p] 0 f)"

end
