(* ===== verification/Pveconf_Correct.thy ===== *)
theory Pveconf_Correct
  imports Pveconf
begin

section \<open>What \<open>pveconf\<close> does and does not touch\<close>

text \<open>
  Whatever \<open>zfs\<close> answers, the command only reads datasets and, without \<open>--force\<close>, only makes new files. On
  the store of \<open>Zfs_Store\<close> it gives back what was stored. The storage names of a configuration are
  replaced line by line.
\<close>

subsection \<open>Files and commands\<close>

definition reading :: "zcmd \<Rightarrow> bool" where
  "reading cmd \<longleftrightarrow> (case cmd of Zfs args \<Rightarrow> args \<noteq> [] \<and> hd args \<in> {''list'', ''get''} | _ \<Rightarrow> False)"

text \<open>A step that only reads and whose result has a property.\<close>

definition reads :: "'a z \<Rightarrow> ('a \<Rightarrow> bool) \<Rightarrow> bool" where
  "reads m Q \<longleftrightarrow> (\<forall>w r w'. m w = (r, w') \<longrightarrow> Q r \<and> (\<exists>xs. zw_log w' = zw_log w @ xs \<and> (\<forall>x \<in> set xs. reading x)))"

named_theorems reads_intros \<open>steps that only read\<close>

lemma reads_ret: "Q x \<Longrightarrow> reads (zret x) Q"
  by (simp add: reads_def zret_def)

lemma reads_seq:
  assumes "reads m (\<lambda>_. True)" and "\<And>x. reads (f x) Q"
  shows "reads (zseq m f) Q"
  unfolding reads_def
proof (intro allI impI)
  fix w r w'
  assume run: "zseq m f w = (r, w')"
  obtain x w1 where m: "m w = (x, w1)" by force
  then have f: "f x w1 = (r, w')" using run by (simp add: zseq_def)
  obtain xs where xs: "zw_log w1 = zw_log w @ xs" "\<forall>x \<in> set xs. reading x" using assms(1) m unfolding reads_def by blast
  obtain ys where ys: "Q r" "zw_log w' = zw_log w1 @ ys" "\<forall>x \<in> set ys. reading x" using assms(2) f unfolding reads_def by blast
  show "Q r \<and> (\<exists>xs. zw_log w' = zw_log w @ xs \<and> (\<forall>x \<in> set xs. reading x))"
    using xs ys by (auto intro!: exI [of _ "xs @ ys"])
qed

lemma reads_seq_with:
  assumes "reads m P" and "\<And>x. P x \<Longrightarrow> reads (f x) Q"
  shows "reads (zseq m f) Q"
  unfolding reads_def
proof (intro allI impI)
  fix w r w'
  assume run: "zseq m f w = (r, w')"
  obtain x w1 where m: "m w = (x, w1)" by force
  then have f: "f x w1 = (r, w')" using run by (simp add: zseq_def)
  obtain xs where xs: "P x" "zw_log w1 = zw_log w @ xs" "\<forall>x \<in> set xs. reading x" using assms(1) m unfolding reads_def by blast
  obtain ys where ys: "Q r" "zw_log w' = zw_log w1 @ ys" "\<forall>x \<in> set ys. reading x" using assms(2) [OF xs(1)] f unfolding reads_def by blast
  show "Q r \<and> (\<exists>xs. zw_log w' = zw_log w @ xs \<and> (\<forall>x \<in> set xs. reading x))"
    using xs ys by (auto intro!: exI [of _ "xs @ ys"])
qed

lemma reads_weaken: "reads m P \<Longrightarrow> (\<And>x. P x \<Longrightarrow> Q x) \<Longrightarrow> reads m Q"
  by (auto simp: reads_def)

lemma reads_cong: "reads m Q \<Longrightarrow> (\<And>w. m w = m' w) \<Longrightarrow> reads m' Q"
  by (simp add: reads_def)

lemma reads_run: "args \<noteq> [] \<Longrightarrow> hd args \<in> {''list'', ''get''} \<Longrightarrow> reads (zfs_run env args) (\<lambda>_. True)"
  by (auto simp: reads_def zfs_run_def issue_def reading_def split: prod.splits)

lemma reads_get: "reads (zfs_get env q t) (\<lambda>_. True)"
  unfolding zfs_get_def by (intro reads_seq reads_run reads_ret) simp_all

lemma reads_conf_from: "reads (get_conf_from env t n i) (\<lambda>_. True)"
proof (induction n arbitrary: i)
  case 0
  show ?case by (rule reads_cong [OF reads_ret [of _ "[]"]]) simp_all
next
  case (Suc n)
  show ?case
    by (rule reads_cong [OF reads_seq [OF reads_get, where f = "\<lambda>v. if unset v then zret [] else zseq (get_conf_from env t n (i + 1)) (\<lambda>r. zret (v @ r))"]])
      (auto intro: reads_ret reads_seq Suc)
qed

lemma reads_snap_names: "reads (snap_names env ds) (\<lambda>_. True)"
  unfolding snap_names_def ztry_def
  by (intro reads_seq reads_run) (auto intro: reads_ret split: sum.split)

lemma reads_pick: "reads (pick_snap env s ns res) (\<lambda>_. True)"
proof (induction ns arbitrary: res)
  case Nil
  show ?case by (rule reads_cong [OF reads_ret [of _ res]]) simp_all
next
  case (Cons n ns)
  let ?at = "case str_index CHR ''@'' n of None \<Rightarrow> n | Some i \<Rightarrow> drop (i + 1) n"
  have "reads (if ?at = s \<or> suffix (''_'' @ s) ?at then
           (if res = [] then pick_snap env s ns n
            else zseq (zfs_get env (conf_prop 0) n) (\<lambda>v. pick_snap env s ns (if unset v then res else n)))
         else pick_snap env s ns res) (\<lambda>_. True)"
    using Cons by (auto intro!: reads_seq reads_get)
  then show ?case by (rule reads_cong) (simp add: Let_def)
qed

lemma reads_resolve: "reads (resolve_snap env ds s) (\<lambda>_. True)"
  unfolding resolve_snap_def
  by (auto intro!: reads_seq reads_snap_names reads_pick reads_ret split: sum.split)

lemma reads_carriers: "reads (list_carriers env ss f) (\<lambda>f'. pf_files f' = pf_files f)"
proof (induction ss arbitrary: f)
  case Nil
  show ?case by (rule reads_cong [OF reads_ret [of _ f]]) simp_all
next
  case (Cons s ss)
  have "reads (list_carriers env ss (if unset v then f else pve_print ([CHR 0x09] @ s @ [CHR 0x0A]) f)) (\<lambda>f'. pf_files f' = pf_files f)" for v
    by (rule reads_weaken [OF Cons]) (simp add: pve_print_def)
  from reads_seq [OF reads_get this] show ?case by (rule reads_cong) simp
qed

text \<open>What a run may have done to the files.\<close>

definition only_new :: "pve_opts \<Rightarrow> pve_state \<Rightarrow> pve_state \<Rightarrow> bool" where
  "only_new p f f' \<longleftrightarrow>
     (\<forall>q. pf_files f' q \<noteq> pf_files f q \<longrightarrow>
        po_sub p = ''restore'' \<and> (po_force p \<or> pf_files f q = None) \<and>
        (\<exists>i. q = restore_path p i) \<and> list_all is_digit (po_newid p))"

lemma only_new_same: "pf_files f' = pf_files f \<Longrightarrow> only_new p f f'"
  by (simp add: only_new_def)

lemma only_new_trans: "only_new p f f1 \<Longrightarrow> only_new p f1 f2 \<Longrightarrow> only_new p f f2"
  unfolding only_new_def by metis

lemma restore_only_new: "po_sub p = ''restore'' \<Longrightarrow> restore_conf pe p t i body f = (x, f') \<Longrightarrow> only_new p f f'"
  by (auto simp: restore_conf_def Let_def only_new_def pve_print_def split: if_splits option.splits)

lemma reads_list_conf: "reads (list_conf env n t kind i body f) (\<lambda>f'. pf_files f' = pf_files f)"
proof -
  have "reads (case r of Inl e \<Rightarrow> zret (pve_print l f) | Inr ss \<Rightarrow> list_carriers env ss (pve_print l f)) (\<lambda>f'. pf_files f' = pf_files f)" for r :: "zerr + string list" and l
    by (cases r) (auto intro!: reads_ret reads_weaken [OF reads_carriers] simp: pve_print_def)
  then show ?thesis unfolding list_conf_def Let_def by (rule reads_seq [OF reads_snap_names])
qed

lemma reads_use:
  assumes "po_sub p \<in> {''list'', ''show'', ''restore''}"
  shows "reads (use_conf env pe p n t c f) (\<lambda>(x, f'). only_new p f f')"
proof -
  obtain kind i body where c: "c = (kind, i, body)" by (cases c) auto
  have "only_new p f (snd (restore_conf pe p t i body f))" if "po_sub p = ''restore''"
    using restore_only_new [OF that, of pe t i body f] by (metis prod.collapse)
  moreover have "reads (zseq (list_conf env n t kind i body f) (\<lambda>f'. zret (None, f'))) (\<lambda>(x, f'). only_new p f f')"
    by (rule reads_seq_with [OF reads_list_conf]) (simp add: reads_ret only_new_same)
  ultimately show ?thesis
    using assms by (auto simp: use_conf_def c show_conf_def pve_print_def only_new_same intro!: reads_ret split: prod.split)
qed

lemma reads_loop:
  assumes "po_sub p \<in> {''list'', ''show'', ''restore''}"
  shows "reads (pve_loop env pe p ns found f) (\<lambda>(x, f'). only_new p f f')"
proof (induction ns arbitrary: found f)
  case Nil
  show ?case by (rule reads_cong [OF reads_ret [of _ "(if found = 0 then Some 1 else None, f)"]]) (simp_all add: only_new_same)
next
  case (Cons n ns)
  let ?K = "\<lambda>target enc. if enc = [] then pve_loop env pe p ns found f
             else case decode_conf (pe_unpack pe) enc of
               None \<Rightarrow> zret (Some 1, f)
             | Some c \<Rightarrow> zseq (use_conf env pe p n target c f) (\<lambda>(x, f').
                   case x of Some e \<Rightarrow> zret (Some e, f') | None \<Rightarrow> pve_loop env pe p ns (found + 1) f')"
  let ?J = "\<lambda>t. case t of None \<Rightarrow> pve_loop env pe p ns found f | Some target \<Rightarrow> zseq (get_conf_prop env target) (?K target)"
  have "reads (zseq (use_conf env pe p n target c f) (\<lambda>(x, f').
                   case x of Some e \<Rightarrow> zret (Some e, f') | None \<Rightarrow> pve_loop env pe p ns (found + 1) f')) (\<lambda>(x, f'). only_new p f f')" for target c
    by (rule reads_seq_with [OF reads_use [OF assms]])
      (auto intro!: reads_ret reads_weaken [OF Cons] intro: only_new_trans split: option.split prod.splits)
  then have "reads (?K target enc) (\<lambda>(x, f'). only_new p f f')" for target enc
    using Cons by (auto intro!: reads_ret simp: only_new_same split: option.split)
  then have "reads (?J t) (\<lambda>(x, f'). only_new p f f')" for t
    using Cons by (auto intro!: reads_seq [OF reads_conf_from] simp: get_conf_prop_def split: option.split)
  then have "reads (zseq (if po_snapshot p = [] then zret (Some n) else resolve_snap env n (po_snapshot p)) ?J) (\<lambda>(x, f'). only_new p f f')"
    by (intro reads_seq) (auto intro: reads_ret reads_resolve)
  then show ?case by (rule reads_cong) simp
qed

text \<open>
  C26. \<open>pveconf\<close> harms nothing. Whatever \<open>zfs\<close> answers and whatever writes fail, the command changes no
  dataset (it only issues \<open>zfs list\<close> and \<open>zfs get\<close>); \<open>list\<close> and \<open>show\<close> change no file; and \<open>restore\<close> changes
  a file only at a place \<open>--to\<close>/id.conf, never one that exists unless \<open>--force\<close> is given, and none at all if
  \<open>--newid\<close> is not a number.
\<close>

theorem pveconf_only_adds:
  assumes "pveconf_cmd env pe p f w = ((x, f'), w')"
  shows "(\<exists>xs. zw_log w' = zw_log w @ xs \<and> (\<forall>c \<in> set xs. reading c)) \<and>
     (\<forall>q. pf_files f' q \<noteq> pf_files f q \<longrightarrow>
        po_sub p = ''restore'' \<and> (po_force p \<or> pf_files f q = None) \<and>
        (\<exists>i. q = restore_path p i) \<and> list_all is_digit (po_newid p))"
proof -
  have "reads (pveconf_cmd env pe p f) (\<lambda>(x, f'). only_new p f f')"
  proof (cases "po_dataset p = [] \<or> po_sub p \<notin> {''list'', ''show'', ''restore''}")
    case True
    then show ?thesis unfolding pveconf_cmd_def by (simp only: if_True) (simp add: reads_ret only_new_same)
  next
    case False
    then have "po_sub p \<in> {''list'', ''show'', ''restore''}" by blast
    from reads_loop [OF this] have l: "reads (pve_loop env pe p ns k f) (\<lambda>(x, f'). only_new p f f')" for ns k .
    show ?thesis
      unfolding pveconf_cmd_def if_not_P [OF False]
      by (auto intro!: l reads_seq reads_run reads_ret simp: only_new_same split: sum.split)
  qed
  then have "only_new p f f' \<and> (\<exists>xs. zw_log w' = zw_log w @ xs \<and> (\<forall>x \<in> set xs. reading x))"
    using assms unfolding reads_def by fastforce
  then show ?thesis unfolding only_new_def by (rule conj_commute [THEN iffD1])
qed

subsection \<open>What was stored is restored\<close>

definition plain_restore :: "pve_opts \<Rightarrow> string \<Rightarrow> bool" where
  "plain_restore p t \<longleftrightarrow>
     po_sub p = ''restore'' \<and> po_dataset p = t \<and> po_snapshot p = [] \<and> po_recursive p \<noteq> ''y'' \<and> po_map p = [] \<and> po_newid p = []"

lemma zseq_assoc: "zseq (zseq m f) g = zseq m (\<lambda>x. zseq (f x) g)"
  by (rule ext) (simp add: zseq_def split: prod.split)

lemma zseq_ret: "zseq (zret x) f = f x"
  by (rule ext) (simp add: zseq_def zret_def)

lemma no_mapping: "map_storages [] text = text"
  by (simp add: map_storages_def split_on_def map_pair_def trim_space_def List.map_filter_simps)

lemma plain_restore_runs:
  assumes "plain_restore p t" and "t \<noteq> []"
  shows "pveconf_cmd env pe p f = zseq (get_conf_prop env t) (\<lambda>enc.
     if enc = [] then zret (Some 1, f)
     else case decode_conf (pe_unpack pe) enc of
         None \<Rightarrow> zret (Some 1, f)
       | Some (kind, i, body) \<Rightarrow> zret (restore_conf pe p t i body f))"
proof -
  have loop: "pve_loop env pe p [t] 0 f = zseq (get_conf_prop env t) (\<lambda>enc.
             if enc = [] then pve_loop env pe p [] 0 f
             else case decode_conf (pe_unpack pe) enc of
               None \<Rightarrow> zret (Some 1, f)
             | Some c \<Rightarrow> zseq (use_conf env pe p t t c f) (\<lambda>(x, f').
                   case x of Some e \<Rightarrow> zret (Some e, f') | None \<Rightarrow> pve_loop env pe p [] (0 + 1) f'))"
    using assms by (intro ext) (simp add: plain_restore_def zseq_ret)
  have nil: "pve_loop env pe p [] 0 f = zret (Some 1, f)" "pve_loop env pe p [] (0 + 1) g = zret (None, g)" for g
    by (rule ext, simp)+
  have k: "zseq (use_conf env pe p t t c f) (\<lambda>(x, f'). case x of Some e \<Rightarrow> zret (Some e, f') | None \<Rightarrow> zret (None, f')) =
      (case c of (kind, i, body) \<Rightarrow> zret (restore_conf pe p t i body f))" for c
    using assms by (cases c; cases "restore_conf pe p t (fst (snd c)) (snd (snd c)) f")
      (auto simp: use_conf_def plain_restore_def zseq_ret split: option.split)
  show ?thesis
    using assms unfolding pveconf_cmd_def plain_restore_def loop nil k by (simp add: loop [unfolded nil k])
qed

text \<open>
  C25. What was stored can be restored. A configuration that \<open>setConfProp\<close> has put on a dataset is
  written back by \<open>cs-sync pveconf restore\<close>, byte for byte and of whatever length, to \<open>--to\<close>/id.conf, the
  run ends without an error, and no other file changes; as long as \<open>zfs\<close> answers as a store of inherited
  properties of less than 8 KB does, nothing above the dataset carries a configuration, and the file
  can be written and is not in the way.
\<close>

theorem stored_conf_restored:
  assumes "codec pack (pe_unpack pe)" and "word kind" and "word i" and "CHR ''@'' \<notin> set t" and "t \<noteq> []"
    and "length (conf_pieces (encode_conf pack kind i body)) < ze_chunks env"
    and "plain_restore p t" and "pf_files f (restore_path p i) = None \<or> po_force p" and "pe_write pe (restore_path p i)"
    and "zseq (set_conf_prop env t (encode_conf pack kind i body)) (\<lambda>_. pveconf_cmd env pe p f) w = ((x, f'), w')"
    and "follows env st0 (zw_log w')" and "clean_above (after_log st0 (zw_log w)) t"
  shows "x = None \<and> pf_files f' = (pf_files f)(restore_path p i := Some body)"
proof -
  let ?e = "encode_conf pack kind i body"
  let ?K = "\<lambda>enc. if enc = [] then zret (Some 1, f)
     else case decode_conf (pe_unpack pe) enc of
         None \<Rightarrow> zret (Some 1, f)
       | Some (kind, i, body) \<Rightarrow> zret (restore_conf pe p t i body f)"
  have any: "ensures env st0 (?K enc) (\<lambda>s r s'. enc = ?e \<longrightarrow> r = restore_conf pe p t i body f)" for enc
  proof (cases "enc = ?e")
    case True
    have "?e \<noteq> []" by (simp add: encode_conf_def)
    then show ?thesis using True decode_encode [OF assms(1-3), of body] by (simp add: ensures_def zret_def)
  next
    case False
    have "ensures env st0 (?K enc) (\<lambda>s r s'. True)"
      by (auto simp: ensures_def zret_def split: option.split prod.split)
    then show ?thesis using False by simp
  qed
  have "ensures env st0 (zseq (zseq (set_conf_prop env t ?e) (\<lambda>_. get_conf_prop env t)) ?K)
      (\<lambda>s r s'. clean_above s t \<longrightarrow> r = restore_conf pe p t i body f)"
    by (rule ensures_weaken [OF ensures_seq [OF conf_set_and_read [OF assms(4) encode_ok [OF assms(1)] assms(6)] any]]) blast
  then have "(x, f') = restore_conf pe p t i body f"
    using assms(10-12) unfolding zseq_assoc plain_restore_runs [OF assms(7,5), symmetric] ensures_def by blast
  moreover have "conf_to_restore p i body = body" "po_newid p = []"
    using assms(7) by (simp_all add: conf_to_restore_def plain_restore_def no_mapping)
  ultimately show ?thesis using assms(8,9) by (auto simp: restore_conf_def Let_def pve_print_def)
qed

subsection \<open>Storage names, line by line\<close>

text \<open>A line of a guest configuration: key, colon, blank and a value, or one whose first word has no colon.\<close>

definition first_word :: "string \<Rightarrow> string" where
  "first_word l = takeWhile (\<lambda>c. \<not> re_space c) l"

definition value_of :: "string \<Rightarrow> string" where
  "value_of l = dropWhile re_space (dropWhile (\<lambda>c. \<not> re_space c) l)"

definition conf_line :: "string \<Rightarrow> bool" where
  "conf_line l \<longleftrightarrow>
     CHR 0x0A \<notin> set l \<and>
     (CHR '':'' \<notin> set (first_word l) \<or>
      first_word l \<noteq> [] \<and> last (first_word l) = CHR '':'' \<and> butlast (first_word l) \<noteq> [] \<and>
      CHR '':'' \<notin> set (butlast (first_word l)) \<and> value_of l \<noteq> [])"

definition rename_storage :: "string \<Rightarrow> string \<Rightarrow> string \<Rightarrow> string" where
  "rename_storage old new l =
     (if CHR '':'' \<in> set (first_word l) \<and> has_prefix (value_of l) (old @ '':'') then
        take (length l - length (value_of l)) l @ new @ '':'' @ drop (length old + 1) (value_of l)
      else l)"

lemma expand_plain: "CHR ''$'' \<notin> set s \<Longrightarrow> expand grp s = s"
  by (induction s) auto

lemma expand_storage: "CHR ''$'' \<notin> set new \<Longrightarrow> expand grp (''${1}'' @ new @ '':'') = grp 1 @ new @ '':''"
proof -
  assume n: "CHR ''$'' \<notin> set new"
  have t: "template_name (''{1}'' @ new @ '':'') = Some (''1'', new @ '':'')"
    by (simp add: template_name_def Let_def word_char_def is_alpha_def is_digit_def less_eq_char_def)
  have g: "group_number ''1'' = Some 1" by (simp add: group_number_def is_digit_def less_eq_char_def digits_val_def digit_val_def)
  show ?thesis using t g expand_plain [of "new @ '':''" grp] n by simp
qed

lemma not_at_start: "CHR 0x0A \<notin> set a \<Longrightarrow> replace_storage old new False (a @ s) = a @ replace_storage old new False s"
proof (induction a)
  case (Cons c a)
  then have "c \<noteq> CHR 0x0A" by auto
  then show ?case using Cons by simp
qed simp

lemma line_end: "s = [] \<or> (\<exists>m. s = CHR 0x0A # m) \<Longrightarrow>
    replace_storage old new b s = (case s of [] \<Rightarrow> [] | c # m \<Rightarrow> CHR 0x0A # replace_storage old new True m)"
  by (auto simp: match_storage_def group_ends_def key_cuts_def re_space_def)

lemma takeWhile_line: "s = [] \<or> (\<exists>m. s = CHR 0x0A # m) \<Longrightarrow> takeWhile (\<lambda>c. \<not> re_space c) (l @ s) = first_word l"
proof (induction l)
  case Nil
  have "re_space CHR 0x0A" by (simp add: re_space_def)
  then show ?case using Nil by (auto simp: first_word_def)
next
  case (Cons c l)
  then show ?case by (simp add: first_word_def)
qed

lemma no_key_no_match:
  assumes "CHR '':'' \<notin> set (first_word l)" and "s = [] \<or> (\<exists>m. s = CHR 0x0A # m)"
  shows "match_storage old (l @ s) = None"
proof -
  let ?w = "takeWhile (\<lambda>c. \<not> re_space c) (l @ s)"
  have "(l @ s) ! k \<noteq> CHR '':''" if "k < length ?w" for k
  proof -
    have "?w ! k \<in> set ?w" using that by simp
    then show ?thesis using takeWhile_nth [OF that] assms takeWhile_line [OF assms(2), of l] by metis
  qed
  then have "key_cuts (l @ s) = []" by (auto simp: key_cuts_def filter_empty_conv)
  then show ?thesis by (simp add: match_storage_def group_ends_def)
qed

lemma prefix_in_line:
  "CHR 0x0A \<notin> set p \<Longrightarrow> s = [] \<or> (\<exists>m. s = CHR 0x0A # m) \<Longrightarrow> has_prefix (v @ s) p = has_prefix v p"
proof (induction v arbitrary: p)
  case Nil
  then show ?case by (cases p) (auto simp: has_prefix_def)
next
  case (Cons c v)
  then show ?case by (cases p) (auto simp: has_prefix_def)
qed

lemma key_match:
  assumes w: "first_word l = key @ '':''" "key \<noteq> []" "CHR '':'' \<notin> set key" and v: "value_of l \<noteq> []"
    and old: "old \<noteq> []" "\<not> re_space (hd old)" "CHR 0x0A \<notin> set old" and s: "s = [] \<or> (\<exists>m. s = CHR 0x0A # m)"
  shows "match_storage old (l @ s) =
     (if has_prefix (value_of l) (old @ '':'') then
        Some (take (length l - length (value_of l)) l, drop (length old + 1) (value_of l) @ s) else None)"
proof -
  define sp where "sp = takeWhile re_space (dropWhile (\<lambda>c. \<not> re_space c) l)"
  define v where "v = value_of l"
  have l: "l = key @ '':'' @ sp @ v"
    using w(1) takeWhile_dropWhile_id [of "\<lambda>c. \<not> re_space c" l] takeWhile_dropWhile_id [of re_space "dropWhile (\<lambda>c. \<not> re_space c) l"]
    by (simp add: first_word_def sp_def v_def value_of_def)
  have vne: "v \<noteq> []" "\<not> re_space (hd v)" using assms(4) dropWhile_hd unfolding v_def value_of_def by metis+
  have sps: "\<forall>c \<in> set sp. re_space c" by (auto simp: sp_def dest: set_takeWhileD)
  have cuts: "key_cuts (l @ s) = [length key]"
  proof -
    have n: "length (takeWhile (\<lambda>c. \<not> re_space c) (l @ s)) = Suc (length key)" using takeWhile_line [OF s, of l] w(1) by simp
    have "key ! k \<noteq> CHR '':''" if "k < length key" for k using that w(3) by (metis nth_mem)
    then have "filter (\<lambda>k. 0 < k \<and> (l @ s) ! k = CHR '':'') (rev [0..<length key]) = []"
      by (auto simp: filter_empty_conv l nth_append)
    moreover have "(l @ s) ! length key = CHR '':''" by (simp add: l nth_append)
    ultimately show ?thesis using w(2) by (simp add: key_cuts_def n del: append_assoc)
  qed
  have tsp: "takeWhile re_space (drop (length key + 1) (l @ s)) = sp"
  proof -
    have "drop (length key + 1) (l @ s) = sp @ v @ s" by (simp add: l)
    then show ?thesis using sps vne by (cases v) (simp_all add: takeWhile_append2)
  qed
  have ends: "group_ends (l @ s) = map (\<lambda>j. length key + 1 + j) (rev [0..<length sp + 1])"
    unfolding group_ends_def cuts using tsp by simp
  define e where "e = length key + 1 + length sp"
  have de: "drop e (l @ s) = v @ s" by (simp add: e_def l)
  have hp: "has_prefix (v @ s) (old @ '':'') = has_prefix v (old @ '':'')"
    by (rule prefix_in_line) (use old(3) s in auto)
  have inner: "\<not> has_prefix (drop (length key + 1 + j) (l @ s)) (old @ '':'')" if "j < length sp" for j
  proof -
    have "drop (length key + 1 + j) (l @ s) = drop j sp @ v @ s" using that by (simp add: l)
    moreover have "drop j sp = sp ! j # drop (Suc j) sp" using that by (simp add: Cons_nth_drop_Suc)
    moreover have "re_space (sp ! j)" using sps that by simp
    ultimately show ?thesis using old(1,2) by (cases old) (auto simp: has_prefix_def)
  qed
  have "find (\<lambda>e. has_prefix (drop e (l @ s)) (old @ '':'')) (group_ends (l @ s)) = (if has_prefix v (old @ '':'') then Some e else None)"
  proof -
    have "group_ends (l @ s) = e # map (\<lambda>j. length key + 1 + j) (rev [0..<length sp])" by (simp add: ends e_def)
    moreover have "find (\<lambda>e. has_prefix (drop e (l @ s)) (old @ '':'')) (map (\<lambda>j. length key + 1 + j) (rev [0..<length sp])) = None"
      using inner by (auto simp: find_None_iff)
    ultimately show ?thesis using de hp by simp
  qed
  moreover have "take e (l @ s) = take (length l - length v) l" by (simp add: e_def l)
  moreover have "drop (e + length old + 1) (l @ s) = drop (length old + 1) v @ s" if hv: "has_prefix v (old @ '':'')"
  proof -
    obtain u where u: "v = old @ '':'' @ u" using hv by (auto simp: has_prefix_def prefix_def)
    have "drop (e + length old + 1) (l @ s) = drop (length old + 1) (drop e (l @ s))"
      unfolding drop_drop by (rule arg_cong [of _ _ "\<lambda>n. drop n (l @ s)"]) simp
    also have "\<dots> = drop (length old + 1) (v @ s)" unfolding de ..
    also have "\<dots> = drop (length old + 1) v @ s" by (simp add: u)
    finally show ?thesis .
  qed
  ultimately show ?thesis by (simp add: match_storage_def v_def)
qed

lemma replace_in_line:
  assumes l: "conf_line l" and old: "old \<noteq> []" "\<not> re_space (hd old)" "CHR 0x0A \<notin> set old" and new: "CHR ''$'' \<notin> set new"
    and s: "s = [] \<or> (\<exists>m. s = CHR 0x0A # m)"
  shows "replace_storage old new True (l @ s) = rename_storage old new l @ (case s of [] \<Rightarrow> [] | c # m \<Rightarrow> CHR 0x0A # replace_storage old new True m)"
proof (cases l)
  case Nil
  then show ?thesis using line_end [OF s, of old new True] by (simp add: rename_storage_def first_word_def)
next
  case (Cons c l')
  have lf: "CHR 0x0A \<notin> set l" using l by (simp add: conf_line_def)
  then have cl: "c \<noteq> CHR 0x0A" "CHR 0x0A \<notin> set l'" using Cons by auto
  have none: "replace_storage old new True (l @ s) = l @ (case s of [] \<Rightarrow> [] | c # m \<Rightarrow> CHR 0x0A # replace_storage old new True m)"
    if "match_storage old (l @ s) = None"
    using that cl not_at_start [OF cl(2)] line_end [OF s] by (simp add: Cons)
  show ?thesis
  proof (cases "CHR '':'' \<in> set (first_word l)")
    case False
    then show ?thesis using none no_key_no_match [OF False s] by (simp add: rename_storage_def)
  next
    case True
    define key where "key = butlast (first_word l)"
    have k: "first_word l = key @ '':''" "key \<noteq> []" "CHR '':'' \<notin> set key" and v: "value_of l \<noteq> []"
      using l True append_butlast_last_id [of "first_word l"] by (auto simp: conf_line_def key_def)
    note m = key_match [OF k v old s]
    show ?thesis
    proof (cases "has_prefix (value_of l) (old @ '':'')")
      case False
      then show ?thesis using none m by (simp add: rename_storage_def)
    next
      case hp: True
      let ?g = "take (length l - length (value_of l)) l" and ?r = "drop (length old + 1) (value_of l)"
      have "set (value_of l) \<subseteq> set l" by (auto simp: value_of_def dest!: set_dropWhileD)
      then have r: "CHR 0x0A \<notin> set ?r" using lf by (auto dest: in_set_dropD)
      have "match_storage old (c # (l' @ s)) = Some (?g, ?r @ s)" using m hp by (simp add: Cons)
      then have "replace_storage old new True (c # (l' @ s)) =
          expand (\<lambda>k. if k = 0 then ?g @ old @ '':'' else if k = 1 then ?g else []) (''${1}'' @ new @ '':'') @ replace_storage old new False (?r @ s)"
        by (simp del: append.simps)
      also have "\<dots> = (?g @ new @ '':'') @ ?r @ replace_storage old new False s"
        unfolding expand_storage [OF new] not_at_start [OF r] by simp
      finally show ?thesis using True hp line_end [OF s, of old new False] by (simp add: Cons [symmetric] rename_storage_def del: append.simps) (simp add: Cons)
    qed
  qed
qed

text \<open>
  Storage names are mapped line by line. On a configuration whose lines have the form of Proxmox
  (a key, a colon, a blank and a value, or a first word without a colon), the multi-line expression of
  \<open>--map\<close> replaces the storage name exactly where it stands between the key and a colon at the start of a
  value, and changes nothing else in the file.
\<close>

theorem replace_storage_lines:
  assumes "list_all conf_line ls" and "old \<noteq> []" and "\<not> re_space (hd old)" and "CHR 0x0A \<notin> set old" and "CHR ''$'' \<notin> set new"
  shows "replace_storage old new True (join_with CHR 0x0A ls) = join_with CHR 0x0A (map (rename_storage old new) ls)"
  using assms(1)
proof (induction ls)
  case (Cons l ls)
  have l: "conf_line l" using Cons.prems by simp
  show ?case
  proof (cases ls)
    case Nil
    then show ?thesis using replace_in_line [OF l assms(2-5), of "[]"] by simp
  next
    case (Cons k ks)
    then show ?thesis
      using Cons.IH \<open>list_all conf_line (l # ls)\<close> replace_in_line [OF l assms(2-5), of "CHR 0x0A # join_with CHR 0x0A ls"] by simp
  qed
qed simp

definition ex_conf_lines :: "string list" where
  "ex_conf_lines = [''boot: order=scsi0'', ''scsi0: local:vm-1-disk-0,size=4G'', ''[snap1]'', [], ''scsi1: local:vm-1-disk-1'']"

lemma replace_storage_lines_witness:
  "replace_storage ''local'' ''tank'' True (join_with CHR 0x0A ex_conf_lines) =
     join_with CHR 0x0A [''boot: order=scsi0'', ''scsi0: tank:vm-1-disk-0,size=4G'', ''[snap1]'', [], ''scsi1: tank:vm-1-disk-1'']"
proof -
  have "list_all conf_line ex_conf_lines" by code_simp
  moreover have "map (rename_storage ''local'' ''tank'') ex_conf_lines =
      [''boot: order=scsi0'', ''scsi0: tank:vm-1-disk-0,size=4G'', ''[snap1]'', [], ''scsi1: tank:vm-1-disk-1'']" by code_simp
  ultimately show ?thesis
    using replace_storage_lines [of ex_conf_lines "''local''" "''tank''"] by (simp add: re_space_def)
qed

subsection \<open>Runs\<close>

definition ex_pve_env :: pve_env where
  "ex_pve_env = \<lparr>pe_unpack = ex_unpack, pe_write = (\<lambda>q. True), pe_left = (\<lambda>q. None)\<rparr>"

definition ex_pve_opts :: pve_opts where
  "ex_pve_opts = \<lparr>po_sub = ''restore'', po_dataset = ''t'', po_snapshot = [], po_recursive = ''n'', po_to = ''/r'', po_map = [],
     po_force = False, po_newid = []\<rparr>"

definition ex_no_files :: pve_state where
  "ex_no_files = \<lparr>pf_files = Map.empty, pf_out = []\<rparr>"

lemma ex_plain: "plain_restore ex_pve_opts ''t''"
  by (simp add: plain_restore_def ex_pve_opts_def)

lemma ex_restore_path: "restore_path ex_pve_opts ''1'' = ''/r/1.conf''"
  by code_simp

lemma ex_restored:
  "restore_conf ex_pve_env ex_pve_opts ''t'' ''1'' [] ex_no_files =
     (None, pve_print (''written /r/1.conf (from t)'' @ [CHR 0x0A]) (ex_no_files\<lparr>pf_files := [''/r/1.conf'' \<mapsto> []]\<rparr>))"
  using ex_restore_path
  by (simp add: restore_conf_def Let_def ex_no_files_def ex_pve_env_def conf_to_restore_def) (simp add: ex_pve_opts_def no_mapping pve_print_def)

lemma ex_restore_run:
  "zseq (set_conf_prop ex_store_env ''t'' ex_conf) (\<lambda>_. pveconf_cmd ex_store_env ex_pve_env ex_pve_opts ex_no_files) (ex_zw\<lparr>zw_log := []\<rparr>) =
     (restore_conf ex_pve_env ex_pve_opts ''t'' ''1'' [] ex_no_files, ex_zw\<lparr>zw_log := ex_conf_log\<rparr>)"
proof -
  have d: "decode_conf (pe_unpack ex_pve_env) ex_conf = Some (''qemu'', ''1'', [])"
    unfolding ex_conf_def by (rule decode_encode) (simp_all add: ex_pve_env_def ex_codec word_def is_space_def)
  have t: "''t'' \<noteq> []" by simp
  show ?thesis
    unfolding plain_restore_runs [OF ex_plain t] zseq_assoc [symmetric]
    by (subst zseq_def) (simp add: ex_conf_run d ex_conf_facts(1) zret_def)
qed

lemma pveconf_only_adds_witness:
  "\<exists>x f' w w'. pveconf_cmd ex_store_env ex_pve_env ex_pve_opts ex_no_files w = ((x, f'), w') \<and>
     pf_files f' ''/r/1.conf'' \<noteq> pf_files ex_no_files ''/r/1.conf'' \<and>
     (\<exists>xs. zw_log w' = zw_log w @ xs \<and> (\<forall>c \<in> set xs. reading c)) \<and> pf_files ex_no_files ''/r/1.conf'' = None"
proof -
  obtain u w where s: "set_conf_prop ex_store_env ''t'' ex_conf (ex_zw\<lparr>zw_log := []\<rparr>) = (u, w)" by force
  have run: "pveconf_cmd ex_store_env ex_pve_env ex_pve_opts ex_no_files w =
      ((None, pve_print (''written /r/1.conf (from t)'' @ [CHR 0x0A]) (ex_no_files\<lparr>pf_files := [''/r/1.conf'' \<mapsto> []]\<rparr>)), ex_zw\<lparr>zw_log := ex_conf_log\<rparr>)"
    using ex_restore_run s unfolding ex_restored by (simp add: zseq_def)
  have d: "pf_files (pve_print t (ex_no_files\<lparr>pf_files := [''/r/1.conf'' \<mapsto> []]\<rparr>)) ''/r/1.conf'' \<noteq> pf_files ex_no_files ''/r/1.conf''" for t
    by (simp add: pve_print_def ex_no_files_def)
  have f: "\<not> po_force ex_pve_opts" by (simp add: ex_pve_opts_def)
  show ?thesis
    using pveconf_only_adds [OF run] d f run by blast
qed

lemma stored_conf_restored_witness:
  "zseq (set_conf_prop ex_store_env ''t'' ex_conf) (\<lambda>_. pveconf_cmd ex_store_env ex_pve_env ex_pve_opts ex_no_files) (ex_zw\<lparr>zw_log := []\<rparr>) =
     (restore_conf ex_pve_env ex_pve_opts ''t'' ''1'' [] ex_no_files, ex_zw\<lparr>zw_log := ex_conf_log\<rparr>) \<and>
   follows ex_store_env ex_store ex_conf_log \<and>
   pf_files (snd (restore_conf ex_pve_env ex_pve_opts ''t'' ''1'' [] ex_no_files)) = [''/r/1.conf'' \<mapsto> []]"
proof -
  have cd: "codec ex_pack (pe_unpack ex_pve_env)" by (simp add: ex_pve_env_def ex_codec)
  have w: "word ''qemu''" "word ''1''" "CHR ''@'' \<notin> set ''t''" "''t'' \<noteq> []" by (simp_all add: word_def is_space_def)
  have c: "length (conf_pieces (encode_conf ex_pack ''qemu'' ''1'' [])) < ze_chunks ex_store_env"
    using ex_conf_pieces by (simp add: ex_conf_def ex_store_env_def)
  have k: "clean_above (after_log ex_store (zw_log (ex_zw\<lparr>zw_log := []\<rparr>))) ''t''"
    by (simp add: after_log_def clean_above_def chain_def)
  have f: "follows ex_store_env ex_store (zw_log (ex_zw\<lparr>zw_log := ex_conf_log\<rparr>))" using ex_conf_follows by simp
  have free: "pf_files ex_no_files (restore_path ex_pve_opts ''1'') = None \<or> po_force ex_pve_opts" "pe_write ex_pve_env (restore_path ex_pve_opts ''1'')"
    by (simp_all add: ex_no_files_def ex_pve_env_def)
  obtain x f' where r: "restore_conf ex_pve_env ex_pve_opts ''t'' ''1'' [] ex_no_files = (x, f')" by force
  show ?thesis
    using stored_conf_restored [OF cd w c ex_plain free ex_restore_run [unfolded ex_conf_def r] f k] ex_restore_run ex_conf_follows
    by (simp add: r ex_restore_path) (simp add: ex_no_files_def)
qed

subsection \<open>What the command does not do\<close>

text \<open>Every disk of a guest carries its configuration, so with \<open>--recursive y\<close> the second disk finds the file of
  the first in the way and the run ends with an error; \<open>--force\<close> would also overwrite a guest of that id.\<close>

lemma second_disk_refused:
  "restore_conf pe p t1 i b f = (None, f1) \<Longrightarrow> \<not> po_force p \<Longrightarrow> restore_conf pe p t2 i b2 f1 = (Some 1, f1)"
  by (auto simp: restore_conf_def Let_def pve_print_def split: if_splits option.splits)

text \<open>The pairs of \<open>--map\<close> are applied one after the other, so two storages cannot be exchanged.\<close>

lemma mapping_is_sequential:
  "map_storages ''a=b,b=a'' (join_with CHR 0x0A [''x: a:1'', ''y: b:2'']) = join_with CHR 0x0A [''x: a:1'', ''y: a:2'']"
  by code_simp

text \<open>The id inside a property is not checked to be a number.\<close>

lemma id_leaves_target: "restore_path ex_pve_opts ''../etc/cron.d/x'' = ''/etc/cron.d/x.conf''"
  by code_simp

end
