(* ===== verification/Acl.thy ===== *)
theory Acl
  imports Zfscheck
begin

section \<open>Folder ACLs on each platform\<close>

text \<open>
  \<open>internal/acl\<close>: \<open>Read\<close> and \<open>Apply\<close> and the tools they run on each system. The model records the
  commands, with the text a command reads from standard input or from a temporary file; what a
  command prints and whether it succeeds is an argument, and so is the temporary file. \<open>bufio.Scanner\<close>
  reads the lines of an output (lines of 64 KB and more, which it refuses, are not considered).
\<close>

datatype acl_cmd = Exec "string list" "string option"

datatype acl_error = AclTool | AclTemp | AclUnsupported | AclUnknownType string | AclEmpty

text \<open>The answer to the \<open>n\<close>-th command, and the name of a new temporary file, if one can be created and written.\<close>

record acl_env =
  ac_answer :: "nat \<Rightarrow> string \<times> bool"
  ac_temp :: "string option"
  ac_temp_write :: bool

type_synonym 'a acl_run = "acl_cmd list \<Rightarrow> (acl_error + 'a) \<times> acl_cmd list"

definition acl_stop :: "acl_error + 'a \<Rightarrow> 'a acl_run" where
  "acl_stop r log = (r, log)"

definition acl_exec :: "acl_env \<Rightarrow> string list \<Rightarrow> string option \<Rightarrow> string acl_run" where
  "acl_exec env args inp log =
     (case ac_answer env (length log) of (out, ok) \<Rightarrow> (if ok then Inr out else Inl AclTool, log @ [Exec args inp]))"

definition acl_then :: "'a acl_run \<Rightarrow> ('a \<Rightarrow> 'b acl_run) \<Rightarrow> 'b acl_run" where
  "acl_then m f log = (case m log of (Inl e, l) \<Rightarrow> (Inl e, l) | (Inr x, l) \<Rightarrow> f x l)"

definition acl_with_temp :: "acl_env \<Rightarrow> (string \<Rightarrow> unit acl_run) \<Rightarrow> unit acl_run" where
  "acl_with_temp env f =
     (case ac_temp env of
        None \<Rightarrow> acl_stop (Inl AclTemp)
      | Some t \<Rightarrow> if \<not> ac_temp_write env then acl_stop (Inl AclTemp) else f t)"

subsection \<open>Linux and FreeBSD\<close>

definition acl_entry :: "string \<Rightarrow> bool" where
  "acl_entry l \<longleftrightarrow> \<not> (has_prefix (trim_space l) ''#'' \<or> trim_space l = [])"

definition entry_text :: "string \<Rightarrow> string" where
  "entry_text out = concat (map (\<lambda>l. l @ [CHR 0x0A]) (filter acl_entry (text_lines out)))"

definition read_nfs4_linux :: "acl_env \<Rightarrow> string \<Rightarrow> string acl_run" where
  "read_nfs4_linux env p = acl_then (acl_exec env [''nfs4_getfacl'', p] None) (\<lambda>out. acl_stop (Inr (entry_text out)))"

definition apply_nfs4_linux :: "acl_env \<Rightarrow> string \<Rightarrow> string \<Rightarrow> unit acl_run" where
  "apply_nfs4_linux env p text =
     acl_with_temp env (\<lambda>t. acl_then (acl_exec env [''nfs4_setfacl'', ''-S'', t, p] (Some text)) (\<lambda>_. acl_stop (Inr ())))"

definition read_nfs4_freebsd :: "acl_env \<Rightarrow> string \<Rightarrow> string acl_run" where
  "read_nfs4_freebsd env p = acl_then (acl_exec env [''getfacl'', p] None) (\<lambda>out. acl_stop (Inr (entry_text out)))"

definition apply_nfs4_freebsd :: "acl_env \<Rightarrow> string \<Rightarrow> string \<Rightarrow> unit acl_run" where
  "apply_nfs4_freebsd env p text =
     acl_then (acl_exec env [''setfacl'', ''-b'', p] None) (\<lambda>_.
     acl_with_temp env (\<lambda>t. acl_then (acl_exec env [''setfacl'', ''-M'', t, p] (Some text)) (\<lambda>_. acl_stop (Inr ()))))"

definition read_posix_linux :: "acl_env \<Rightarrow> string \<Rightarrow> string acl_run" where
  "read_posix_linux env p = acl_exec env [''getfacl'', ''-p'', ''--omit-header'', p] None"

definition apply_posix_linux :: "acl_env \<Rightarrow> string \<Rightarrow> string \<Rightarrow> unit acl_run" where
  "apply_posix_linux env p text =
     acl_then (acl_exec env [''setfacl'', ''--set-file=-'', p] (Some text)) (\<lambda>_. acl_stop (Inr ()))"

subsection \<open>illumos\<close>

definition strip_trivial_index :: "string \<Rightarrow> string" where
  "strip_trivial_index l =
     (case (takeWhile is_digit l, dropWhile is_digit l) of
        (d # ds, c # rest) \<Rightarrow> if c = CHR '':'' then rest else l
      | _ \<Rightarrow> l)"

definition illumos_entries :: "string \<Rightarrow> string list" where
  "illumos_entries out = map strip_trivial_index (filter (\<lambda>l. l \<noteq> []) (map trim_space (drop 1 (text_lines out))))"

definition read_nfs4_illumos :: "acl_env \<Rightarrow> string \<Rightarrow> string acl_run" where
  "read_nfs4_illumos env p =
     acl_then (acl_exec env [''ls'', ''-Vd'', p] None) (\<lambda>out. acl_stop (Inr (join_with CHR '','' (illumos_entries out))))"

definition apply_nfs4_illumos :: "acl_env \<Rightarrow> string \<Rightarrow> string \<Rightarrow> unit acl_run" where
  "apply_nfs4_illumos env p text = acl_then (acl_exec env [''chmod'', ''A='' @ text, p] None) (\<lambda>_. acl_stop (Inr ()))"

subsection \<open>Windows\<close>

abbreviation sq :: char where "sq \<equiv> CHR 0x27"

definition escape_ps :: "string \<Rightarrow> string" where
  "escape_ps s = concat (map (\<lambda>c. if c = sq then [sq, sq] else [c]) s)"

definition get_acl_script :: "string \<Rightarrow> string" where
  "get_acl_script p = ''(Get-Acl -LiteralPath '' @ [sq] @ escape_ps p @ [sq] @ '').Sddl''"

definition set_acl_script :: "string \<Rightarrow> string \<Rightarrow> string" where
  "set_acl_script p text =
     ''$a = Get-Acl -LiteralPath '' @ [sq] @ escape_ps p @ [sq] @ ''; $a.SetSecurityDescriptorSddlForm('' @ [sq] @ escape_ps text @ [sq] @
     ''); Set-Acl -LiteralPath '' @ [sq] @ escape_ps p @ [sq] @ '' -AclObject $a''"

definition read_nfs4_windows :: "acl_env \<Rightarrow> string \<Rightarrow> string acl_run" where
  "read_nfs4_windows env p =
     acl_then (acl_exec env [''powershell'', ''-NoProfile'', ''-Command'', get_acl_script p] None) (\<lambda>out.
       acl_stop (if trim_space out = [] then Inl AclEmpty else Inr (trim_space out)))"

definition apply_nfs4_windows :: "acl_env \<Rightarrow> string \<Rightarrow> string \<Rightarrow> unit acl_run" where
  "apply_nfs4_windows env p text =
     (if text = [] then acl_stop (Inr ())
      else acl_then (acl_exec env [''powershell'', ''-NoProfile'', ''-Command'', set_acl_script p text] None) (\<lambda>_. acl_stop (Inr ())))"

subsection \<open>The choice of the tools\<close>

definition read_posix :: "acl_env \<Rightarrow> goos \<Rightarrow> string \<Rightarrow> string acl_run" where
  "read_posix env sys p = (if sys = Linux then read_posix_linux env p else acl_stop (Inl AclUnsupported))"

definition apply_posix :: "acl_env \<Rightarrow> goos \<Rightarrow> string \<Rightarrow> string \<Rightarrow> unit acl_run" where
  "apply_posix env sys p text = (if sys = Linux then apply_posix_linux env p text else acl_stop (Inl AclUnsupported))"

definition read_nfs4 :: "acl_env \<Rightarrow> goos \<Rightarrow> string \<Rightarrow> string acl_run" where
  "read_nfs4 env sys p =
     (case sys of
        Linux \<Rightarrow> read_nfs4_linux env p
      | FreeBSD \<Rightarrow> read_nfs4_freebsd env p
      | Illumos \<Rightarrow> read_nfs4_illumos env p
      | Solaris \<Rightarrow> read_nfs4_illumos env p
      | Windows \<Rightarrow> read_nfs4_windows env p
      | Darwin \<Rightarrow> acl_stop (Inl AclUnsupported))"

definition apply_nfs4 :: "acl_env \<Rightarrow> goos \<Rightarrow> string \<Rightarrow> string \<Rightarrow> unit acl_run" where
  "apply_nfs4 env sys p text =
     (case sys of
        Linux \<Rightarrow> apply_nfs4_linux env p text
      | FreeBSD \<Rightarrow> apply_nfs4_freebsd env p text
      | Illumos \<Rightarrow> apply_nfs4_illumos env p text
      | Solaris \<Rightarrow> apply_nfs4_illumos env p text
      | Windows \<Rightarrow> apply_nfs4_windows env p text
      | Darwin \<Rightarrow> acl_stop (Inl AclUnsupported))"

definition read_acl :: "acl_env \<Rightarrow> goos \<Rightarrow> string \<Rightarrow> string \<Rightarrow> string acl_run" where
  "read_acl env sys p acltype =
     (if acltype = ''posix'' then read_posix env sys p
      else if acltype = ''nfs4'' then read_nfs4 env sys p
      else if acltype = ''none'' then acl_stop (Inr [])
      else acl_stop (Inl (AclUnknownType acltype)))"

definition apply_acl :: "acl_env \<Rightarrow> goos \<Rightarrow> string \<Rightarrow> string \<Rightarrow> string \<Rightarrow> unit acl_run" where
  "apply_acl env sys p acltype text =
     (if text = [] then acl_stop (Inr ())
      else if acltype = ''posix'' then apply_posix env sys p text
      else if acltype = ''nfs4'' then apply_nfs4 env sys p text
      else if acltype = ''none'' then acl_stop (Inr ())
      else acl_stop (Inl (AclUnknownType acltype)))"

subsection \<open>What is read and written\<close>

text \<open>Entries, one per line: what a listing is reduced to, and what comes back as it is.\<close>

definition line_text :: "string list \<Rightarrow> string" where
  "line_text ls = concat (map (\<lambda>l. l @ [CHR 0x0A]) ls)"

definition plain_line :: "string \<Rightarrow> bool" where
  "plain_line l \<longleftrightarrow> CHR 0x0A \<notin> set l \<and> CHR 0x0D \<notin> set l"

lemma text_lines_line_text: "list_all plain_line ls \<Longrightarrow> text_lines (line_text ls) = ls"
proof -
  assume p: "list_all plain_line ls"
  have "split_on CHR 0x0A (line_text ks) = ks @ [[]]" if "list_all plain_line ks" for ks
    using that
  proof (induction ks)
    case (Cons k ks)
    then have "CHR 0x0A \<notin> set k" by (simp add: plain_line_def)
    then show ?case using Cons split_on_append [of "CHR 0x0A" k "line_text ks"] by (simp add: line_text_def)
  qed (simp add: line_text_def split_on_def)
  moreover have "map chomp_cr ls = ls"
    using p by (induction ls) (auto simp: chomp_cr_def plain_line_def dest: last_in_set)
  ultimately show ?thesis using p by (simp add: text_lines_def Let_def)
qed

lemma entry_text_lines: "list_all plain_line ls \<Longrightarrow> entry_text (line_text ls) = line_text (filter acl_entry ls)"
  unfolding entry_text_def by (simp add: text_lines_line_text) (simp add: line_text_def)

lemma list_all_filter_keep: "list_all P ls \<Longrightarrow> list_all P (filter Q ls)"
  by (induction ls) auto

text \<open>
  A tool that replaces an ACL by the lines of a file and prints it below comments gives back what was
  applied, once the text holds entries only, as every text that \<open>Read\<close> returns does.
\<close>

lemma acl_text_roundtrip:
  assumes "list_all plain_line (hs @ ls)" and "list_all (\<lambda>h. has_prefix (trim_space h) ''#'') hs" and "list_all acl_entry ls"
  shows "entry_text (line_text (hs @ ls)) = line_text ls"
proof -
  have "filter acl_entry hs = []" using assms(2) by (induction hs) (auto simp: acl_entry_def)
  moreover have "filter acl_entry ls = ls" using assms(3) by (induction ls) auto
  ultimately show ?thesis using entry_text_lines [OF assms(1)] by simp
qed

lemma entry_text_settled: "list_all plain_line ls \<Longrightarrow> entry_text (entry_text (line_text ls)) = entry_text (line_text ls)"
  by (simp add: entry_text_lines list_all_filter_keep)

lemma strip_index_ace: "s = [] \<or> \<not> is_digit (hd s) \<Longrightarrow> strip_trivial_index s = s"
  by (cases s) (auto simp: strip_trivial_index_def)

lemma strip_index_trivial: "d \<noteq> [] \<Longrightarrow> list_all is_digit d \<Longrightarrow> strip_trivial_index (d @ CHR '':'' # s) = s"
proof -
  assume d: "d \<noteq> []" "list_all is_digit d"
  have "\<not> is_digit CHR '':''" by (simp add: is_digit_def less_eq_char_def)
  then have "takeWhile is_digit (d @ CHR '':'' # s) = d" "dropWhile is_digit (d @ CHR '':'' # s) = CHR '':'' # s"
    using d(2) by (induction d) auto
  then show ?thesis using d(1) by (cases d) (simp_all add: strip_trivial_index_def)
qed

text \<open>
  FreeBSD: the ACL is reset before anything else can fail, so an error after that leaves the folder with
  its base permissions only.
\<close>

lemma freebsd_error_loses_acl:
  assumes "snd (ac_answer env (length log))" and "ac_temp env = None"
  shows "apply_nfs4_freebsd env p text log = (Inl AclTemp, log @ [Exec [''setfacl'', ''-b'', p] None])"
  using assms by (auto simp: apply_nfs4_freebsd_def acl_then_def acl_exec_def acl_with_temp_def acl_stop_def split: prod.split)

subsection \<open>PowerShell\<close>

text \<open>
  How PowerShell reads a script: code, and between single quotes literal text in which two quotes stand
  for one. It takes the typographic single quotes (U+2018 to U+201B, three bytes in UTF-8) for quotes too.
\<close>

definition smart_quote :: "string \<Rightarrow> bool" where
  "smart_quote s \<longleftrightarrow> take 2 s = [CHR 0xE2, CHR 0x80] \<and> length s > 2 \<and> s ! 2 \<in> {CHR 0x98, CHR 0x99, CHR 0x9A, CHR 0x9B}"

definition ps_quote :: "string \<Rightarrow> string option" where
  "ps_quote s = (if s \<noteq> [] \<and> hd s = sq then Some (tl s) else if smart_quote s then Some (drop 3 s) else None)"

lemma ps_quote_shorter: "ps_quote s = Some r \<Longrightarrow> length r < length s"
  by (cases s) (auto simp: ps_quote_def smart_quote_def split: if_splits)

function ps_literal :: "string \<Rightarrow> (string \<times> string) option" where
  "ps_literal s =
     (case ps_quote s of
        Some r \<Rightarrow> (case ps_quote r of None \<Rightarrow> Some ([], r) | Some r' \<Rightarrow> map_option (\<lambda>(l, t). (sq # l, t)) (ps_literal r'))
      | None \<Rightarrow> (case s of [] \<Rightarrow> None | c # s' \<Rightarrow> map_option (\<lambda>(l, t). (c # l, t)) (ps_literal s')))"
  by pat_completeness auto
termination
  by (relation "measure length") (auto dest!: ps_quote_shorter)

declare ps_literal.simps [simp del]

lemma ps_literal_shorter: "ps_literal s = Some (l, t) \<Longrightarrow> length t < length s"
proof (induction s arbitrary: l t rule: ps_literal.induct)
  case (1 s)
  show ?case
  proof (cases "ps_quote s")
    case None
    then obtain c s' l' where "s = c # s'" "ps_literal s' = Some (l', t)"
      using 1(3) by (subst (asm) ps_literal.simps) (auto split: list.splits)
    then show ?thesis using 1(1) [OF None] by fastforce
  next
    case (Some r)
    show ?thesis
    proof (cases "ps_quote r")
      case None
      then show ?thesis using Some 1(3) ps_quote_shorter [OF Some] by (subst (asm) ps_literal.simps) simp
    next
      case r': (Some r')
      then obtain l' where "ps_literal r' = Some (l', t)"
        using Some 1(3) by (subst (asm) ps_literal.simps) auto
      then show ?thesis using 1(2) [OF Some r'] ps_quote_shorter [OF Some] ps_quote_shorter [OF r'] by fastforce
    qed
  qed
qed

text \<open>A script as pairs of code and the literal after it, and the code at the end; \<open>None\<close>: a quote is left open.\<close>

function ps_split :: "string \<Rightarrow> ((string \<times> string) list \<times> string) option" where
  "ps_split s =
     (case ps_quote s of
        Some r \<Rightarrow> (case ps_literal r of None \<Rightarrow> None | Some (l, t) \<Rightarrow> map_option (\<lambda>(ps, e). (([], l) # ps, e)) (ps_split t))
      | None \<Rightarrow>
          (case s of
             [] \<Rightarrow> Some ([], [])
           | c # s' \<Rightarrow> map_option (\<lambda>(ps, e). case ps of [] \<Rightarrow> ([], c # e) | (a, l) # q \<Rightarrow> ((c # a, l) # q, e)) (ps_split s')))"
  by pat_completeness auto
termination
  by (relation "measure length") (auto dest!: ps_quote_shorter ps_literal_shorter)

declare ps_split.simps [simp del]

text \<open>A text without a typographic quote.\<close>

fun plain_quotes :: "string \<Rightarrow> bool" where
  "plain_quotes [] \<longleftrightarrow> True"
| "plain_quotes (c # s) \<longleftrightarrow> \<not> smart_quote (c # s) \<and> plain_quotes s"

lemma escape_ps_simps [simp]:
  "escape_ps [] = []" "escape_ps (c # s) = (if c = sq then sq # sq # escape_ps s else c # escape_ps s)"
  by (simp_all add: escape_ps_def)

lemma ps_code [simp]: "ps_quote (sq # s) = Some s" "ps_quote [] = None" "c \<noteq> sq \<Longrightarrow> c \<noteq> CHR 0xE2 \<Longrightarrow> ps_quote (c # s) = None"
  by (simp_all add: ps_quote_def smart_quote_def)

lemma no_smart_quote: "plain_quotes (c # s) \<Longrightarrow> \<not> smart_quote (c # escape_ps s @ sq # r)"
  by (cases s; cases "tl s") (auto simp: smart_quote_def numeral_2_eq_2 split: if_splits)

lemma ps_literal_escape:
  assumes "plain_quotes s" and "ps_quote r = None"
  shows "ps_literal (escape_ps s @ sq # r) = Some (s, r)"
  using assms(1)
proof (induction s)
  case Nil
  then show ?case using assms(2) by (subst ps_literal.simps) simp
next
  case (Cons c s)
  then have ih: "ps_literal (escape_ps s @ sq # r) = Some (s, r)" by simp
  show ?case
  proof (cases "c = sq")
    case True
    then show ?thesis using ih by (subst ps_literal.simps) simp
  next
    case False
    then have "ps_quote (c # escape_ps s @ sq # r) = None"
      using no_smart_quote [OF Cons.prems, of r] by (simp add: ps_quote_def)
    then show ?thesis using ih False by (subst ps_literal.simps) simp
  qed
qed

definition code_text :: "string \<Rightarrow> bool" where
  "code_text a \<longleftrightarrow> sq \<notin> set a \<and> CHR 0xE2 \<notin> set a"

lemma ps_split_code:
  "code_text a \<Longrightarrow> ps_split s = Some ((b, l) # q, e) \<Longrightarrow> ps_split (a @ s) = Some ((a @ b, l) # q, e)"
  "code_text a \<Longrightarrow> ps_split a = Some ([], a)"
proof (induction a)
  case (Cons c a)
  { case 1
    then have "c \<noteq> sq" "c \<noteq> CHR 0xE2" "code_text a" by (auto simp: code_text_def)
    then show ?case using Cons(1) 1(2) by (subst ps_split.simps) simp
  next
    case 2
    then have "c \<noteq> sq" "c \<noteq> CHR 0xE2" "code_text a" by (auto simp: code_text_def)
    then show ?case using Cons(2) by (subst ps_split.simps) simp
  }
qed (auto simp: ps_split.simps [of "[]"])

lemma ps_split_literal:
  assumes "plain_quotes s" and "ps_quote r = None" and "ps_split r = Some (q, e)"
  shows "ps_split (sq # escape_ps s @ sq # r) = Some (([], s) # q, e)"
  using ps_literal_escape [OF assms(1,2)] assms(3) by (subst ps_split.simps) simp

lemma ps_split_piece:
  assumes "code_text a" and "plain_quotes s" and "ps_quote r = None" and "ps_split r = Some (q, e)"
  shows "ps_split (a @ sq # escape_ps s @ sq # r) = Some ((a, s) # q, e)"
  using ps_split_code(1) [OF assms(1) ps_split_literal [OF assms(2-4)]] by simp

text \<open>
  C39. A folder name or an ACL text cannot break out of the PowerShell script it is put into. Whatever
  bytes they hold, apart from typographic single quotes, PowerShell reads the script of \<open>applyNFS4ACL\<close> on
  Windows as the three fixed pieces of code, with the path, the ACL text and the path again as literals.
\<close>

theorem windows_script_is_safe:
  assumes "plain_quotes p" and "plain_quotes text"
  shows "ps_split (set_acl_script p text) =
    Some ([(''$a = Get-Acl -LiteralPath '', p), (''; $a.SetSecurityDescriptorSddlForm('', text), (''); Set-Acl -LiteralPath '', p)], '' -AclObject $a'')"
proof -
  have e: "ps_split '' -AclObject $a'' = Some ([], '' -AclObject $a'')" by (rule ps_split_code(2)) (simp add: code_text_def)
  have c: "code_text ''$a = Get-Acl -LiteralPath ''" "code_text ''; $a.SetSecurityDescriptorSddlForm(''" "code_text ''); Set-Acl -LiteralPath ''"
    by (simp_all add: code_text_def)
  have 3: "ps_split (''); Set-Acl -LiteralPath '' @ sq # escape_ps p @ sq # '' -AclObject $a'') = Some ([(''); Set-Acl -LiteralPath '', p)], '' -AclObject $a'')"
    by (rule ps_split_piece [OF c(3) assms(1) _ e]) simp
  have 2: "ps_split (''; $a.SetSecurityDescriptorSddlForm('' @ sq # escape_ps text @ sq # ''); Set-Acl -LiteralPath '' @ sq # escape_ps p @ sq # '' -AclObject $a'') =
      Some ([(''; $a.SetSecurityDescriptorSddlForm('', text), (''); Set-Acl -LiteralPath '', p)], '' -AclObject $a'')"
    by (rule ps_split_piece [OF c(2) assms(2) _ 3]) simp
  have "ps_split (''$a = Get-Acl -LiteralPath '' @ sq # escape_ps p @ sq # ''; $a.SetSecurityDescriptorSddlForm('' @ sq # escape_ps text @ sq # ''); Set-Acl -LiteralPath '' @ sq # escape_ps p @ sq # '' -AclObject $a'') =
      Some ([(''$a = Get-Acl -LiteralPath '', p), (''; $a.SetSecurityDescriptorSddlForm('', text), (''); Set-Acl -LiteralPath '', p)], '' -AclObject $a'')"
    by (rule ps_split_piece [OF c(1) assms(1) _ 2]) simp
  then show ?thesis by (simp add: set_acl_script_def)
qed

definition ex_ps_path :: string where
  "ex_ps_path = ''D:John'' @ [sq] @ ''; del x; '' @ [sq]"

lemma windows_script_is_safe_witness:
  "plain_quotes ex_ps_path \<and>
   ps_split (set_acl_script ex_ps_path ''D:AI'') =
     Some ([(''$a = Get-Acl -LiteralPath '', ex_ps_path), (''; $a.SetSecurityDescriptorSddlForm('', ''D:AI''), (''); Set-Acl -LiteralPath '', ex_ps_path)], '' -AclObject $a'')"
proof -
  have "plain_quotes ex_ps_path" "plain_quotes ''D:AI''" by code_simp+
  then show ?thesis using windows_script_is_safe [of ex_ps_path "''D:AI''"] by simp
qed

text \<open>With a typographic quote in the name the text after it is code.\<close>

definition smart_path :: string where
  "smart_path = ''a'' @ [CHR 0xE2, CHR 0x80, CHR 0x99] @ '';del x;'' @ [CHR 0xE2, CHR 0x80, CHR 0x98]"

lemma smart_quote_breaks_out:
  "map_option (\<lambda>(ps, e). map fst ps) (ps_split (get_acl_script smart_path)) = Some [''(Get-Acl -LiteralPath '', '';del x;'']"
  by code_simp

end
