(* ===== verification/Failed_Apply.thy ===== *)
theory Failed_Apply
  imports Main_Pass
begin

section \<open>A pass whose operations fail\<close>

text \<open>
  \<open>applyOrdered\<close> drops the errors of \<open>apply.Apply\<close>, and \<open>doPass\<close> then saves the baseline of the merge as if
  every operation had succeeded. The baseline of the next pass claims that both sides had the file, and
  the side where the copy failed looks like a deletion.
\<close>

lemma missing_path_deletes:
  assumes "q \<notin> set (renamed_paths rng b p s)"
    and "map_of b q = Some e" and "map_of p q = Some e'" and "map_of s q = None" and "same_identity e e'"
  shows "mk_op (del_kind (e_type e')) SidePrimary SideNone q [] (e_type e') \<in> set (r_ops (reconcile rng now b p s))"
proof -
  have "q \<in> set (all_paths b p s)"
    using assms(2) by (force simp: all_paths_def keys_def dest: map_of_SomeD)
  then obtain t where t: "(q, t) \<in> set (pass_paths rng now b p s)"
    using pass_paths_exist assms(1) by blast
  have "mk_op (del_kind (e_type e')) SidePrimary SideNone q [] (e_type e') \<in> set (r_ops (path_res b p s (q, t)))"
    using assms(2-5) by (simp add: path_res_def path_result_def reconcile_path_def result_defs)
  then show ?thesis using t unfolding reconcile_blocks(1) by force
qed

lemma saved_baseline:
  assumes "merges env base p s" and "pe_apply env" and "SaveState b \<in> set (do_pass env reason)"
  shows "b = r_base (merged env base p s)"
proof -
  have "SaveState b \<in> set (filter changes (do_pass env reason))" using assms(3) by simp
  then show ?thesis unfolding do_pass_merges [OF assms(1)] by (auto simp: apply_ordered_def split: if_splits)
qed

text \<open>
  C32. A copy that fails costs the original. A path that is new on the primary enters the saved baseline of
  a two-way pass whatever becomes of the copy; if the copy failed, so that the secondary still lacks the
  path, and the primary has not changed it, the next pass deletes it on the primary.
\<close>

theorem failed_copy_deletes_original:
  assumes first: "merges env base p s" "pe_apply env" "\<not> rc_oneway (pe_conf env)" "pass_ok (pe_rng env) (pe_now env) base p s"
    and new: "map_of base q = None" "map_of s q = None" "map_of p q = Some e" "q \<notin> set (renamed_paths (pe_rng env) base p s)"
    and saved: "SaveState b \<in> set (do_pass env reason)"
    and again: "merges env' b p' s'" "pe_apply env'" "\<not> rc_oneway (pe_conf env')"
    and failed: "map_of s' q = None" "map_of p' q = Some e'" "same_identity e e'" "q \<notin> set (renamed_paths (pe_rng env') b p' s')"
  shows "\<exists>x \<in> set (applied_ops (do_pass env' reason')). is_del x \<and> o_dst x = SidePrimary \<and> o_path x = q"
proof -
  have m: "merged env base p s = reconcile (pe_rng env) (pe_now env) base p s"
    using first(3) by (simp add: merged_def base_of_def)
  have b: "b = r_base (reconcile (pe_rng env) (pe_now env) base p s)"
    using saved_baseline [OF first(1,2) saved] m by simp
  have "q \<in> set (all_paths base p s)"
    using new(3) by (force simp: all_paths_def keys_def dest: map_of_SomeD)
  then obtain t where t: "(q, t) \<in> set (pass_paths (pe_rng env) (pe_now env) base p s)"
    using pass_paths_exist new(4) by blast
  have "merge3 (map_of base q) (map_of p q) (map_of s q) = Settle (Some e)"
    using new by (simp add: merge3_def same_opt_def)
  then have "same_opt (map_of b q) (Some e)"
    unfolding b using merged_path(1) t first(4) unfolding pass_ok_def by blast
  then obtain e0 where e0: "map_of b q = Some e0" "same_identity e0 e"
    by (auto simp: same_opt_def split: option.splits)
  have "mk_op (del_kind (e_type e')) SidePrimary SideNone q [] (e_type e') \<in> set (applied_ops (do_pass env' reason'))"
    using missing_path_deletes [OF failed(4) e0(1) failed(2,1) same_identity_trans [OF e0(2) failed(3)]] again(3)
    by (simp add: do_pass_applied [OF again(1,2)] merged_def base_of_def)
  then show ?thesis by (intro bexI) (auto simp: is_del_def del_kind_def)
qed

definition ex_copy_env :: pass_env where
  "ex_copy_env = \<lparr>pe_conf = empty_config\<lparr>rc_anchor := ''/a'', rc_second := ''/b''\<rparr>, pe_apply = True, pe_service = [],
     pe_stamp = [], pe_marker = None, pe_dir = True, pe_lock = True, pe_load = Some [], pe_scan = Some ex_p, pe_scan2 = Some [],
     pe_acl = (\<lambda>q. None), pe_root_acl = None, pe_csv = None, pe_isdir2 = (\<lambda>q. False), pe_rng = (\<lambda>n m. m), pe_now = ex_now\<rparr>"

lemma failed_copy_deletes_original_witness:
  "\<exists>b. SaveState b \<in> set (do_pass ex_copy_env ''event'') \<and>
     (\<exists>x \<in> set (applied_ops (do_pass (ex_copy_env\<lparr>pe_load := Some b\<rparr>) ''event'')). is_del x \<and> o_dst x = SidePrimary \<and> o_path x = ''b'')"
proof -
  let ?b = "r_base (merged ex_copy_env [] ex_p [])"
  have m: "merges ex_copy_env [] ex_p []" by (simp add: merges_def ex_copy_env_def second_leg_def empty_config_def)
  have m': "merges (ex_copy_env\<lparr>pe_load := Some ?b\<rparr>) ?b ex_p []"
    by (simp add: merges_def ex_copy_env_def second_leg_def empty_config_def)
  have c: "pe_apply ex_copy_env" "\<not> rc_oneway (pe_conf ex_copy_env)" "pe_rng ex_copy_env = (\<lambda>n m. m)" "pe_now ex_copy_env = ex_now"
    by (simp_all add: ex_copy_env_def empty_config_def)
  have ok: "pass_ok (pe_rng ex_copy_env) (pe_now ex_copy_env) [] ex_p []"
    unfolding c by (simp add: pass_ok_def amap_ok_def inode_sound_def stamps_fresh_def all_paths_def keys_def conflict_path_def ex_defs)
  have mm: "merged ex_copy_env [] ex_p [] = reconcile (\<lambda>n m. m) ex_now [] ex_p []"
    using c(2) by (simp add: merged_def base_of_def c(3,4))
  have base: "?b = [(''b'', mk_file ''b'' 6 20 2), (''e'', mk_file ''e'' 5 10 4), (''z'', mk_file ''z'' 5 10 1)]"
    unfolding mm
    by (simp add: reconcile_def detect_renames_def apply_side_rename_def deleted_by_key_def merge_paths_def all_paths_def keys_def ex_defs
      reconcile_path_def result_defs)
  have ops: "r_ops (merged ex_copy_env [] ex_p []) \<noteq> []"
    unfolding mm
    by (simp add: reconcile_def detect_renames_def apply_side_rename_def deleted_by_key_def merge_paths_def all_paths_def keys_def ex_defs
      reconcile_path_def result_defs)
  have s: "SaveState ?b \<in> set (do_pass ex_copy_env ''event'')"
  proof -
    have "SaveState ?b \<in> set (filter changes (do_pass ex_copy_env ''event''))"
      unfolding do_pass_merges [OF m] using ops c by simp
    then show ?thesis by simp
  qed
  have new: "map_of [] ''b'' = None" "map_of ([] :: tree) ''b'' = None" "map_of ex_p ''b'' = Some (mk_file ''b'' 6 20 2)"
    "''b'' \<notin> set (renamed_paths (pe_rng ex_copy_env) [] ex_p [])"
    unfolding c by (simp_all add: ex_p_def renamed_paths_def detect_renames_def apply_side_rename_def deleted_by_key_def)
  have nr: "''b'' \<notin> set (renamed_paths (pe_rng (ex_copy_env\<lparr>pe_load := Some ?b\<rparr>)) ?b ex_p [])"
    unfolding base
    by (simp add: c(3) renamed_paths_def detect_renames_def apply_side_rename_def deleted_by_key_def rename_step_def ex_defs)
  show ?thesis
    using failed_copy_deletes_original [OF m c(1,2) ok new s m' _ _ new(2,3) same_identity_refl nr] c s by auto
qed

end
