(* ===== verification/Startup.thy ===== *)
theory Startup
  imports Main_Pass Scanner Zfscheck Rustfs Guard
begin

section \<open>Starting the service, and the listener\<close>

text \<open>
  \<open>runCmd\<close> of \<open>main.go\<close> after the flags are translated, up to the loop over the signals of the watcher, and
  \<open>serveCmd\<close> up to the accept loop of \<open>Receiver.Serve\<close>. What the called packages return is an argument;
  what the start does is the list of its effects (for a call that fails, the attempt), with how it ends; status
  lines are given without the time and without the text of an error. The writers of \<open>statusfile.go\<close> and
  \<open>cleanupTmp\<close> are here too.
\<close>

subsection \<open>Status file and leftover temporary files\<close>

definition sync_cfg_dir :: "goos \<Rightarrow> string" where
  "sync_cfg_dir os =
     (if os = Windows
      then ''C:'' @ [CHR 0x5C] @ ''opt'' @ [CHR 0x5C] @ ''csweb-gui'' @ [CHR 0x5C] @ ''_cfg'' @ [CHR 0x5C] @ ''sync''
      else ''/opt/csweb-gui/_cfg/sync'')"

text \<open>The file a status line goes to and its content; \<open>mkdir_ok\<close>: the directory is there or can be made.\<close>

definition write_status :: "goos \<Rightarrow> bool \<Rightarrow> string \<Rightarrow> string \<Rightarrow> string \<Rightarrow> (string \<times> string) option" where
  "write_status os mkdir_ok ts service line =
     (if service = [] \<or> \<not> mkdir_ok then None
      else Some (join_path (sync_cfg_dir os) (service @ ''.last''), ts @ ''  '' @ line @ [CHR 0x0A]))"

text \<open>\<open>*.cs-sync.tmp.*\<close>: a name with that piece in it.\<close>

definition tmp_mark :: string where "tmp_mark = ''.cs-sync.tmp.''"

fun has_piece :: "string \<Rightarrow> string \<Rightarrow> bool" where
  "has_piece p [] \<longleftrightarrow> p = []"
| "has_piece p (c # s) \<longleftrightarrow> has_prefix (c # s) p \<or> has_piece p s"

text \<open>The names in a directory that are removed; the root is taken to hold none of the characters \<open>Glob\<close> expands.\<close>

definition cleanup_tmp :: "string \<Rightarrow> string list \<Rightarrow> string list" where
  "cleanup_tmp root names = map (\<lambda>n. join_path root n) (filter (has_piece tmp_mark) names)"

subsection \<open>The start of \<open>run\<close> and \<open>scan\<close>\<close>

record run_options =
  ro_service :: string
  ro_log :: string
  ro_bwlimit :: int
  ro_budget :: budget
  ro_webhook :: string
  ro_webhook_token :: string
  ro_allow_ip :: string

text \<open>
  What the calls return: the state directory of a root (which \<open>state.Dir\<close> creates, with the root), whether the log file opens, \<open>CheckAndPrepare\<close> of a
  folder, the names in a directory, the calls of rclone, \<open>Sender.Init\<close>, and \<open>watch.New\<close>.
\<close>

record start_env =
  se_state_dir :: "string \<Rightarrow> string option"
  se_log_opens :: "string \<Rightarrow> bool"
  se_check :: "string \<Rightarrow> check_error + string"
  se_names :: "string \<Rightarrow> string list"
  se_ensure :: "rustfs_target \<Rightarrow> bool"
  se_pull :: "rustfs_target \<Rightarrow> bool"
  se_resync :: "rustfs_target \<Rightarrow> bool"
  se_init :: bool
  se_watch :: bool

record sender_setup =
  ss_addr :: string
  ss_dir :: string
  ss_acltype :: string
  ss_key :: string
  ss_budget :: budget
  ss_bwlimit :: int
  ss_target :: rustfs_target

datatype start_effect =
    StateDir string
  | OpenLog string
  | Prepare string
  | Say string
  | Marker string
  | Remove string
  | Ensure rustfs_target
  | PullSync rustfs_target string
  | Resync string rustfs_target
  | MakeSender sender_setup
  | BootstrapAcl string string
  | OnePass string
  | WatchRoots "string list"
  | Webhook string string string

text \<open>How a start ends: an exit code, a single pass, or the loop over signals.\<close>

datatype ending = Exit nat | ScanDone | Running

text \<open>A stage yields its effects and either the value it computes or the exit that ends the program.\<close>

type_synonym 'a stage = "start_effect list \<times> (nat + 'a)"

definition st_ok :: "'a \<Rightarrow> 'a stage" where
  "st_ok x = ([], Inr x)"

definition st_do :: "start_effect list \<Rightarrow> unit stage" where
  "st_do es = (es, Inr ())"

definition st_exit :: "start_effect list \<Rightarrow> nat \<Rightarrow> 'a stage" where
  "st_exit es n = (es, Inl n)"

definition st_then :: "'a stage \<Rightarrow> ('a \<Rightarrow> 'b stage) \<Rightarrow> 'b stage" where
  "st_then m f = (case m of (es, Inl n) \<Rightarrow> (es, Inl n) | (es, Inr x) \<Rightarrow> (case f x of (es', r) \<Rightarrow> (es @ es', r)))"

text \<open>A status line is written only for a named service.\<close>

definition say :: "run_options \<Rightarrow> string \<Rightarrow> start_effect list" where
  "say o1 line = (if ro_service o1 = [] then [] else [Say line])"

definition log_path :: "start_env \<Rightarrow> run_options \<Rightarrow> string \<Rightarrow> string" where
  "log_path env o1 anchor =
     (if ro_log o1 \<noteq> [] then ro_log o1
      else case se_state_dir env anchor of None \<Rightarrow> [] | Some d \<Rightarrow> join_path d ''cs-sync.log'')"

definition open_log :: "start_env \<Rightarrow> run_options \<Rightarrow> string \<Rightarrow> unit stage" where
  "open_log env o1 anchor =
     (let es = (if ro_log o1 \<noteq> [] then [] else [StateDir anchor]) @ [OpenLog (log_path env o1 anchor)]
      in if se_log_opens env (log_path env o1 anchor) then st_do es else st_exit es 1)"

definition check_root :: "start_env \<Rightarrow> run_options \<Rightarrow> string \<Rightarrow> string \<Rightarrow> string stage" where
  "check_root env o1 what root =
     (case se_check env root of
        Inl e \<Rightarrow> st_exit (Prepare root # say o1 (''error: '' @ what @ '' precondition check failed'')) 1
      | Inr a \<Rightarrow> ([Prepare root], Inr a))"

definition local_second :: "run_config \<Rightarrow> bool" where
  "local_second c \<longleftrightarrow> rc_second c \<noteq> [] \<and> \<not> rc_second_rustfs c"

definition check_roots :: "start_env \<Rightarrow> run_options \<Rightarrow> run_config \<Rightarrow> string stage" where
  "check_roots env o1 c =
     st_then (check_root env o1 ''primary'' (rc_anchor c)) (\<lambda>a.
       if local_second c then st_then (check_root env o1 ''secondary'' (rc_second c)) (\<lambda>_. st_ok a) else st_ok a)"

definition announce :: "start_env \<Rightarrow> run_options \<Rightarrow> run_config \<Rightarrow> bool \<Rightarrow> unit stage" where
  "announce env o1 c app =
     st_do (say o1 ''started'' @
       (if app \<and> ro_service o1 \<noteq> [] \<and> rc_oneway c \<and> rc_second c \<noteq> [] then [Marker (rc_second c)] else []) @
       map Remove (cleanup_tmp (rc_anchor c) (se_names env (rc_anchor c))) @
       (if local_second c then map Remove (cleanup_tmp (rc_second c) (se_names env (rc_second c))) else []))"

definition try_say :: "run_options \<Rightarrow> bool \<Rightarrow> start_effect \<Rightarrow> string \<Rightarrow> unit stage" where
  "try_say o1 ok e line = (if ok then st_do [e] else st_exit (e # say o1 line) 1)"

definition first_transfer :: "start_env \<Rightarrow> run_options \<Rightarrow> run_config \<Rightarrow> bool \<Rightarrow> unit stage" where
  "first_transfer env o1 c app =
     (let t = rc_second_target c
      in if \<not> rc_second_rustfs c then st_ok ()
         else st_then (try_say o1 (se_ensure env t) (Ensure t) ''error: rclone remote setup failed'') (\<lambda>_.
           if \<not> app then st_ok ()
           else if rc_pull c then try_say o1 (se_pull env t) (PullSync t (rc_anchor c)) ''error: initial rclone pull sync failed''
           else try_say o1 (se_resync env t) (Resync (rc_anchor c) t) ''error: initial rclone resync failed''))"

definition sender_name :: "run_config \<Rightarrow> string" where
  "sender_name c =
     sanitize_name (if rc_send_addr c \<noteq> [] then rc_send_addr c
       else tg_host_port (rc_send_target c) @ ''_'' @ tg_bucket (rc_send_target c))"

definition start_sender :: "start_env \<Rightarrow> run_options \<Rightarrow> run_config \<Rightarrow> bool \<Rightarrow> string \<Rightarrow> sender_setup option stage" where
  "start_sender env o1 c app acltype =
     (if \<not> (app \<and> rc_sender c) then st_ok None
      else case se_state_dir env (rc_anchor c) of
        None \<Rightarrow> st_exit [StateDir (rc_anchor c)] 1
      | Some d \<Rightarrow>
          (let s = \<lparr>ss_addr = rc_send_addr c, ss_dir = join_path d (''remote_'' @ sender_name c), ss_acltype = acltype,
                 ss_key = rc_send_key c, ss_budget = ro_budget o1, ss_bwlimit = ro_bwlimit o1, ss_target = rc_send_target c\<rparr>
           in st_then (st_do [StateDir (rc_anchor c)]) (\<lambda>_.
              st_then (if tg_bucket (rc_send_target c) = [] then st_ok ()
                       else try_say o1 (se_ensure env (rc_send_target c)) (Ensure (rc_send_target c)) ''error: rclone remote setup failed'') (\<lambda>_.
              if se_init env then ([MakeSender s], Inr (Some s)) else st_exit [MakeSender s] 1))))"

definition bootstrap_part :: "run_config \<Rightarrow> bool \<Rightarrow> unit stage" where
  "bootstrap_part c app = st_do (if app \<and> local_second c then [BootstrapAcl (rc_anchor c) (rc_second c)] else [])"

definition watch_part :: "start_env \<Rightarrow> run_options \<Rightarrow> run_config \<Rightarrow> unit stage" where
  "watch_part env o1 c =
     (let roots = rc_anchor c # (if rc_second c \<noteq> [] then [rc_second c] else [])
      in if \<not> se_watch env then st_exit [WatchRoots roots] 1
         else st_do (WatchRoots roots # (if ro_webhook o1 \<noteq> [] then [Webhook (ro_webhook o1) (ro_webhook_token o1) (ro_allow_ip o1)] else [])))"

definition start_stages :: "start_env \<Rightarrow> run_options \<Rightarrow> run_config \<Rightarrow> bool \<Rightarrow> unit stage" where
  "start_stages env o1 c app =
     st_then (open_log env o1 (rc_anchor c)) (\<lambda>_.
     st_then (check_roots env o1 c) (\<lambda>acltype.
     st_then (announce env o1 c app) (\<lambda>_.
     st_then (first_transfer env o1 c app) (\<lambda>_.
     st_then (start_sender env o1 c app acltype) (\<lambda>_.
     st_then (bootstrap_part c app) (\<lambda>_.
     if \<not> app then st_do [OnePass ''scan''] else watch_part env o1 c))))))"

definition run_start :: "start_env \<Rightarrow> run_options \<Rightarrow> run_config \<Rightarrow> bool \<Rightarrow> start_effect list \<times> ending" where
  "run_start env o1 c app =
     (case start_stages env o1 c app of
        (es, Inl n) \<Rightarrow> (es, Exit n)
      | (es, Inr _) \<Rightarrow> (es, if app then Running else ScanDone))"

text \<open>The loop over the signals of the watcher: a pass for each, until one finds a loop.\<close>

fun signal_loop :: "(nat \<Rightarrow> pass_env) \<Rightarrow> nat \<Rightarrow> string list \<Rightarrow> pass_effect list" where
  "signal_loop envs n [] = []"
| "signal_loop envs n (r # rs) =
     (let es = do_pass (envs n) r in if LoopStop \<in> set es then es else es @ signal_loop envs (n + 1) rs)"

subsection \<open>The listener\<close>

record serve_flags =
  sf_dest :: string
  sf_listen :: string
  sf_log :: string
  sf_key :: string
  sf_allow_ip :: string
  sf_service :: string

text \<open>The accept loop: each connection is the address of the peer; those that reach \<open>handle\<close>, in order.\<close>

definition peer_allowed :: "string \<Rightarrow> string \<Rightarrow> bool" where
  "peer_allowed allow addr \<longleftrightarrow> allow = [] \<or> split_host addr = Some allow"

definition serve_peers :: "string \<Rightarrow> string list \<Rightarrow> string list" where
  "serve_peers allow addrs = filter (peer_allowed allow) addrs"

definition serve_options :: "serve_flags \<Rightarrow> run_options" where
  "serve_options f = \<lparr>ro_service = sf_service f, ro_log = sf_log f, ro_bwlimit = 0, ro_budget = \<lparr>max_count = 0, max_percent = 0\<rparr>,
     ro_webhook = [], ro_webhook_token = [], ro_allow_ip = sf_allow_ip f\<rparr>"

definition serve_cmd ::
  "start_env \<Rightarrow> string option \<Rightarrow> (string \<Rightarrow> bool) \<Rightarrow> serve_flags \<Rightarrow> string list \<Rightarrow> (start_effect list \<times> nat) \<times> string list" where
  "serve_cmd env cwd listens f addrs =
     (if sf_dest f = [] \<or> sf_key f = [] \<or> sf_allow_ip f = [] then (([], 2), [])
      else
        let dest = abs_of cwd (sf_dest f);
            o1 = serve_options f;
            r = st_then (open_log env o1 dest) (\<lambda>_.
                st_then (check_root env o1 ''dest'' dest) (\<lambda>_.
                st_do (map Remove (cleanup_tmp dest (se_names env dest)) @ say o1 ''started'')))
        in case r of
             (es, Inl n) \<Rightarrow> ((es, n), [])
           | (es, Inr _) \<Rightarrow>
               if listens (sf_listen f) then ((es @ say o1 ''error: accept'', 1), serve_peers (sf_allow_ip f) addrs)
               else ((es @ say o1 ''error: listen'', 1), []))"

subsection \<open>The order of the start\<close>

text \<open>A property of all effects of a stage, from a property of its parts.\<close>

definition st_all :: "(start_effect \<Rightarrow> bool) \<Rightarrow> 'a stage \<Rightarrow> bool" where
  "st_all P m \<longleftrightarrow> (\<forall>e \<in> set (fst m). P e)"

named_theorems st_intros \<open>effects of the stages of a start\<close>

lemma st_all_basic [st_intros]:
  "st_all P (st_ok x)" "(\<forall>e \<in> set es. P e) \<Longrightarrow> st_all P (st_do es)" "(\<forall>e \<in> set es. P e) \<Longrightarrow> st_all P (st_exit es n)"
  by (simp_all add: st_all_def st_ok_def st_do_def st_exit_def)

lemma st_all_then [st_intros]: "st_all P m \<Longrightarrow> (\<And>x. snd m = Inr x \<Longrightarrow> st_all P (f x)) \<Longrightarrow> st_all P (st_then m f)"
  by (auto simp: st_all_def st_then_def split: prod.splits sum.splits)

lemma st_then_result: "snd (st_then m f) = Inr y \<Longrightarrow> \<exists>x. snd m = Inr x \<and> snd (f x) = Inr y"
  by (auto simp: st_then_def split: prod.splits sum.splits)

lemma st_all_say [st_intros]: "P e \<Longrightarrow> (\<And>l. P (Say l)) \<Longrightarrow> st_all P (try_say o1 ok e line)"
  by (auto simp: try_say_def say_def st_all_def st_do_def st_exit_def)

text \<open>A stage that fails ends the program with code 1.\<close>

definition st_fails1 :: "'a stage \<Rightarrow> bool" where
  "st_fails1 m \<longleftrightarrow> (\<forall>n. snd m = Inl n \<longrightarrow> n = 1)"

lemma st_fails1_basic [st_intros]: "st_fails1 (st_ok x)" "st_fails1 (st_do es)" "st_fails1 (st_exit es 1)" "st_fails1 (try_say o1 ok e l)"
  by (simp_all add: st_fails1_def st_ok_def st_do_def st_exit_def try_say_def)

lemma st_fails1_then [st_intros]: "st_fails1 m \<Longrightarrow> (\<And>x. st_fails1 (f x)) \<Longrightarrow> st_fails1 (st_then m f)"
proof -
  assume m: "st_fails1 m" and f: "\<And>x. st_fails1 (f x)"
  obtain es r where e: "m = (es, r)" by force
  show ?thesis
  proof (cases r)
    case (Inl k)
    then show ?thesis using m e by (simp add: st_fails1_def st_then_def)
  next
    case (Inr x)
    then show ?thesis using f [of x] e by (simp add: st_fails1_def st_then_def split: prod.splits)
  qed
qed

lemma st_fails1_if [st_intros]: "st_fails1 m \<Longrightarrow> st_fails1 n \<Longrightarrow> st_fails1 (if b then m else n)"
  by simp

lemma st_all_if [st_intros]: "(b \<Longrightarrow> st_all P m) \<Longrightarrow> (\<not> b \<Longrightarrow> st_all P n) \<Longrightarrow> st_all P (if b then m else n)"
  by simp

lemma check_root_fails1 [st_intros]: "st_fails1 (check_root env o1 w r)"
  by (auto simp: check_root_def st_fails1_def st_exit_def split: sum.splits)

lemma start_sender_fails1 [st_intros]: "st_fails1 (start_sender env o1 c app a)"
  unfolding start_sender_def Let_def
  by (cases "se_state_dir env (rc_anchor c)") (auto intro!: st_intros simp: st_fails1_def [of "(_, Inr _)"] simp del: One_nat_def)

lemma start_fails1: "st_fails1 (start_stages env o1 c app)"
  unfolding start_stages_def open_log_def check_roots_def announce_def first_transfer_def bootstrap_part_def watch_part_def Let_def
  by (intro st_intros)

text \<open>What only looks, what prepares, and what moves data or changes a root.\<close>

fun prepares :: "start_effect \<Rightarrow> bool" where
  "prepares (StateDir d) = True"
| "prepares (OpenLog l) = True"
| "prepares (Prepare r) = True"
| "prepares (Say l) = True"
| "prepares _ = False"

fun transfers :: "start_effect \<Rightarrow> bool" where
  "transfers (Marker r) = True"
| "transfers (PullSync t r) = True"
| "transfers (Resync r t) = True"
| "transfers (MakeSender s) = True"
| "transfers (BootstrapAcl p s) = True"
| "transfers (WatchRoots rs) = True"
| "transfers (Webhook l t a) = True"
| "transfers (OnePass r) = (r \<noteq> ''scan'')"
| "transfers _ = False"

definition roots_ok :: "start_env \<Rightarrow> run_config \<Rightarrow> bool" where
  "roots_ok env c \<longleftrightarrow> (\<exists>a. se_check env (rc_anchor c) = Inr a) \<and> (local_second c \<longrightarrow> (\<exists>a. se_check env (rc_second c) = Inr a))"

lemma open_log_prepares: "st_all prepares (open_log env o1 r)"
  by (simp add: open_log_def Let_def st_all_def st_do_def st_exit_def)

lemma check_root_prepares: "st_all prepares (check_root env o1 w r)"
  by (auto simp: check_root_def st_all_def st_exit_def say_def split: sum.splits)

lemma check_roots_prepares: "st_all prepares (check_roots env o1 c)"
  unfolding check_roots_def by (intro st_intros check_root_prepares)

lemma check_root_ok: "snd (check_root env o1 w r) = Inr a \<Longrightarrow> se_check env r = Inr a"
  by (auto simp: check_root_def st_exit_def split: sum.splits)

lemma check_roots_ok: "snd (check_roots env o1 c) = Inr a \<Longrightarrow> roots_ok env c"
  unfolding check_roots_def roots_ok_def
  by (auto dest!: st_then_result check_root_ok split: if_splits)


text \<open>
  C34. \<open>cs-sync scan\<close> reports and transfers nothing. Its start copies nothing, sets up no sender, writes no marker and
  no ACL and watches nothing, and the one pass it runs has no effect that writes, whatever the scans,
  the saved state and the ACL tools return.
\<close>

theorem scan_is_dry:
  assumes "run_start env o1 c False = (es, en)" and "\<not> pe_apply penv"
  shows "(\<forall>e \<in> set es. \<not> transfers e) \<and> en \<noteq> Running \<and> (\<forall>x \<in> set (do_pass penv reason). \<not> writes x)"
proof -
  have p: "st_all (\<lambda>e. \<not> transfers e) m" if "st_all prepares m" for m :: "'b stage"
    using that unfolding st_all_def by (metis prepares.simps(5-13) prepares.elims(2) transfers.simps(9-12))
  have "st_all (\<lambda>e. \<not> transfers e) (start_stages env o1 c False)"
    unfolding start_stages_def
    unfolding announce_def first_transfer_def start_sender_def bootstrap_part_def Let_def
    by (intro st_intros p open_log_prepares check_roots_prepares) (auto simp: say_def)
  moreover have "\<not> writes x" if "x \<in> set (do_pass penv reason)" for x
    using that assms(2)
    by (auto simp: do_pass_def scanned_part_def second_part_def merge_part_def has_sender_def Let_def split: if_splits option.splits)
  ultimately show ?thesis
    using assms(1) unfolding st_all_def run_start_def by (auto split: prod.splits sum.splits)
qed

text \<open>
  The listener serves one host only. \<open>serve\<close> refuses to start without a destination, a key and an
  allowed address, comes to listening only after \<open>CheckAndPrepare\<close> accepted the destination, and of all
  connections exactly those whose peer has the allowed address are handled, in the order they arrive.
\<close>

theorem serve_only_allowed:
  "snd (serve_cmd env cwd listens f addrs) =
     (if sf_dest f \<noteq> [] \<and> sf_key f \<noteq> [] \<and> sf_allow_ip f \<noteq> [] \<and>
         snd (open_log env (serve_options f) (abs_of cwd (sf_dest f))) = Inr () \<and>
         (\<exists>a. se_check env (abs_of cwd (sf_dest f)) = Inr a) \<and> listens (sf_listen f)
      then filter (\<lambda>a. split_host a = Some (sf_allow_ip f)) addrs else [])"
proof (cases "sf_dest f = [] \<or> sf_key f = [] \<or> sf_allow_ip f = []")
  case True
  then show ?thesis unfolding serve_cmd_def if_P [OF True] by auto
next
  case False
  have p: "serve_peers (sf_allow_ip f) addrs = filter (\<lambda>a. split_host a = Some (sf_allow_ip f)) addrs"
    using False by (auto simp: serve_peers_def peer_allowed_def intro!: filter_cong)
  show ?thesis
    using False p unfolding serve_cmd_def if_not_P [OF False] Let_def
    by (auto simp: st_then_def check_root_def st_exit_def st_do_def split: prod.splits sum.splits if_splits)
qed

subsection \<open>What the start does not do\<close>

text \<open>
  A loop marker below \<open>.backupdata\<close> is in no scan, so it is never carried on by the service of the next
  hop: the marker of a service only reaches the root it was written to, and a chain of two or more
  services is not recognised as a loop.
\<close>

lemma marker_is_never_scanned:
  assumes "disks_ok ds"
  shows "map_of (scan (RootDir (Some ds))) (''.backupdata/loop/'' @ x) = None"
proof -
  have ok: "amap_ok (scan_nodes [] ds)" by (rule scan_distinct(2) [OF assms])
  have "excluded (''.backupdata/loop/'' @ x)" by (simp add: excluded_def excluded_top_def has_prefix_def)
  then have "\<not> found_in [] ds (''.backupdata/loop/'' @ x) e" for e by (simp add: found_in_def)
  then have "map_of (scan_nodes [] ds) (''.backupdata/loop/'' @ x) \<noteq> Some e" for e
    using amap_ok_member [OF ok] scan_found(2) [OF assms] by blast
  then have "map_of (scan_nodes [] ds) (''.backupdata/loop/'' @ x) = None" by (meson option.exhaust)
  then show ?thesis by (simp add: scan_def)
qed

text \<open>A temporary file that a crash leaves in a subfolder is not removed at the next start, but scanned as any file.\<close>

definition ex_leftover :: "disk list" where
  "ex_leftover = [DDir ''d'' (Some ex_info) (Some [DFile ''f.cs-sync.tmp.7'' (Some ex_info)])]"

lemma leftover_in_subfolder_is_synced:
  "cleanup_tmp ''/a'' [''d''] = []" "cleanup_tmp ''/a/d'' [''f.cs-sync.tmp.7''] = [''/a/d/f.cs-sync.tmp.7'']"
  "map fst (scan (RootDir (Some ex_leftover))) = [''d'', ''d/f.cs-sync.tmp.7'']"
  by code_simp+

definition ex_target_env :: start_env where
  "ex_target_env = \<lparr>se_state_dir = (\<lambda>r. Some (r @ ''/.backupdata'')), se_log_opens = (\<lambda>l. True), se_check = (\<lambda>r. Inr ''nfs4''), se_names = (\<lambda>r. []),
     se_ensure = (\<lambda>t. True), se_pull = (\<lambda>t. True), se_resync = (\<lambda>t. True), se_init = False, se_watch = True\<rparr>"

definition ex_options :: run_options where
  "ex_options = \<lparr>ro_service = ''s'', ro_log = [], ro_bwlimit = 0, ro_budget = \<lparr>max_count = 1000, max_percent = 20\<rparr>,
     ro_webhook = [], ro_webhook_token = [], ro_allow_ip = []\<rparr>"

text \<open>A sender whose state cannot be set up ends the program while the status file says that it has started.\<close>

lemma failed_init_looks_started:
  "snd (run_start ex_target_env ex_options (empty_config\<lparr>rc_anchor := ''/a'', rc_sender := True, rc_send_addr := ''h:9010''\<rparr>) True) = Exit 1"
  "filter (\<lambda>e. \<exists>l. e = Say l) (fst (run_start ex_target_env ex_options (empty_config\<lparr>rc_anchor := ''/a'', rc_sender := True, rc_send_addr := ''h:9010''\<rparr>) True)) = [Say ''started'']"
  by (simp_all add: run_start_def start_stages_def st_then_def open_log_def check_roots_def check_root_def local_second_def announce_def first_transfer_def
      start_sender_def st_do_def st_ok_def st_exit_def say_def Let_def ex_target_env_def ex_options_def empty_config_def no_target_def cleanup_tmp_def)

lemmas start_defs = run_start_def start_stages_def st_then_def open_log_def check_roots_def check_root_def local_second_def announce_def first_transfer_def
  start_sender_def bootstrap_part_def watch_part_def st_do_def st_ok_def st_exit_def say_def Let_def


lemma scan_is_dry_witness:
  "snd (run_start ex_target_env ex_options ex_config False) = ScanDone \<and>
   list_all (\<lambda>e. \<not> transfers e) (fst (run_start ex_target_env ex_options ex_config False)) \<and>
   do_pass (ex_pass_env\<lparr>pe_apply := False\<rparr>) ''scan'' \<noteq> [] \<and>
   list_all (\<lambda>x. \<not> writes x) (do_pass (ex_pass_env\<lparr>pe_apply := False\<rparr>) ''scan'')"
proof -
  obtain es en where r: "run_start ex_target_env ex_options ex_config False = (es, en)" by force
  have en: "snd (run_start ex_target_env ex_options ex_config False) = ScanDone"
    by (simp add: start_defs ex_target_env_def ex_options_def ex_config_def empty_config_def no_target_def cleanup_tmp_def)
  have m: "merges ex_pass_env [] ex_p ex_b"
    by (simp add: merges_def ex_pass_env_def second_leg_def empty_config_def)
  have "r_ops (merged ex_pass_env [] ex_p ex_b) \<noteq> []"
    by (simp add: merged_def base_of_def ex_pass_env_def empty_config_def force_oneway_def) code_simp
  then have ne: "do_pass (ex_pass_env\<lparr>pe_apply := False\<rparr>) ''scan'' \<noteq> []"
    by (simp add: do_pass_def scanned_part_def second_part_def merge_part_def has_sender_def Let_def merged_def base_of_def
        ex_pass_env_def second_leg_def empty_config_def)
  show ?thesis
    using scan_is_dry [OF r, of "ex_pass_env\<lparr>pe_apply := False\<rparr>" "''scan''"] en ne r by (simp add: list_all_iff)
qed

end
