(* ===== verification/Zfs_Run.thy ===== *)
theory Zfs_Run
  imports Zfs_Net Rustfs Paths Zfscheck
begin

section \<open>The ZFS services: start, loop and listener\<close>

text \<open>
  \<open>zfsCmd\<close> of \<open>zfs.go\<close> and \<open>zfsreceiveCmd\<close> of \<open>zfsnet.go\<close> after the flags are read, with
  \<open>resolveFreezeBin\<close> of \<open>freezebin.go\<close>. What the operating system answers is an argument: the path of the
  executable, which paths are regular files, the search in \<open>PATH\<close>, whether a log opens, whether
  \<open>/etc/pve/nodes\<close> is a directory, and whether the port can be bound. Durations are nanoseconds, as in Go.
  The service loop never ends by itself, so it is run for any number of cycles; before each one the outside
  world may have touched the approval file and, for a LAN pair, has a new connection with the frames of the
  backup. Status lines are given without the time.
\<close>

subsection \<open>Finding the freeze tool\<close>

record zfs_host =
  hs_os :: goos
  hs_exe :: "string option"
  hs_is_file :: "string \<Rightarrow> bool"
  hs_look_path :: "string \<Rightarrow> string option"
  hs_log_opens :: "string \<Rightarrow> bool"
  hs_pve :: bool
  hs_listens :: "string \<Rightarrow> bool"

text \<open>\<open>filepath.Base\<close>, and \<open>filepath.Join\<close> of any number of elements, on Unix.\<close>

definition base_name :: "string \<Rightarrow> string" where
  "base_name p =
     (if p = [] then ''.''
      else let q = rev (dropWhile (\<lambda>x. x = CHR ''/'') (rev p))
           in if q = [] then ''/'' else rev (takeWhile (\<lambda>x. x \<noteq> CHR ''/'') (rev q)))"

definition join_all :: "string list \<Rightarrow> string" where
  "join_all es = (case dropWhile (\<lambda>e. e = []) es of [] \<Rightarrow> [] | es' \<Rightarrow> clean (join_with CHR ''/'' es'))"

definition freeze_tool :: "goos \<Rightarrow> string" where
  "freeze_tool os = ''cs-freeze4snap'' @ (if os = Windows then ''.exe'' else [])"

definition freeze_places :: "zfs_host \<Rightarrow> string list" where
  "freeze_places hs =
     (case hs_exe hs of
        None \<Rightarrow> []
      | Some exe \<Rightarrow>
          (let dir = dir_of exe
           in [join_all [dir, freeze_tool (hs_os hs)],
               join_all [dir, ''..'', ''..'', ''cs-freeze4snap'', base_name dir, freeze_tool (hs_os hs)]]))"

text \<open>The empty path stands for a tool that was not found.\<close>

definition resolve_freeze_bin :: "zfs_host \<Rightarrow> string \<Rightarrow> string" where
  "resolve_freeze_bin hs flag_val =
     (if flag_val \<noteq> [] \<and> (CHR ''/'' \<in> set flag_val \<or> CHR 0x5C \<in> set flag_val)
      then (if hs_is_file hs flag_val then flag_val else [])
      else case find (hs_is_file hs) (freeze_places hs) of
        Some p \<Rightarrow> p
      | None \<Rightarrow>
          (case hs_look_path hs (if flag_val = [] then freeze_tool (hs_os hs) else flag_val) of
             Some p \<Rightarrow> p | None \<Rightarrow> []))"

subsection \<open>The start of a service\<close>

record zfs_flags =
  zf_primary :: string
  zf_backup :: string
  zf_nr :: string
  zf_interval :: int
  zf_versions :: string
  zf_recursive :: string
  zf_keep :: string
  zf_rollback :: string
  zf_freeze :: string
  zf_freeze_bin :: string
  zf_freeze_args :: string
  zf_backup_host :: string
  zf_key :: string
  zf_service :: string
  zf_log :: string

definition second :: int where "second = 1000000000"

definition bad_targets :: "zfs_flags \<Rightarrow> bool" where
  "bad_targets f \<longleftrightarrow>
     zf_primary f = [] \<or> (zf_backup f = []) = (zf_backup_host f = []) \<or> zf_primary f = zf_backup f"

definition with_port :: "string \<Rightarrow> string" where
  "with_port h = (if h \<noteq> [] \<and> CHR '':'' \<notin> set h then h @ '':9010'' else h)"

definition service_prefix :: "string \<Rightarrow> string \<Rightarrow> string" where
  "service_prefix nr guid = ''sync_'' @ nr @ ''_'' @ guid @ ''_''"

text \<open>The daily freeze: off without the tool; at midnight by default where the source is a Proxmox host.\<close>

definition freeze_time :: "zfs_host \<Rightarrow> zfs_flags \<Rightarrow> string" where
  "freeze_time hs f =
     (if resolve_freeze_bin hs (zf_freeze_bin f) = [] then []
      else if zf_freeze f = [] \<and> hs_pve hs then ''00:00'' else zf_freeze f)"

definition service_cfg :: "zfs_host \<Rightarrow> zfs_flags \<Rightarrow> string \<Rightarrow> zcfg" where
  "service_cfg hs f guid =
     (let remote = with_port (zf_backup_host f); keep = parse_keep (zf_keep f) (24, 30)
      in \<lparr>zc_primary = zf_primary f, zc_backup = (if remote \<noteq> [] then remote else zf_backup f), zc_nr = zf_nr f,
          zc_prefix = service_prefix (zf_nr f) guid, zc_versions = (zf_versions f \<noteq> ''n''),
          zc_keep_hours = fst keep, zc_keep_days = snd keep, zc_rollback_auto = (zf_rollback f = ''auto''),
          zc_service = zf_service f, zc_freeze = freeze_time hs f,
          zc_freeze_bin = resolve_freeze_bin hs (zf_freeze_bin f), zc_freeze_args = str_fields (zf_freeze_args f),
          zc_recursive = (zf_recursive f = ''y''), zc_pve = hs_pve hs, zc_remote = remote, zc_key = zf_key f\<rparr>)"

text \<open>An exit code, or the configuration of the running service with its interval.\<close>

definition zfs_start :: "zenv \<Rightarrow> zfs_host \<Rightarrow> zfs_flags \<Rightarrow> (nat + zcfg \<times> int) z" where
  "zfs_start env hs f =
     (if bad_targets f then zret (Inl 2)
      else if zf_backup_host f \<noteq> [] \<and> zf_key f = [] then zret (Inl 2)
      else if \<not> hs_log_opens hs (zf_log f) then zret (Inl 1)
      else zseq (zfs_get env ''guid'' (zf_primary f)) (\<lambda>g.
        if g = [] then zseq (set_status ''error: primary dataset not found'') (\<lambda>_. zret (Inl 1))
        else zseq (set_status ''started'') (\<lambda>_. zret (Inr (service_cfg hs f g, max (zf_interval f) second)))))"

subsection \<open>The loop of a service\<close>

text \<open>\<open>time.Duration\<close> is an \<open>int64\<close>: the product wraps around.\<close>

definition twice :: "int \<Rightarrow> int" where
  "twice d = (2 * d + 2 ^ 63) mod 2 ^ 64 - 2 ^ 63"

definition zfs_pause :: "int \<Rightarrow> int \<Rightarrow> bool \<Rightarrow> bool \<Rightarrow> bool \<Rightarrow> int" where
  "zfs_pause interval dur sent last_full failed =
     (let wait = (if twice dur > interval \<and> sent \<and> \<not> last_full then twice dur else interval)
      in if failed \<and> wait < 10 * second then 10 * second else wait)"

text \<open>What each cycle finds: the frames of the new connection, the approval file, and how long it takes.\<close>

record zrun_env =
  zr_inbox :: "nat \<Rightarrow> zframe list"
  zr_approve :: "nat \<Rightarrow> string option \<Rightarrow> string option"
  zr_dur :: "nat \<Rightarrow> int"

definition outside :: "zrun_env \<Rightarrow> nat \<Rightarrow> unit z" where
  "outside re k w = ((), w\<lparr>zw_inbox := zr_inbox re k, zw_approve := zr_approve re k (zw_approve w)\<rparr>)"

definition cycle_status :: "bool \<times> zerr option \<Rightarrow> unit z" where
  "cycle_status r =
     (case snd r of
        Some e \<Rightarrow> set_status (''error: '' @ err_text e)
      | None \<Rightarrow> if fst r then set_status ''ok'' else zret ())"

text \<open>One turn: the pause before the next one, or nothing when the slice of a name panics.\<close>

definition zfs_turn :: "zenv \<Rightarrow> zrun_env \<Rightarrow> zcfg \<Rightarrow> int \<Rightarrow> nat \<Rightarrow> int option z" where
  "zfs_turn env re c interval k =
     zseq (outside re k) (\<lambda>_.
     zseq (run_cycle env c) (\<lambda>r.
       if snd r = Some SlicePanic then zret None
       else zseq (cycle_status r) (\<lambda>_ w.
         (Some (zfs_pause interval (zr_dur re k) (fst r) (zw_last_full w) (snd r \<noteq> None)), w))))"

fun zfs_loop :: "zenv \<Rightarrow> zrun_env \<Rightarrow> zcfg \<Rightarrow> int \<Rightarrow> nat \<Rightarrow> nat \<Rightarrow> int list z" where
  "zfs_loop env re c interval k 0 = zret []"
| "zfs_loop env re c interval k (Suc n) =
     zseq (zfs_turn env re c interval k) (\<lambda>p. case p of
       None \<Rightarrow> zret []
     | Some d \<Rightarrow> zseq (zfs_loop env re c interval (Suc k) n) (\<lambda>ds. zret (d # ds)))"

definition zfs_cmd :: "zenv \<Rightarrow> zrun_env \<Rightarrow> zfs_host \<Rightarrow> zfs_flags \<Rightarrow> nat \<Rightarrow> (nat + int list) z" where
  "zfs_cmd env re hs f n =
     zseq (zfs_start env hs f) (\<lambda>r. case r of
       Inl code \<Rightarrow> zret (Inl code)
     | Inr (c, interval) \<Rightarrow> zseq (zfs_loop env re c interval 0 n) (\<lambda>ds. zret (Inr ds)))"

subsection \<open>The listener\<close>

record zrecv_flags =
  zl_backup :: string
  zl_listen :: string
  zl_key :: string
  zl_allow_ip :: string
  zl_nr :: string
  zl_keep :: string
  zl_rollback :: string
  zl_service :: string
  zl_log :: string

definition listener_of :: "zrecv_flags \<Rightarrow> zfs_recv" where
  "listener_of f =
     (let keep = parse_keep (zl_keep f) (24, 30)
      in \<lparr>rr_dataset = zl_backup f, rr_nr = zl_nr f, rr_key = zl_key f, rr_service = zl_service f,
          rr_rollback_auto = (zl_rollback f = ''auto''), rr_keep_hours = fst keep, rr_keep_days = snd keep\<rparr>)"

text \<open>The connections, one after the other: the address of the peer and the frames it sends.\<close>

fun zfs_accept :: "zenv \<Rightarrow> zfs_recv \<Rightarrow> string \<Rightarrow> (string \<times> zframe list) list \<Rightarrow> unit z" where
  "zfs_accept env rv allow [] = zret ()"
| "zfs_accept env rv allow ((addr, fs) # conns) =
     (if split_host addr \<noteq> Some allow then zfs_accept env rv allow conns
      else zseq (\<lambda>w. zfs_handle env rv (w\<lparr>zw_inbox := fs\<rparr>)) (\<lambda>_. zfs_accept env rv allow conns))"

text \<open>The listener ends with a refusal of its flags, or with code 1 when it cannot listen or accept any more.\<close>

definition zfsreceive_cmd :: "zenv \<Rightarrow> zfs_host \<Rightarrow> zrecv_flags \<Rightarrow> (string \<times> zframe list) list \<Rightarrow> nat z" where
  "zfsreceive_cmd env hs f conns =
     (if zl_backup f = [] \<or> zl_key f = [] \<or> zl_allow_ip f = [] then zret 2
      else if \<not> hs_log_opens hs (zl_log f) then zret 1
      else if \<not> hs_listens hs (zl_listen f) then zseq (set_status ''error: listen'') (\<lambda>_. zret 1)
      else zseq (set_status ''started'') (\<lambda>_.
           zseq (zfs_accept env (listener_of f) (zl_allow_ip f) conns) (\<lambda>_. zret 1)))"

end
