(* ===== verification/Zfs_Run_Correct.thy ===== *)
theory Zfs_Run_Correct
  imports Zfs_Run Zfs_Net_Correct
begin

section \<open>What a running ZFS service does\<close>

text \<open>
  The invariants of a cycle (\<open>Zfs_Correct\<close>, \<open>Zfs_Net_Correct\<close>) lifted to the whole run of a service and of
  a listener: the configuration that the start builds, the pauses between the cycles, and two services on
  one host, which leave each other's snapshots alone as long as no service number holds an underscore.
\<close>

subsection \<open>From a cycle to the loop\<close>

locale zfs_inv_run = zfs_inv_all +
  assumes inv_outside: "Inv w \<Longrightarrow> Inv (w\<lparr>zw_inbox := fs, zw_approve := a\<rparr>)"
begin

lemma outside_keeps [presT_intros]: "presT Inv (outside re k)"
  by (rule presT_point) (simp add: outside_def inv_outside)

lemma cycle_status_keeps [presT_intros]: "presT Inv (cycle_status r)"
  unfolding cycle_status_def set_status_def by (intro presT_intros) (auto intro!: presT_point simp: inv_status)

lemma turn_keeps [presT_intros]: "presT Inv (zfs_turn env re c interval k)"
  unfolding zfs_turn_def by (intro presT_intros run_cycle_keeps) (auto intro!: presT_point)

lemma zfs_loop_keeps: "presT Inv (zfs_loop env re c interval k n)"
  by (induction n arbitrary: k) (auto intro!: presT_intros)

end

interpretation running: zfs_inv_run c "only_permitted c L" for c L
  by unfold_locales (auto simp: only_permitted_def)

subsection \<open>Prefixes of two services\<close>

text \<open>The snapshots a service may destroy or rename end where the underscore does: number and guid can be read off.\<close>

lemma before_underscore: "CHR ''_'' \<notin> set a \<Longrightarrow> takeWhile (\<lambda>x. x \<noteq> CHR ''_'') (a @ CHR ''_'' # r) = a"
  by (subst takeWhile_append2) auto

lemma service_prefix_parts:
  assumes "has_prefix s (service_prefix nr g)" and "CHR ''_'' \<notin> set nr" and "CHR ''_'' \<notin> set g"
  shows "takeWhile (\<lambda>x. x \<noteq> CHR ''_'') (drop 5 s) = nr"
    and "takeWhile (\<lambda>x. x \<noteq> CHR ''_'') (drop (6 + length nr) s) = g"
proof -
  obtain r where "s = service_prefix nr g @ r" using assms(1) by (rule has_prefixE)
  then have "drop 5 s = nr @ CHR ''_'' # g @ CHR ''_'' # r" by (simp add: service_prefix_def)
  moreover from this have "drop (6 + length nr) s = g @ CHR ''_'' # r"
    using drop_drop [of "Suc (length nr)" 5 s] by (simp add: add.commute)
  ultimately show "takeWhile (\<lambda>x. x \<noteq> CHR ''_'') (drop 5 s) = nr"
    and "takeWhile (\<lambda>x. x \<noteq> CHR ''_'') (drop (6 + length nr) s) = g"
    using before_underscore assms(2,3) by simp_all
qed

definition clear_id :: "string \<Rightarrow> bool" where
  "clear_id s \<longleftrightarrow> CHR ''_'' \<notin> set s"

lemma prefixes_apart:
  assumes "has_prefix s (service_prefix nr g)" and "has_prefix s (service_prefix nr' g')"
    and "clear_id nr" and "clear_id g" and "clear_id nr'" and "clear_id g'"
  shows "nr = nr' \<and> g = g'"
  using service_prefix_parts [OF assms(1)] service_prefix_parts [OF assms(2)] assms(3-) unfolding clear_id_def by metis

text \<open>A command that destroys or renames no snapshot of the service \<open>c\<close>.\<close>

definition spares :: "zcfg \<Rightarrow> zcmd \<Rightarrow> bool" where
  "spares c cmd =
     (case cmd of
        Zfs args \<Rightarrow> args \<noteq> [] \<and> (hd args = ''destroy'' \<or> hd args = ''rename'') \<longrightarrow> (\<forall>s \<in> set (opt_r (tl args)). \<not> own_snap c s)
      | _ \<Rightarrow> True)"

lemma allowed_spares:
  assumes "allowed c cmd" and "\<And>s. own_snap c s \<Longrightarrow> \<not> own_snap c' s"
  shows "spares c' cmd"
proof (cases cmd)
  case (Zfs args)
  then show ?thesis
    using assms by (auto simp: allowed_def allowed_args_def spares_def own_renaming_def split: list.splits)
qed (simp_all add: spares_def)

lemma own_snaps_apart:
  assumes "zc_prefix c = service_prefix nr g" and "zc_prefix c' = service_prefix nr' g'"
    and "clear_id nr" and "clear_id g" and "clear_id nr'" and "clear_id g'" and "(nr, g) \<noteq> (nr', g')"
    and "own_snap c s"
  shows "\<not> own_snap c' s"
  using assms prefixes_apart [of _ nr g nr' g'] by (auto simp: own_snap_def)

subsection \<open>The start\<close>

lemma start_yields:
  assumes "zfs_start env hs f w = (Inr (c, iv), w')"
  shows "\<not> bad_targets f" and "zf_backup_host f = [] \<or> zf_key f \<noteq> []" and "iv = max (zf_interval f) second"
    and "c = service_cfg hs f (fst (zfs_get env ''guid'' (zf_primary f) w))"
    and "fst (zfs_get env ''guid'' (zf_primary f) w) \<noteq> []"
    and "w' = (snd (zfs_get env ''guid'' (zf_primary f) w))\<lparr>zw_status := ''started''\<rparr>"
  using assms by (auto simp: zfs_start_def zseq_def zret_def set_status_def split: if_splits prod.splits)

lemma service_cfg_prefix: "zc_prefix (service_cfg hs f g) = service_prefix (zf_nr f) g"
  by (simp add: service_cfg_def Let_def)

lemma freeze_bin_found:
  "resolve_freeze_bin hs v \<noteq> [] \<Longrightarrow>
    hs_is_file hs (resolve_freeze_bin hs v) \<or> (\<exists>n. hs_look_path hs n = Some (resolve_freeze_bin hs v))"
proof (cases "find (hs_is_file hs) (freeze_places hs)")
  case (Some p)
  then have "hs_is_file hs p" by (auto simp: find_Some_iff)
  then show "resolve_freeze_bin hs v \<noteq> [] \<Longrightarrow> ?thesis" using Some by (auto simp: resolve_freeze_bin_def split: if_splits)
qed (auto simp: resolve_freeze_bin_def split: if_splits option.splits)

text \<open>
  A start of \<open>run --mode zfs\<close> that does not end the program has exactly one target: another local
  dataset, or a host with a port and a key, which is then the backup; its interval is the requested one, at
  least a second; its snapshots carry the service number and the guid that \<open>zfs\<close> gave for the primary; and
  a freeze is only planned with a tool that is a file or was found in \<open>PATH\<close>, daily on a Proxmox host.
\<close>

theorem service_well_formed:
  assumes "zfs_start env hs f w = (Inr (c, interval), w')"
  shows "interval = max (zf_interval f) second \<and> zc_primary c = zf_primary f \<and> zc_primary c \<noteq> [] \<and> zc_backup c \<noteq> [] \<and>
    (if zc_remote c = [] then zc_backup c = zf_backup f \<and> zc_backup c \<noteq> zc_primary c
     else zc_backup c = zc_remote c \<and> CHR '':'' \<in> set (zc_remote c) \<and> zc_key c \<noteq> [] \<and> zf_backup f = []) \<and>
    (\<exists>g. g \<noteq> [] \<and> g = fst (zfs_get env ''guid'' (zf_primary f) w) \<and> zc_prefix c = service_prefix (zf_nr f) g) \<and>
    (zc_freeze c \<noteq> [] \<longrightarrow> hs_is_file hs (zc_freeze_bin c) \<or> (\<exists>n. hs_look_path hs n = Some (zc_freeze_bin c))) \<and>
    (hs_pve hs \<and> zc_freeze_bin c \<noteq> [] \<longrightarrow> zc_freeze c \<noteq> [])"
proof -
  note st = start_yields [OF assms]
  have bin: "zc_freeze_bin c = resolve_freeze_bin hs (zf_freeze_bin f)" and fr: "zc_freeze c = freeze_time hs f"
    by (simp_all add: st(4) service_cfg_def Let_def)
  have f1: "zc_freeze c \<noteq> [] \<longrightarrow> hs_is_file hs (zc_freeze_bin c) \<or> (\<exists>n. hs_look_path hs n = Some (zc_freeze_bin c))"
    using freeze_bin_found [of hs "zf_freeze_bin f"] unfolding bin fr by (auto simp: freeze_time_def split: if_splits)
  have f2: "hs_pve hs \<and> zc_freeze_bin c \<noteq> [] \<longrightarrow> zc_freeze c \<noteq> []"
    unfolding bin fr by (simp add: freeze_time_def)
  have t: "zc_primary c = zf_primary f \<and> zc_primary c \<noteq> [] \<and> zc_backup c \<noteq> [] \<and>
    (if zc_remote c = [] then zc_backup c = zf_backup f \<and> zc_backup c \<noteq> zc_primary c
     else zc_backup c = zc_remote c \<and> CHR '':'' \<in> set (zc_remote c) \<and> zc_key c \<noteq> [] \<and> zf_backup f = [])"
    using st(1,2) by (auto simp: st(4) service_cfg_def Let_def with_port_def bad_targets_def)
  have g: "\<exists>g. g \<noteq> [] \<and> g = fst (zfs_get env ''guid'' (zf_primary f) w) \<and> zc_prefix c = service_prefix (zf_nr f) g"
    using st(5) unfolding st(4) service_cfg_prefix by blast
  show ?thesis using st(3) f1 f2 t g by blast
qed

text \<open>A Proxmox host with the tool in \<open>PATH\<close>, replicating to a LAN host named without a port.\<close>

definition ex_host :: zfs_host where
  "ex_host = \<lparr>hs_os = Linux, hs_exe = Some ''/opt/csweb-gui/tools/cs-sync/linux.amd64/cs-sync'', hs_is_file = (\<lambda>p. False),
     hs_look_path = (\<lambda>p. Some (''/usr/bin/'' @ p)), hs_log_opens = (\<lambda>l. True), hs_pve = True, hs_listens = (\<lambda>l. True)\<rparr>"

definition ex_flags :: zfs_flags where
  "ex_flags = \<lparr>zf_primary = ''tank/a'', zf_backup = [], zf_nr = ''1'', zf_interval = 5, zf_versions = ''y'', zf_recursive = ''n'',
     zf_keep = ''hours:12'', zf_rollback = ''ask'', zf_freeze = [], zf_freeze_bin = [], zf_freeze_args = [],
     zf_backup_host = ''nas2'', zf_key = ''k'', zf_service = ''s1'', zf_log = []\<rparr>"

definition ex_guid_env :: zenv where
  "ex_guid_env = ex_zenv\<lparr>ze_zfs := (\<lambda>i. (''77'', True))\<rparr>"

lemma ex_start:
  "zfs_start ex_guid_env ex_host ex_flags ex_zw =
     (Inr (service_cfg ex_host ex_flags ''77'', second), snd (zfs_start ex_guid_env ex_host ex_flags ex_zw))"
proof -
  have t: "trim_space ''77'' = ''77''" by code_simp
  show ?thesis
    by (simp add: zfs_start_def bad_targets_def ex_flags_def ex_host_def zseq_def zret_def zfs_get_def zfs_run_def
        ex_guid_env_def t set_status_def second_def)
qed

lemma service_well_formed_witness:
  "zc_backup (service_cfg ex_host ex_flags ''77'') = ''nas2:9010'' \<and>
   zc_freeze (service_cfg ex_host ex_flags ''77'') = ''00:00'' \<and>
   (\<exists>g. g \<noteq> [] \<and> zc_prefix (service_cfg ex_host ex_flags ''77'') = service_prefix ''1'' g)"
proof -
  have "zc_backup (service_cfg ex_host ex_flags ''77'') = ''nas2:9010''" by code_simp
  moreover have "zc_freeze (service_cfg ex_host ex_flags ''77'') = ''00:00''" by code_simp
  moreover have "zf_nr ex_flags = ''1''" by (simp add: ex_flags_def)
  ultimately show ?thesis using service_well_formed [OF ex_start] by auto
qed

subsection \<open>The pauses\<close>

lemma twice_exact: "0 \<le> d \<Longrightarrow> 2 * d \<le> int_max \<Longrightarrow> twice d = 2 * d"
  by (simp add: twice_def int_max_def)

lemma pause_least: "interval \<le> zfs_pause interval dur sent last_full failed"
  by (simp add: zfs_pause_def Let_def)

lemma turn_result:
  assumes "zfs_turn env re c interval k w = (Some d, w')"
    and "run_cycle env c (snd (outside re k w)) = ((sent, err), w1)"
  shows "d = zfs_pause interval (zr_dur re k) sent (zw_last_full w1) (err \<noteq> None)"
    and "w' = (case err of Some e \<Rightarrow> w1\<lparr>zw_status := ''error: '' @ err_text e\<rparr> | None \<Rightarrow> if sent then w1\<lparr>zw_status := ''ok''\<rparr> else w1)"
  using assms
  by (auto simp: zfs_turn_def zseq_def zret_def cycle_status_def set_status_def outside_def split: if_splits prod.splits option.splits)

text \<open>
  C20. After a cycle the service pauses at least its interval, and at least ten seconds when the cycle failed,
  which the status file then says. A sent increment widens the pause to twice the time the cycle took, never
  beyond that; an idle cycle and the first full send do not widen it; and the status of an idle cycle is
  the one the cycle left.
\<close>

theorem cycle_pause:
  assumes "zfs_turn env re c interval k w = (Some d, w')"
    and "run_cycle env c (snd (outside re k w)) = ((sent, err), w1)"
    and "0 \<le> zr_dur re k" and "2 * zr_dur re k \<le> int_max"
  shows "interval \<le> d \<and>
    (case err of
       Some e \<Rightarrow> 10 * second \<le> d \<and> zw_status w' = ''error: '' @ err_text e
     | None \<Rightarrow> (if sent \<and> \<not> zw_last_full w1 then d = max interval (2 * zr_dur re k) else d = interval) \<and>
              zw_status w' = (if sent then ''ok'' else zw_status w1))"
proof -
  note t = turn_result [OF assms(1,2)] and tw = twice_exact [OF assms(3,4)]
  have "interval \<le> d" unfolding t(1) by (rule pause_least)
  then show ?thesis using t tw by (cases err) (auto simp: zfs_pause_def Let_def)
qed

text \<open>The example cycle of \<open>Zfs_Correct\<close>: it sends an increment and takes four seconds.\<close>

definition ex_run :: zrun_env where
  "ex_run = \<lparr>zr_inbox = (\<lambda>k. []), zr_approve = (\<lambda>k a. a), zr_dur = (\<lambda>k. 4 * second)\<rparr>"

lemma cycle_pause_witness:
  "fst (zfs_turn ex_zenv ex_run ex_zcfg second 0 ex_zw) = Some (8 * second) \<and>
   zw_status (snd (zfs_turn ex_zenv ex_run ex_zcfg second 0 ex_zw)) = ''ok''"
proof -
  let ?c = "run_cycle ex_zenv ex_zcfg (snd (outside ex_run 0 ex_zw))" and ?t = "zfs_turn ex_zenv ex_run ex_zcfg second 0 ex_zw"
  have c: "fst ?c = (True, None)" "\<not> zw_last_full (snd ?c)" by code_simp+
  have "fst ?t \<noteq> None" by code_simp
  then obtain d where t: "?t = (Some d, snd ?t)" by (metis option.exhaust prod.collapse)
  have c': "?c = ((True, None), snd ?c)" using c(1) by (metis prod.collapse)
  have "d = max second (8 * second) \<and> zw_status (snd ?t) = ''ok''"
    using cycle_pause [OF t c'] c(2) by (simp add: ex_run_def second_def int_max_def)
  then show ?thesis using t by (metis fst_conv max_def second_def zero_le_numeral mult_numeral_1 one_le_numeral mult_right_mono mult.commute mult_1)
qed

subsection \<open>Two services\<close>

lemma start_permitted:
  assumes "zfs_start env hs f w = (Inr (c, iv), w')"
  shows "only_permitted c' (zw_log w) w'"
proof -
  have "only_permitted c' (zw_log w) (snd (zfs_get env ''guid'' (zf_primary f) w))"
    by (rule presT_D [OF footprint.get_keeps only_permitted_start])
  then show ?thesis unfolding start_yields(6) [OF assms] by (simp add: only_permitted_def)
qed

lemma service_permitted:
  assumes "zfs_start env hs f w = (Inr (c, iv), w')"
  shows "only_permitted c (zw_log w) (snd (zfs_cmd env re hs f n w))"
proof -
  have "only_permitted c (zw_log w) (snd (zfs_loop env re c iv 0 n w'))"
    by (rule presT_D [OF running.zfs_loop_keeps start_permitted [OF assms]])
  then show ?thesis using assms by (simp add: zfs_cmd_def zseq_def zret_def case_prod_beta)
qed



text \<open>The service number is not checked: with an underscore in it, one prefix extends the other, and a service prunes
  the snapshots of the other one.\<close>

lemma underscore_in_number:
  "has_prefix (service_prefix ''1_77'' ''9'' @ ''n0'') (service_prefix ''1'' ''77'')"
  "own_snap (service_cfg ex_host (ex_flags\<lparr>zf_nr := ''1''\<rparr>) ''77'')
     (snap_name (service_cfg ex_host (ex_flags\<lparr>zf_nr := ''1_77''\<rparr>) ''9'') ''tank/a'' ''n0'')"
  by code_simp+

text \<open>The port is added where there is no colon: not to an IPv6 address.\<close>

lemma ipv6_host_without_port: "with_port ''fd00::2'' = ''fd00::2''" "split_host (with_port ''fd00::2'') = None"
  by code_simp+

subsection \<open>The listener\<close>

lemma accept_session: "presT (session_only rv L) (zfs_accept env rv allow conns)"
proof (induction conns)
  case (Cons x conns)
  obtain addr fs where x: "x = (addr, fs)" by force
  have "presT (session_only rv L) (\<lambda>w. zfs_handle env rv (w\<lparr>zw_inbox := fs\<rparr>))"
    by (rule presT_point, rule presT_D [OF session_keeps]) (simp add: session_only_def)
  then show ?case using Cons unfolding x zfs_accept.simps by (auto intro!: presT_intros)
qed (auto intro!: presT_intros)

lemma accept_only_sends:
  assumes "\<forall>(addr, fs) \<in> set conns. split_host addr = Some allow \<longrightarrow> \<not> knows_key rv fs"
  shows "\<exists>cs. zw_log (snd (zfs_accept env rv allow conns w)) = zw_log w @ cs \<and> list_all is_send cs"
  using assms
proof (induction conns arbitrary: w)
  case Nil
  then show ?case by (simp add: zret_def)
next
  case (Cons x conns)
  obtain addr fs where x: "x = (addr, fs)" by force
  show ?case
  proof (cases "split_host addr = Some allow")
    case True
    then have k: "\<not> knows_key rv fs" using Cons.prems x by auto
    obtain cs where 1: "zw_log (snd (zfs_handle env rv (w\<lparr>zw_inbox := fs\<rparr>))) = zw_log w @ cs" "list_all is_send cs"
      using no_key_only_sends [of rv "w\<lparr>zw_inbox := fs\<rparr>" env] k by auto
    obtain ds where 2: "zw_log (snd (zfs_accept env rv allow conns (snd (zfs_handle env rv (w\<lparr>zw_inbox := fs\<rparr>))))) =
        (zw_log w @ cs) @ ds" "list_all is_send ds"
      using Cons.IH [of "snd (zfs_handle env rv (w\<lparr>zw_inbox := fs\<rparr>))"] Cons.prems 1(1) by auto
    have "zw_log (snd (zfs_accept env rv allow (x # conns) w)) = zw_log w @ (cs @ ds)"
      using 2(1) True x by (simp add: zseq_def case_prod_beta)
    moreover have "list_all is_send (cs @ ds)" using 1(2) 2(2) by simp
    ultimately show ?thesis by blast
  next
    case False
    then show ?thesis using Cons x by simp
  qed
qed

text \<open>
  C19. Whatever connects to \<open>zfsreceive\<close> and whatever frames it sends, all commands of its whole run are of the
  list \<open>allowed\<close> for the dataset and the service number of the listener, so nothing but snapshots of this
  service is destroyed or renamed. And if no connection comes from the allowed address and opens with the
  right version and key, the listener starts no command at all: it only sends frames.
\<close>

theorem listener_guarded:
  assumes "CHR ''@'' \<notin> set (zl_backup f)"
  shows "\<exists>cs. zw_log (snd (zfsreceive_cmd env hs f conns w)) = zw_log w @ cs \<and>
           (\<forall>cmd \<in> set cs. \<exists>h. zh_nr h = zl_nr f \<and> allowed (recv_cfg (listener_of f) h) cmd) \<and>
           ((\<forall>(addr, fs) \<in> set conns. split_host addr = Some (zl_allow_ip f) \<longrightarrow> \<not> knows_key (listener_of f) fs) \<longrightarrow>
             list_all is_send cs)"
proof -
  let ?rv = "listener_of f" and ?w = "w\<lparr>zw_status := ''started''\<rparr>"
  let ?r = "zfsreceive_cmd env hs f conns w" and ?a = "zfs_accept env (listener_of f) (zl_allow_ip f) conns ?w"
  have run: "zw_log (snd ?r) = zw_log w \<or> zw_log (snd ?r) = zw_log (snd ?a)"
    by (simp add: zfsreceive_cmd_def zret_def zseq_def set_status_def split: prod.split)
  have "session_only ?rv (zw_log w) (snd ?a)"
    by (rule presT_D [OF accept_session]) (simp add: session_only_def)
  then obtain cs where cs: "zw_log (snd ?a) = zw_log w @ cs" "list_all (session_command ?rv) cs"
    by (auto simp: session_only_def)
  then have 1: "\<forall>cmd \<in> set cs. \<exists>h. zh_nr h = zl_nr f \<and> allowed (recv_cfg ?rv h) cmd"
    using assms by (auto simp: list_all_iff session_command_def permitted_def plain_names_def recv_cfg_def listener_of_def Let_def)
  have 2: "(\<forall>(addr, fs) \<in> set conns. split_host addr = Some (zl_allow_ip f) \<longrightarrow> \<not> knows_key ?rv fs) \<longrightarrow> list_all is_send cs"
    using accept_only_sends [of conns "zl_allow_ip f" ?rv env ?w] cs(1) by auto
  from run show ?thesis
  proof
    assume "zw_log (snd ?r) = zw_log w"
    then show ?thesis by (intro exI [of _ "[]"]) simp
  next
    assume "zw_log (snd ?r) = zw_log (snd ?a)"
    then show ?thesis using cs(1) 1 2 by (intro exI [of _ cs]) simp
  qed
qed

text \<open>A stranger, and the primary's address with the wrong key.\<close>

definition ex_zrecv_flags :: zrecv_flags where
  "ex_zrecv_flags = \<lparr>zl_backup = ''tank/b'', zl_listen = ''0.0.0.0:9010'', zl_key = ''k'', zl_allow_ip = ''10.0.0.1'', zl_nr = ''1'',
     zl_keep = [], zl_rollback = ''ask'', zl_service = ''s1'', zl_log = []\<rparr>"

lemma listener_guarded_witness:
  "\<exists>cs. zw_log (snd (zfsreceive_cmd ex_zenv ex_host ex_zrecv_flags
     [(''10.0.0.9:4711'', ex_inbox ''k''), (''10.0.0.1:4711'', ex_inbox ''x'')] ex_zw)) = cs \<and> list_all is_send cs"
proof -
  have a: "CHR ''@'' \<notin> set (zl_backup ex_zrecv_flags)" by code_simp
  have h: "split_host ''10.0.0.9:4711'' \<noteq> Some (zl_allow_ip ex_zrecv_flags)" by code_simp
  have k: "\<not> knows_key (listener_of ex_zrecv_flags) (ex_inbox ''x'')" by code_simp
  show ?thesis
    using listener_guarded [OF a, of ex_zenv ex_host "[(''10.0.0.9:4711'', ex_inbox ''k''), (''10.0.0.1:4711'', ex_inbox ''x'')]" ex_zw]
      h k by (auto simp: ex_zw_def)
qed

end
