(* ===== verification/Port_Watch.thy ===== *)
theory Port_Watch
  imports Watch "HOL-Library.Sublist"
begin

section \<open>Watching directories with event ports\<close>

text \<open>
  The set of watched directories of \<open>watch_eventport_illumossolaris.go\<close>: \<open>addRecursive\<close>, \<open>associate\<close> and
  \<open>pollLoop\<close>, beside the kernel and a directory tree that others change. What the kernel does is that of
  \<open>port_associate(3C)\<close>: an association fires once, when an entry of the directory is added or removed or when
  the directory itself is removed or renamed, and is gone then; the event waits in a queue. A path is the
  list of its elements. The debounce loop behind the \<open>raw\<close> slot, the ticker and \<open>emit\<close> are those of \<open>Watch\<close>.
\<close>

type_synonym dpath = "string list"

abbreviation backupdata :: string where "backupdata \<equiv> ''.backupdata''"

record port_watcher =
  pt_dirs :: "dpath list"
  pt_assoc :: "dpath set"
  pt_watched :: "dpath set"
  pt_queue :: "dpath list"
  pt_raw :: bool

subsection \<open>The operations\<close>

text \<open>\<open>ok\<close>: the path can be stat'ed and associated.\<close>

definition associate :: "(dpath \<Rightarrow> bool) \<Rightarrow> dpath \<Rightarrow> port_watcher \<Rightarrow> port_watcher" where
  "associate ok p s =
     (if p \<in> pt_watched s \<or> \<not> ok p then s
      else s\<lparr>pt_assoc := insert p (pt_assoc s), pt_watched := insert p (pt_watched s)\<rparr>)"

text \<open>The walk from \<open>p\<close> reaches \<open>d\<close>: no element from the name of \<open>p\<close> on is \<open>.backupdata\<close>.\<close>

definition seen_from :: "dpath \<Rightarrow> dpath \<Rightarrow> bool" where
  "seen_from p d \<longleftrightarrow> prefix p d \<and> backupdata \<notin> set (drop (length p - 1) d)"

definition walked :: "dpath list \<Rightarrow> dpath \<Rightarrow> dpath list" where
  "walked ds p = (if p \<in> set ds then filter (seen_from p) ds else [])"

definition add_recursive_port :: "(dpath \<Rightarrow> bool) \<Rightarrow> dpath \<Rightarrow> port_watcher \<Rightarrow> port_watcher" where
  "add_recursive_port ok p s = fold (associate ok) (walked (pt_dirs s) p) s"

definition port_new :: "(dpath \<Rightarrow> bool) \<Rightarrow> dpath list \<Rightarrow> dpath list \<Rightarrow> port_watcher" where
  "port_new ok roots ds =
     fold (add_recursive_port ok) roots
       \<lparr>pt_dirs = ds, pt_assoc = {}, pt_watched = {}, pt_queue = [], pt_raw = False\<rparr>"

text \<open>One event of the poll loop; events at or below \<open>.backupdata\<close> give no signal.\<close>

definition port_poll :: "(dpath \<Rightarrow> bool) \<Rightarrow> dpath \<Rightarrow> port_watcher \<Rightarrow> port_watcher" where
  "port_poll ok p s =
     (let s1 = add_recursive_port ok p (s\<lparr>pt_watched := pt_watched s - {p}\<rparr>)
      in if backupdata \<in> set p then s1 else s1\<lparr>pt_raw := True\<rparr>)"

subsection \<open>The kernel, and the others\<close>

definition fire_at :: "dpath \<Rightarrow> port_watcher \<Rightarrow> port_watcher" where
  "fire_at p s =
     (if p \<in> pt_assoc s then s\<lparr>pt_assoc := pt_assoc s - {p}, pt_queue := pt_queue s @ [p]\<rparr> else s)"

definition moved :: "dpath \<Rightarrow> dpath \<Rightarrow> dpath \<Rightarrow> dpath" where
  "moved a b d = (if prefix a d then b @ drop (length a) d else d)"

datatype port_action = Create dpath string | Remove dpath | Touch dpath | Rename dpath dpath | Poll | Consume

inductive port_step :: "(dpath \<Rightarrow> bool) \<Rightarrow> port_watcher \<Rightarrow> port_action \<Rightarrow> port_watcher \<Rightarrow> bool" for ok where
  create: "p \<in> set (pt_dirs s) \<Longrightarrow> p @ [n] \<notin> set (pt_dirs s) \<Longrightarrow>
    port_step ok s (Create p n) (fire_at p (s\<lparr>pt_dirs := (p @ [n]) # pt_dirs s\<rparr>))"
| remove: "d \<in> set (pt_dirs s) \<Longrightarrow> \<not> (\<exists>e \<in> set (pt_dirs s). strict_prefix d e) \<Longrightarrow>
    port_step ok s (Remove d) (fire_at d (fire_at (butlast d) (s\<lparr>pt_dirs := removeAll d (pt_dirs s)\<rparr>)))"
| touch: "p \<in> set (pt_dirs s) \<Longrightarrow> port_step ok s (Touch p) (fire_at p s)"
| rename: "a \<in> set (pt_dirs s) \<Longrightarrow> b \<notin> set (pt_dirs s) \<Longrightarrow> butlast b \<in> set (pt_dirs s) \<Longrightarrow> \<not> prefix a b \<Longrightarrow>
    port_step ok s (Rename a b)
      (fire_at a (fire_at (butlast a) (fire_at (butlast b) (s\<lparr>pt_dirs := map (moved a b) (pt_dirs s)\<rparr>))))"
| poll: "pt_queue s = p # q \<Longrightarrow> port_step ok s Poll (port_poll ok p (s\<lparr>pt_queue := q\<rparr>))"
| consume: "port_step ok s Consume (s\<lparr>pt_raw := False\<rparr>)"

inductive_cases createE: "port_step ok s (Create p n) s'"
inductive_cases pollE: "port_step ok s Poll s'"

definition whole_tree :: "dpath list \<Rightarrow> bool" where
  "whole_tree ds \<longleftrightarrow> (\<forall>d \<in> set ds. \<forall>p. prefix p d \<longrightarrow> p \<in> set ds)"

inductive port_reach :: "(dpath \<Rightarrow> bool) \<Rightarrow> dpath list \<Rightarrow> (port_action \<Rightarrow> bool) \<Rightarrow> port_watcher \<Rightarrow> bool" for ok roots G where
  start: "whole_tree ds \<Longrightarrow> set roots \<subseteq> set ds \<Longrightarrow> port_reach ok roots G (port_new ok roots ds)"
| more: "port_reach ok roots G s \<Longrightarrow> G a \<Longrightarrow> port_step ok s a s' \<Longrightarrow> port_reach ok roots G s'"

subsection \<open>No directory stays unwatched\<close>

lemma fold_associate:
  "fold (associate ok) ps s =
     s\<lparr>pt_assoc := pt_assoc s \<union> {d \<in> set ps. ok d \<and> d \<notin> pt_watched s}, pt_watched := pt_watched s \<union> {d \<in> set ps. ok d}\<rparr>"
proof (induction ps arbitrary: s)
  case (Cons p ps)
  show ?case
    unfolding fold.simps o_apply Cons by (rule port_watcher.equality) (auto simp: associate_def)
qed simp

lemma add_recursive_port_fields:
  "pt_dirs (add_recursive_port ok p s) = pt_dirs s" "pt_queue (add_recursive_port ok p s) = pt_queue s"
  "pt_raw (add_recursive_port ok p s) = pt_raw s"
  "pt_assoc (add_recursive_port ok p s) = pt_assoc s \<union> {d \<in> set (walked (pt_dirs s) p). ok d \<and> d \<notin> pt_watched s}"
  "pt_watched (add_recursive_port ok p s) = pt_watched s \<union> {d \<in> set (walked (pt_dirs s) p). ok d}"
  by (simp_all add: add_recursive_port_def fold_associate)

lemma port_poll_fields:
  "pt_dirs (port_poll ok p s) = pt_dirs s" "pt_queue (port_poll ok p s) = pt_queue s"
  "pt_raw (port_poll ok p s) = (pt_raw s \<or> backupdata \<notin> set p)"
  "pt_assoc (port_poll ok p s) = pt_assoc s \<union> {d \<in> set (walked (pt_dirs s) p). ok d \<and> d \<notin> pt_watched s - {p}}"
  "pt_watched (port_poll ok p s) = pt_watched s - {p} \<union> {d \<in> set (walked (pt_dirs s) p). ok d}"
  by (simp_all add: port_poll_def Let_def add_recursive_port_fields)

lemma fire_at_fields [simp]:
  "pt_dirs (fire_at p s) = pt_dirs s" "pt_raw (fire_at p s) = pt_raw s" "pt_watched (fire_at p s) = pt_watched s"
  by (simp_all add: fire_at_def)

lemma walked_mem: "d \<in> set (walked ds p) \<longleftrightarrow> p \<in> set ds \<and> d \<in> set ds \<and> seen_from p d"
  by (simp add: walked_def)

lemma seen_last: "seen_from r d \<Longrightarrow> d \<noteq> [] \<Longrightarrow> last d \<noteq> backupdata"
proof -
  assume s: "seen_from r d" and d: "d \<noteq> []"
  then have "length r - 1 < length d" by (cases r) (auto simp: seen_from_def dest: prefix_length_le)
  then have "last d \<in> set (drop (length r - 1) d)" by (metis last_drop last_in_set drop_eq_Nil not_le)
  then show "last d \<noteq> backupdata" using s by (auto simp: seen_from_def)
qed

lemma seen_from_refl: "seen_from r d \<Longrightarrow> seen_from d d"
  using seen_last [of r d] by (cases d rule: rev_cases) (auto simp: seen_from_def)

lemma seen_parent: "seen_from a (p @ [n]) \<Longrightarrow> a \<noteq> p @ [n] \<Longrightarrow> seen_from a p"
  by (auto simp: seen_from_def)

lemma seen_child: "seen_from a p \<Longrightarrow> n \<noteq> backupdata \<Longrightarrow> seen_from a (p @ [n])"
  by (cases "length p - (length a - 1)") (auto simp: seen_from_def drop_Cons' dest: in_set_dropD)

text \<open>A directory below a root that should be watched: it and all on the way can be associated.\<close>

definition due :: "(dpath \<Rightarrow> bool) \<Rightarrow> dpath list \<Rightarrow> dpath \<Rightarrow> bool" where
  "due ok roots d \<longleftrightarrow> (\<exists>r \<in> set roots. seen_from r d \<and> (\<forall>q. prefix r q \<and> prefix q d \<longrightarrow> ok q))"

definition covered :: "port_watcher \<Rightarrow> dpath \<Rightarrow> bool" where
  "covered s d \<longleftrightarrow> d \<in> pt_assoc s \<or> (\<exists>a \<in> set (pt_queue s). seen_from a d)"

text \<open>What is marked as watched is associated or has an event in the queue, and never both.\<close>

definition port_ok :: "dpath list \<Rightarrow> port_watcher \<Rightarrow> bool" where
  "port_ok roots s \<longleftrightarrow>
     whole_tree (pt_dirs s) \<and> set roots \<subseteq> set (pt_dirs s) \<and> pt_watched s = pt_assoc s \<union> set (pt_queue s) \<and>
     pt_assoc s \<inter> set (pt_queue s) = {} \<and> distinct (pt_queue s) \<and> pt_assoc s \<subseteq> set (pt_dirs s)"

definition port_inv :: "(dpath \<Rightarrow> bool) \<Rightarrow> dpath list \<Rightarrow> port_watcher \<Rightarrow> bool" where
  "port_inv ok roots s \<longleftrightarrow> port_ok roots s \<and> (\<forall>d \<in> set (pt_dirs s). due ok roots d \<longrightarrow> covered s d)"

lemma port_ok_fire: "port_ok roots s \<Longrightarrow> port_ok roots (fire_at p s)"
  by (auto simp: port_ok_def fire_at_def)

lemma covered_fire: "covered s d \<Longrightarrow> due ok roots d \<Longrightarrow> covered (fire_at p s) d"
  by (auto simp: covered_def fire_at_def due_def dest: seen_from_refl)

lemma due_refl: "due ok roots d \<Longrightarrow> seen_from d d"
  by (auto simp: due_def dest: seen_from_refl)

lemma due_parent:
  assumes "due ok roots (p @ [n])" and "p @ [n] \<notin> set roots"
  shows "due ok roots p" and "n \<noteq> backupdata"
proof -
  obtain r where r: "r \<in> set roots" "seen_from r (p @ [n])" and o: "\<And>q. prefix r q \<Longrightarrow> prefix q (p @ [n]) \<Longrightarrow> ok q"
    using assms(1) by (auto simp: due_def)
  then show "due ok roots p" using seen_parent [of r p n] assms(2) by (auto simp: due_def)
  show "n \<noteq> backupdata" using seen_last [OF r(2)] by simp
qed

lemma inv_fire: "port_inv ok roots s \<Longrightarrow> port_inv ok roots (fire_at p s)"
  by (simp add: port_inv_def port_ok_fire covered_fire)

lemma inv_create:
  assumes inv: "port_inv ok roots s" and p: "p \<in> set (pt_dirs s)" and new: "p @ [n] \<notin> set (pt_dirs s)"
  shows "port_inv ok roots (fire_at p (s\<lparr>pt_dirs := (p @ [n]) # pt_dirs s\<rparr>))" (is "port_inv ok roots (fire_at p ?s)")
proof -
  have ok: "port_ok roots ?s"
    using inv p by (auto simp: port_inv_def port_ok_def whole_tree_def)
  have old: "covered (fire_at p ?s) d" if "d \<in> set (pt_dirs s)" "due ok roots d" for d
    using inv that by (intro covered_fire) (auto simp: port_inv_def covered_def)
  have "covered (fire_at p ?s) (p @ [n])" if d: "due ok roots (p @ [n])"
  proof -
    have "p @ [n] \<notin> set roots" using inv new by (auto simp: port_inv_def port_ok_def)
    note u = due_parent [OF d this]
    have "covered s p" using inv p u(1) by (auto simp: port_inv_def)
    then show ?thesis
      using seen_child [OF due_refl [OF u(1)] u(2)] seen_child [OF _ u(2)]
      by (auto simp: covered_def fire_at_def)
  qed
  then show ?thesis using port_ok_fire [OF ok] old by (auto simp: port_inv_def)
qed

lemma inv_remove:
  assumes inv: "port_inv ok roots s" and "d \<notin> set roots" and leaf: "\<not> (\<exists>e \<in> set (pt_dirs s). strict_prefix d e)"
  shows "port_inv ok roots (fire_at d (fire_at (butlast d) (s\<lparr>pt_dirs := removeAll d (pt_dirs s)\<rparr>)))"
proof -
  let ?s = "fire_at (butlast d) (s\<lparr>pt_dirs := removeAll d (pt_dirs s)\<rparr>)"
  have ok: "port_ok roots (fire_at d ?s)"
    using inv assms(2) leaf
    by (auto simp: port_inv_def port_ok_def whole_tree_def fire_at_def strict_prefix_def)
  have "covered (fire_at d ?s) e" if "e \<in> set (pt_dirs s)" "due ok roots e" for e
    using inv that by (intro covered_fire) (auto simp: port_inv_def covered_def)
  then show ?thesis using ok by (simp add: port_inv_def)
qed

lemma inv_poll:
  assumes inv: "port_inv ok roots s" and q: "pt_queue s = p # q"
  shows "port_inv ok roots (port_poll ok p (s\<lparr>pt_queue := q\<rparr>))" (is "port_inv ok roots ?t")
proof -
  have s: "port_ok roots s" using inv by (simp add: port_inv_def)
  have w: "pt_watched s - {p} = pt_assoc s \<union> set q" using s q by (auto simp: port_ok_def)
  have ok: "port_ok roots ?t"
    using s q unfolding port_ok_def port_poll_fields by (auto simp: w walked_mem)
  have "covered ?t d" if d: "d \<in> set (pt_dirs s)" "due ok roots d" for d
  proof -
    have "covered s d" using inv d by (auto simp: port_inv_def)
    then consider "d \<in> pt_assoc s" | a where "a \<in> set q" "seen_from a d" | "seen_from p d"
      using q by (auto simp: covered_def)
    then show ?thesis
    proof cases
      case 3
      then have "p \<in> set (pt_dirs s)" using d(1) s by (auto simp: port_ok_def whole_tree_def seen_from_def)
      moreover have "ok d" using d(2) by (auto simp: due_def seen_from_def)
      ultimately show ?thesis
        using 3 d(1) due_refl [OF d(2)] by (auto simp: covered_def port_poll_fields walked_mem w)
    qed (auto simp: covered_def port_poll_fields)
  qed
  then show ?thesis using ok by (simp add: port_inv_def port_poll_fields)
qed

text \<open>Roots stay where they are, and no directory is renamed.\<close>

definition steady :: "dpath list \<Rightarrow> port_action \<Rightarrow> bool" where
  "steady roots a = (case a of Remove d \<Rightarrow> d \<notin> set roots | Rename a b \<Rightarrow> False | _ \<Rightarrow> True)"

lemma inv_step: "port_step ok s a s' \<Longrightarrow> port_inv ok roots s \<Longrightarrow> steady roots a \<Longrightarrow> port_inv ok roots s'"
proof (induction rule: port_step.induct)
  case (remove d s)
  then show ?case by (intro inv_remove) (auto simp: steady_def)
next
  case (consume s)
  then show ?case by (simp add: port_inv_def port_ok_def covered_def)
qed (auto intro: inv_create inv_fire inv_poll simp: steady_def)

lemma fold_roots:
  "pt_dirs (fold (add_recursive_port ok) rs s) = pt_dirs s" "pt_queue (fold (add_recursive_port ok) rs s) = pt_queue s"
  "pt_watched s = pt_assoc s \<Longrightarrow> pt_watched (fold (add_recursive_port ok) rs s) = pt_assoc (fold (add_recursive_port ok) rs s)"
  "pt_watched s = pt_assoc s \<Longrightarrow>
     pt_assoc (fold (add_recursive_port ok) rs s) = pt_assoc s \<union> {d. \<exists>r \<in> set rs. d \<in> set (walked (pt_dirs s) r) \<and> ok d}"
proof (induction rs arbitrary: s)
  case (Cons r rs)
  {
    case 1 then show ?case by (simp add: Cons add_recursive_port_fields)
  next
    case 2 then show ?case by (simp add: Cons add_recursive_port_fields)
  next
    case 3
    then have "pt_watched (add_recursive_port ok r s) = pt_assoc (add_recursive_port ok r s)" by (auto simp: add_recursive_port_fields)
    then show ?case by (simp add: Cons)
  next
    case 4
    then have "pt_watched (add_recursive_port ok r s) = pt_assoc (add_recursive_port ok r s)" by (auto simp: add_recursive_port_fields)
    then show ?case using 4 by (auto simp: Cons add_recursive_port_fields)
  }
qed simp_all

lemma inv_new: "whole_tree ds \<Longrightarrow> set roots \<subseteq> set ds \<Longrightarrow> port_inv ok roots (port_new ok roots ds)"
  unfolding port_inv_def port_ok_def covered_def port_new_def fold_roots(1,2)
  by (auto simp: fold_roots(3,4) walked_mem due_def)
    (meson prefix_order.refl seen_from_def subsetD)

lemma reach_inv: "port_reach ok roots G s \<Longrightarrow> (\<And>a. G a \<Longrightarrow> steady roots a) \<Longrightarrow> port_inv ok roots s"
  by (induction rule: port_reach.induct) (auto intro: inv_new inv_step)

text \<open>
  C37. With event ports no directory is left unwatched: in every state the watcher, the kernel and others reach
  together, as long as the roots stay in place and no directory is renamed, each directory at or below a
  root and not below \<open>.backupdata\<close> has a live association, or an event waits whose handling walks over it
  (provided it and the directories on the way from the root can be associated). And the walk that handles an
  event below no \<open>.backupdata\<close> raises the signal for the debounce loop.
\<close>

theorem port_coverage:
  assumes "port_reach ok roots (steady roots) s" and "d \<in> set (pt_dirs s)" and "due ok roots d"
  shows "(d \<in> pt_assoc s \<or> (\<exists>a \<in> set (pt_queue s). seen_from a d)) \<and>
    (\<forall>s'. port_step ok s Poll s' \<and> backupdata \<notin> set (hd (pt_queue s)) \<longrightarrow> pt_raw s')"
proof
  have "port_inv ok roots s" by (rule reach_inv [OF assms(1)])
  then show "d \<in> pt_assoc s \<or> (\<exists>a \<in> set (pt_queue s). seen_from a d)"
    using assms(2,3) by (simp add: port_inv_def covered_def)
  show "\<forall>s'. port_step ok s Poll s' \<and> backupdata \<notin> set (hd (pt_queue s)) \<longrightarrow> pt_raw s'"
    by (auto elim!: pollE simp: port_poll_fields)
qed

text \<open>A directory with a subdirectory appears below the root: the event of the root covers both.\<close>

definition ex_port :: port_watcher where
  "ex_port = fire_at [''d''] (fire_at [] (port_new (\<lambda>p. True) [[]] [[]])\<lparr>pt_dirs := [[''d''], []]\<rparr>)\<lparr>pt_dirs := [[''d'', ''e''], [''d''], []]\<rparr>"

lemma ex_port_reach: "port_reach (\<lambda>p. True) [[]] (steady [[]]) ex_port"
proof -
  let ?s0 = "port_new (\<lambda>p. True) [[]] [[]]" and ?s1 = "fire_at [] (port_new (\<lambda>p. True) [[]] [[]])\<lparr>pt_dirs := [[''d''], []]\<rparr>"
  have r0: "port_reach (\<lambda>p. True) [[]] (steady [[]]) ?s0" by (rule port_reach.start) (simp_all add: whole_tree_def)
  have d0: "pt_dirs ?s0 = [[]]" by (simp add: port_new_def add_recursive_port_fields)
  have "port_step (\<lambda>p. True) ?s0 (Create [] ''d'') (fire_at [] (?s0\<lparr>pt_dirs := ([] @ [''d'']) # pt_dirs ?s0\<rparr>))"
    by (rule port_step.create) (simp_all add: d0)
  moreover have "fire_at [] (?s0\<lparr>pt_dirs := ([] @ [''d'']) # pt_dirs ?s0\<rparr>) = ?s1"
    using d0 by (simp add: fire_at_def)
  ultimately have r1: "port_reach (\<lambda>p. True) [[]] (steady [[]]) ?s1"
    using port_reach.more [OF r0, of "Create [] ''d''"] by (simp add: steady_def)
  have d1: "pt_dirs ?s1 = [[''d''], []]" by simp
  have "port_step (\<lambda>p. True) ?s1 (Create [''d''] ''e'') (fire_at [''d''] (?s1\<lparr>pt_dirs := ([''d''] @ [''e'']) # pt_dirs ?s1\<rparr>))"
    by (rule port_step.create) (simp_all add: d1)
  moreover have "fire_at [''d''] (?s1\<lparr>pt_dirs := ([''d''] @ [''e'']) # pt_dirs ?s1\<rparr>) = ex_port"
    unfolding d1 ex_port_def by (simp add: fire_at_def)
  ultimately show ?thesis
    using port_reach.more [OF r1, of "Create [''d''] ''e''"] by (simp add: steady_def)
qed

lemma port_coverage_witness:
  "[''d'', ''e''] \<in> set (pt_dirs ex_port) \<and> ([''d'', ''e''] \<in> pt_assoc ex_port \<or> (\<exists>a \<in> set (pt_queue ex_port). seen_from a [''d'', ''e'']))"
proof -
  have d: "[''d'', ''e''] \<in> set (pt_dirs ex_port)" by (simp add: ex_port_def fire_at_def)
  have u: "due (\<lambda>p. True) [[]] [''d'', ''e'']" by (simp add: due_def seen_from_def)
  show ?thesis using port_coverage [OF ex_port_reach d u] d by blast
qed

text \<open>
  Without the second proviso: \<open>a\<close> with a subdirectory \<open>x\<close> is renamed to \<open>b\<close>, and all events are handled. The
  path \<open>a/x\<close> is still marked as watched, though the association now belongs to \<open>b/x\<close>; so a new
  directory of that name is never associated.
\<close>

definition ex_renamed :: port_watcher where
  "ex_renamed =
     (let ok = (\<lambda>p. True); s = port_new ok [[]] [[], [''a''], [''a'', ''x'']];
          s1 = fire_at [''a''] (fire_at [] (fire_at [] (s\<lparr>pt_dirs := map (moved [''a''] [''b'']) (pt_dirs s)\<rparr>)));
          s2 = port_poll ok (hd (pt_queue s1)) (s1\<lparr>pt_queue := tl (pt_queue s1)\<rparr>)
      in port_poll ok (hd (pt_queue s2)) (s2\<lparr>pt_queue := tl (pt_queue s2)\<rparr>))"

lemma renamed_path_stays_marked:
  "pt_queue ex_renamed = []" "pt_dirs ex_renamed = [[], [''b''], [''b'', ''x'']]"
  "[''a'', ''x''] \<in> pt_watched ex_renamed" "[''b'', ''x''] \<in> pt_assoc ex_renamed"
  by code_simp+

lemma marked_is_skipped: "p \<in> pt_watched s \<Longrightarrow> associate ok p s = s"
  by (simp add: associate_def)

end
