(* ===== verification/Cli.thy ===== *)
theory Cli
  imports Startup Zfs_Run Pveconf
begin

section \<open>The program\<close>

text \<open>
  \<open>main\<close>: which command the arguments select, with its own arguments; and \<open>webhook-test\<close>, which counts
  and prints the notifications it accepts until it is interrupted. The lines are given without the time.
\<close>

datatype program =
    ShowVersion
  | ZfsService "string list"
  | SyncService "string list" bool
  | ServeFiles "string list"
  | ServeZfs "string list"
  | PveCommand "string list"
  | WebhookTest "string list"
  | UsageAndFail

fun select_program :: "string list \<Rightarrow> program" where
  "select_program [] = UsageAndFail"
| "select_program (cmd # args) =
     (if cmd = ''version'' then ShowVersion
      else if cmd = ''run'' then (if is_zfs_mode args then ZfsService args else SyncService args True)
      else if cmd = ''serve'' then ServeFiles args
      else if cmd = ''zfsreceive'' \<or> cmd = ''zfspull'' then ServeZfs args
      else if cmd = ''pveconf'' then PveCommand args
      else if cmd = ''scan'' then SyncService args False
      else if cmd = ''webhook-test'' then WebhookTest args
      else UsageAndFail)"

text \<open>A dry run never reaches the ZFS replication, whatever mode its arguments name.\<close>

lemma scan_is_no_service: "select_program (''scan'' # args) = SyncService args False"
  by simp

lemma zfs_only_by_mode: "select_program (cmd # args) = ZfsService args' \<longleftrightarrow> cmd = ''run'' \<and> is_zfs_mode args \<and> args' = args"
  by (cases "cmd = ''run''") (simp_all del: is_zfs_mode.simps, auto)

text \<open>The mode is found wherever it stands, also as the value of another flag.\<close>

lemma mode_as_value: "select_program [''run'', ''--log'', ''--mode=zfs'', ''--mode'', ''push''] = ZfsService [''--log'', ''--mode=zfs'', ''--mode'', ''push'']"
  by simp

subsection \<open>Webhook test\<close>

definition event_line :: "nat \<Rightarrow> webhook_event \<Rightarrow> string" where
  "event_line n e = ''#'' @ nat_str n @ '' event='' @ wh_event e @ '' bucket='' @ wh_bucket e @ '' key='' @ wh_key e"

text \<open>The exit code and the printed lines; \<open>listens\<close>: the port can be bound. The requests are answered one after the other.\<close>

definition webhook_test ::
  "(string \<Rightarrow> webhook_event list option) \<Rightarrow> bool \<Rightarrow> string \<Rightarrow> string \<Rightarrow> string \<Rightarrow> http_req list \<Rightarrow> nat \<times> string list" where
  "webhook_test decode listens addr token allow_ip reqs =
     (if addr = [] then (2, [])
      else if \<not> listens then (1, [])
      else let es = concat (map (\<lambda>r. snd (handle_hook decode token allow_ip r)) reqs)
           in (0, map (\<lambda>(i, e). event_line (i + 1) e) (enumerate 0 es) @
                  [''stopped, '' @ nat_str (length es) @ '' event(s) received total'']))"

text \<open>A request that lacks the token or comes from another address prints nothing.\<close>

lemma test_ignores_strangers:
  assumes "\<And>r. r \<in> set reqs \<Longrightarrow> hr_method r \<noteq> ''POST'' \<or> (token \<noteq> [] \<and> hr_auth r \<noteq> ''Bearer '' @ token) \<or> (allow \<noteq> [] \<and> source_host r \<noteq> allow)"
    and "addr \<noteq> []"
  shows "webhook_test decode True addr token allow reqs = (0, [''stopped, '' @ nat_str 0 @ '' event(s) received total''])"
proof -
  have "snd (handle_hook decode token allow r) = []" if "r \<in> set reqs" for r
    using hook_gate [of decode token allow r] assms(1) [OF that] by blast
  moreover define es where "es = concat (map (\<lambda>r. snd (handle_hook decode token allow r)) reqs)"
  ultimately have "es = []" by simp
  then show ?thesis using assms(2) unfolding webhook_test_def es_def [symmetric] Let_def by simp
qed

end
