(* ===== verification/Spec2Isabelle.thy ===== *)
theory Spec2Isabelle
  imports Pass_Correct Guard Endpoint Sender_Correct Zfs_Net_Correct Lock Limiter Lost_Root Watch Bootstrap Rustfs Zfscheck
    Zfs_Crash Pveconf_Correct Acl Failed_Apply Startup Zfs_Run_Correct Port_Watch Cli
begin

text \<open>
  A verification library for cs-sync, a file and snapshot synchroniser in Go (\<open>src/\<close>).

  THE PROGRAM. \<open>cs-sync run\<close> (\<open>src/main.go\<close>) turns its flags into a local anchor, an optional second
  side (a directory or a RustFS bucket) and an optional one-way sender, waits for signals of the watcher,
  and on each of them runs a pass: scan both sides, merge the two trees with the baseline of the last
  pass, apply the operations, save the new baseline. The sender does the same against a remote receiver
  (\<open>cs-sync serve\<close>) over a framed and encrypted connection. \<open>cs-sync run --mode zfs\<close> replicates a
  dataset by snapshots instead of files (\<open>src/zfs.go\<close> on one host, \<open>src/zfsnet.go\<close> between two), with the
  configuration of Proxmox guests in dataset properties (\<open>src/pveconf.go\<close>), which \<open>cs-sync pveconf\<close> lists
  and restores.

  THE MODEL is a shallow embedding: one definition per function, in the order and with the branches of
  the source, errors as sums or options, Go maps as association lists with distinct keys, machine
  integers at their width where they are computed with. Effects are passed explicitly: the file system
  of the theory \<open>FileSys\<close> with a failing outcome for every call, the list of commands issued for
  \<open>zfs\<close>, the messages written for the wire. What lies outside \<open>src/\<close> (the cipher, hashes, the ACL tools,
  rclone, the answers of \<open>zfs\<close>, clocks, JSON) is an argument. Concurrency is an inductive step relation.

  THE THEORIES, from the bottom up.

  \<open>Prelude\<close>: maps, iteration order of Go's \<open>range\<close> (an argument \<open>rng\<close> of every definition whose result
  could depend on it) and the simp collections. \<open>GoStrings\<close>, \<open>Paths\<close>: the functions of \<open>strings\<close>,
  \<open>strconv\<close> and \<open>path/filepath\<close> (Unix) that are used. \<open>FileSys\<close>: files, directories and links as a map
  from paths, with open inodes; \<open>Entries\<close>: \<open>internal/model\<close>.

  \<open>Reconcile\<close> is \<open>internal/reconcile\<close>: the three-way merge with conflicts and rename detection.
  \<open>Merge\<close> splits its result into one block per path or rename, \<open>Converge\<close> and \<open>Flat\<close> run operations
  on the two sides seen as maps from paths to entries, and \<open>Pass_Correct\<close> has the properties: both sides
  and the baseline agree afterwards and carry the values a three-way merge prescribes, a clash keeps both
  versions, a second pass does nothing, a rename is safe, one-way merges mirror. Their hypothesis
  \<open>pass_ok\<close> names what a pass needs: distinct paths, conflict names that are not in use yet, and inodes
  that identify files (a renamed file keeps its time, and no two new paths share an inode). Operations
  act on single paths there, so the effect of removing a directory on what lies below it is not part
  of these theorems.

  \<open>Persist\<close>: the files kept between passes (\<open>internal/state\<close>, \<open>guard\<close>, \<open>remote\<close>): a save that fails
  or dies at any step leaves the old or the new value; the locale \<open>atomic_store\<close> states this contract
  and is interpreted for each store. \<open>AclCsv\<close>: the table of folder ACLs, its text in the format of
  \<open>encoding/csv\<close>, and its round trip. \<open>Guard\<close>: delete budget, freeze and approval, source device, retry
  and quarantine. \<open>Endpoint\<close>: the endpoint grammar. \<open>Lock\<close>: the pass lock as interleaved steps of any
  number of processes. \<open>Limiter\<close>: the rate limit. \<open>Watch\<close>: both back ends of the watcher, its debounce
  timer, its ticker and \<open>emit\<close> interleaved with the reader of the channel. \<open>Port_Watch\<close>: the directories
  watched with event ports, as steps of the watcher, the kernel and whoever changes the tree; no directory
  stays unwatched. \<open>Scanner\<close>: the directory walk. \<open>Zfscheck\<close>: dataset and ACL type of a folder. \<open>Acl\<close>: the
  commands that read and set folder ACLs on each system, and that no name can leave its literal in the
  PowerShell script.

  \<open>Wire\<close>: framing and sealing (\<open>internal/wire\<close>). \<open>Receiver\<close>: \<open>internal/remote/receiver.go\<close>, handshake
  and frame loop on the file system; \<open>Receiver_Confined\<close> shows that a session stays below the
  destination, \<open>Receiver_Transfer\<close> that a transfer replaces its target by the verified file or leaves it
  alone. \<open>Sender\<close> and \<open>Sender_Correct\<close>: the pass of the backup leg, its order, blocking, retry and
  baseline, and the composition with the receiver: the messages the sender emits for a file install
  the bytes it read. \<open>Executor\<close>, \<open>Executor_Correct\<close>: \<open>internal/apply\<close> on two local roots or a
  bucket. \<open>Rustfs\<close>: bucket listing, notification handler and object keys.

  \<open>Config\<close>: the flags of \<open>run\<close>; \<open>Bootstrap\<close>: ACLs at the start; \<open>Main_Pass\<close>: \<open>doPass\<close>, composed from the
  merge and the executor's order; \<open>Lost_Root\<close>: what that pass does when the second side is gone;
  \<open>Failed_Apply\<close>: what two passes do when a copy fails. \<open>Startup\<close>: the start of \<open>run\<close> and \<open>scan\<close> as a list of
  effects with the exit of every failing call, the loop over signals, \<open>serve\<close> with its accept loop, and the
  status files; nothing is touched before the preconditions hold, and a dry run transfers nothing. \<open>Cli\<close>:
  the choice of the command, and \<open>webhook-test\<close>.

  \<open>Zfs\<close>: \<open>src/zfs.go\<close>, \<open>src/freezebin.go\<close> and the properties of \<open>src/pveconf.go\<close> over a world that
  records the commands issued and takes their answers from an oracle; \<open>Zfs_Correct\<close> has the locale
  \<open>zfs_inv\<close> for invariants that every command has to keep and interprets it for three of them (which
  commands, none at all without a key, and the guard of a forced receive). \<open>Zfs_Net\<close>,
  \<open>Zfs_Net_Correct\<close>: the same for the two hosts of \<open>src/zfsnet.go\<close>. These theorems hold whatever \<open>zfs\<close>
  answers. \<open>Zfs_Store\<close> adds the behaviour \<open>zfs\<close> documents, as a store of snapshots and inherited
  properties, and a triple over the runs whose answers \<open>follow\<close> that store: a guest configuration stored
  in chunks is read back whole. \<open>Zfs_Rotate\<close> shows that \<open>rotate\<close> refines one update of the map from
  slots to snapshots, and that it succeeds on every store with a new snapshot (without recursion).
  \<open>Zfs_Recover\<close> does the same for \<open>recoverCycle\<close> on the slots of both datasets; \<open>Zfs_Crash\<close> has a triple
  with a condition for every state on the way and shows that a rotation of both sides, cut off after any
  command, is completed by the recovery of the next cycle.
  \<open>Zfs_Run\<close>, \<open>Zfs_Run_Correct\<close>: the start of a service, its loop and the listener of \<open>zfsreceive\<close>. The locale
  \<open>zfs_inv_run\<close> extends \<open>zfs_inv_all\<close> to the loop, whose cycles each find a new connection and approval
  file; so two services on one host leave each other's snapshots alone. \<open>Pveconf\<close>, \<open>Pveconf_Correct\<close>: the
  command \<open>pveconf\<close> with its two regular expressions written out as Go matches them.

  BOUNDS. The read loops of \<open>Zfs_Net\<close> take fuel: the number of frames still in the inbox, and the number
  of chunks of a stream; \<open>handle_fuel\<close> and \<open>take_chunks_fuel\<close> show that a larger amount changes nothing. The
  loops of \<open>Limiter\<close> and of the object key in \<open>Rustfs\<close> are partial functions whose termination is proved
  (or, for a request above the rate, refuted). The loop of a ZFS service never ends; it is run for any
  number \<open>n\<close> of cycles, and its properties hold for all of them.

  WHAT THE CODE DOES NOT KEEP is stated as theorems too: a lost secondary empties the primary
  (\<open>lost_secondary_empties_primary\<close>), the lock race (\<open>steal_race\<close>), a safety-net signal that is dropped
  (\<open>safety_net_race\<close>), two frame forms that reach outside the destination
  (\<open>marker_reaches_outside\<close>, \<open>begin_at_dest_reaches_outside\<close>), the panic after a torn copy, a \<open>pull\<close> that
  writes ACLs to its source (\<open>pull_writes_source_acl\<close>), a failed copy that deletes its original in the next
  pass (\<open>failed_copy_deletes_original\<close>), loop markers that never travel (\<open>marker_is_never_scanned\<close>), names
  with typographic quotes on Windows (\<open>smart_quote_breaks_out\<close>), an ACL lost on FreeBSD
  (\<open>freebsd_error_loses_acl\<close>), service numbers with an underscore (\<open>underscore_in_number\<close>), paths that stay
  marked after a rename (\<open>renamed_path_stays_marked\<close>), and restores of a guest with two disks
  (\<open>second_disk_refused\<close>), of swapped storages (\<open>mapping_is_sequential\<close>) and of an id that is a path
  (\<open>id_leaves_target\<close>).

  NOT MODELLED. The log file, reading device and inode from a stat result, the parsing of the command line
  (package \<open>flag\<close>), usage text and log lines, gzip and base64, the HTTP server around the notification
  handler. Windows paths are not modelled
  (\<open>ToSlash\<close> and \<open>FromSlash\<close> are the identity), \<open>float64\<close> tokens of the limiter are rationals, and the
  encoding of \<open>encoding/gob\<close> is left to the payload bytes. The model runs one pass at a time; concurrent
  passes of one process are only covered by \<open>Lock\<close>.
\<close>

end
